(* ===== verification/Rdmapp_Prelude.thy ===== *)
theory Rdmapp_Prelude
  imports Main "HOL-Library.Word"
begin

text \<open>
  Shared base of the development: the machine types of the C++ code, its
  exceptions, the state-and-exception computations in which every member
  function is written, the two \<open>printf\<close> conversions its messages use, and
  the generic lemmas on lists and traces the components share.
\<close>

section \<open>Machine types\<close>

type_synonym u8 = "8 word"
type_synonym u16 = "16 word"
type_synonym u32 = "32 word"
type_synonym u64 = "64 word"

text \<open>\<open>std::byte\<close> sequences, \<open>size_t\<close> and raw pointers (\<open>nullptr\<close> is 0) on an LP64 host.\<close>

type_synonym bytes = "u8 list"
type_synonym size_t = "64 word"
type_synonym ptr = "64 word"

abbreviation nullptr :: ptr where "nullptr \<equiv> 0"

text \<open>The values of a signed type of \<open>w\<close> bits.\<close>

definition fits :: "nat \<Rightarrow> int \<Rightarrow> bool" where
  "fits w n \<longleftrightarrow> - (2 ^ (w - 1)) \<le> n \<and> n < 2 ^ (w - 1)"

section \<open>Exceptions and other abnormal ends\<close>

text \<open>
  \<open>std_exception\<close> tells the outcomes a \<open>catch (std::exception const &)\<close> sees
  from those no handler of the code can stop: a failed \<open>assert\<close>,
  \<open>std::terminate\<close>, and an access the C++ standard leaves undefined.
\<close>

datatype exn =
    Runtime_error string
  | Invalid_argument string
  | Out_of_range string
  | System_error string
  | Bad_function_call
  | Queue_closed_error
  | Assert_failed string
  | Terminated string
  | Undefined_behaviour string

fun std_exception :: "exn \<Rightarrow> bool" where
  "std_exception (Runtime_error _) = True"
| "std_exception (Invalid_argument _) = True"
| "std_exception (Out_of_range _) = True"
| "std_exception (System_error _) = True"
| "std_exception Bad_function_call = True"
| "std_exception _ = False"

fun runtime_error :: "exn \<Rightarrow> bool" where
  "runtime_error (Runtime_error _) = True"
| "runtime_error (System_error _) = True"
| "runtime_error _ = False"

text \<open>Every value that travels as a C++ exception, so that unwinding runs destructors.\<close>

fun cxx_exception :: "exn \<Rightarrow> bool" where
  "cxx_exception (Assert_failed _) = False"
| "cxx_exception (Terminated _) = False"
| "cxx_exception (Undefined_behaviour _) = False"
| "cxx_exception _ = True"

lemma std_exception_cxx [simp]: "std_exception e \<Longrightarrow> cxx_exception e"
  by (cases e) auto

lemma runtime_error_std [simp]: "runtime_error e \<Longrightarrow> std_exception e"
  by (cases e) auto

section \<open>Computations with state and exceptions\<close>

text \<open>
  A member function maps the state it may change to a result, or to the
  exception that leaves it, together with the state at that moment: an
  exception does not undo the writes made before it.
\<close>

type_synonym ('s, 'a) se = "'s \<Rightarrow> (exn + 'a) \<times> 's"

named_theorems se_simps \<open>evaluation of state-and-exception computations\<close>

definition returnS :: "'a \<Rightarrow> ('s, 'a) se" where
  "returnS x s = (Inr x, s)"

definition throwS :: "exn \<Rightarrow> ('s, 'a) se" where
  "throwS e s = (Inl e, s)"

definition bindS :: "('s, 'a) se \<Rightarrow> ('a \<Rightarrow> ('s, 'b) se) \<Rightarrow> ('s, 'b) se" where
  "bindS m f s = (case m s of (Inl e, s') \<Rightarrow> (Inl e, s') | (Inr x, s') \<Rightarrow> f x s')"

definition thenS :: "('s, 'a) se \<Rightarrow> ('s, 'b) se \<Rightarrow> ('s, 'b) se" where
  "thenS m k = bindS m (\<lambda>_. k)"

definition getS :: "('s, 's) se" where
  "getS s = (Inr s, s)"

definition modifyS :: "('s \<Rightarrow> 's) \<Rightarrow> ('s, unit) se" where
  "modifyS f s = (Inr (), f s)"

text \<open>\<open>try { m } catch (T const &e) { h e }\<close>, where \<open>p\<close> says which exceptions are a \<open>T\<close>.\<close>

definition catchS :: "(exn \<Rightarrow> bool) \<Rightarrow> ('s, 'a) se \<Rightarrow> (exn \<Rightarrow> ('s, 'a) se) \<Rightarrow> ('s, 'a) se" where
  "catchS p m h s = (case m s of
      (Inl e, s') \<Rightarrow> (if p e then h e s' else (Inl e, s'))
    | (Inr x, s') \<Rightarrow> (Inr x, s'))"

text \<open>
  Stack unwinding: a destructor that runs when an exception leaves \<open>m\<close>
  (\<open>unwindS\<close>), or in either case (\<open>finallyS\<close>).
\<close>

definition unwindS :: "('s, 'a) se \<Rightarrow> ('s, unit) se \<Rightarrow> ('s, 'a) se" where
  "unwindS m k = catchS cxx_exception m (\<lambda>e. thenS k (throwS e))"

definition finallyS :: "('s, 'a) se \<Rightarrow> ('s, unit) se \<Rightarrow> ('s, 'a) se" where
  "finallyS m k = bindS (unwindS m k) (\<lambda>x. thenS k (returnS x))"

text \<open>A \<open>noexcept\<close> function: an exception that would leave it ends the process.\<close>

definition noexceptS :: "string \<Rightarrow> ('s, 'a) se \<Rightarrow> ('s, 'a) se" where
  "noexceptS where_from m = catchS cxx_exception m (\<lambda>e. throwS (Terminated where_from))"

text \<open>Pure steps that may throw, one after the other, and as a computation.\<close>

definition bindR :: "exn + 'a \<Rightarrow> ('a \<Rightarrow> exn + 'b) \<Rightarrow> exn + 'b" where
  "bindR r f = (case r of Inl e \<Rightarrow> Inl e | Inr x \<Rightarrow> f x)"

lemma bindR_simps [simp]: "bindR (Inl e) f = Inl e" "bindR (Inr x) f = f x"
  by (simp_all add: bindR_def)

definition liftS :: "exn + 'a \<Rightarrow> ('s, 'a) se" where
  "liftS r s = (r, s)"

text \<open>A computation on one component of a pair of states (an object and the world).\<close>

definition on_snd :: "('w, 'a) se \<Rightarrow> ('o \<times> 'w, 'a) se" where
  "on_snd m s = (case m (snd s) of (r, w') \<Rightarrow> (r, (fst s, w')))"

lemma returnS_apply [se_simps]: "returnS x s = (Inr x, s)"
  by (simp add: returnS_def)

lemma throwS_apply [se_simps]: "throwS e s = (Inl e, s)"
  by (simp add: throwS_def)

lemma getS_apply [se_simps]: "getS s = (Inr s, s)"
  by (simp add: getS_def)

lemma modifyS_apply [se_simps]: "modifyS f s = (Inr (), f s)"
  by (simp add: modifyS_def)

lemma bindS_ok: "m s = (Inr x, s') \<Longrightarrow> bindS m f s = f x s'"
  by (simp add: bindS_def)

lemma bindS_exn: "m s = (Inl e, s') \<Longrightarrow> bindS m f s = (Inl e, s')"
  by (simp add: bindS_def)

lemma bindS_returnS [simp]: "bindS (returnS x) f = f x"
  by (simp add: bindS_def returnS_def fun_eq_iff)

lemma bindS_throwS [simp]: "bindS (throwS e) f = throwS e"
  by (simp add: bindS_def throwS_def fun_eq_iff)

lemma bindS_assoc: "bindS (bindS m f) g = bindS m (\<lambda>x. bindS (f x) g)"
  by (simp add: bindS_def fun_eq_iff split: prod.splits sum.splits)

lemma bindS_okE:
  assumes "bindS m f s = (Inr y, t)"
  obtains x s' where "m s = (Inr x, s')" and "f x s' = (Inr y, t)"
  using assms by (auto simp: bindS_def split: prod.splits sum.splits)

lemma on_snd_apply [se_simps]: "on_snd m (obj, w) = (fst (m w), (obj, snd (m w)))"
  by (simp add: on_snd_def split: prod.splits)

lemmas se_defs = bindS_def thenS_def catchS_def returnS_def throwS_def getS_def modifyS_def on_snd_def
  unwindS_def finallyS_def liftS_def noexceptS_def

section \<open>printf conversions\<close>

text \<open>
  Decimal (\<open>%d\<close>, \<open>%lu\<close>) and two-digit hexadecimal (\<open>%02x\<close> on a byte) text, and the
  cut that \<open>snprintf(buffer, size, ...)\<close> makes: at most \<open>size - 1\<close> characters
  before the terminating zero.
\<close>

definition digit_char :: "nat \<Rightarrow> char" where
  "digit_char d = char_of (48 + d)"

fun dec_nat :: "nat \<Rightarrow> string" where
  "dec_nat n = (if n < 10 then [digit_char n] else dec_nat (n div 10) @ [digit_char (n mod 10)])"

declare dec_nat.simps [simp del]

definition dec_int :: "int \<Rightarrow> string" where
  "dec_int i = (if i < 0 then CHR ''-'' # dec_nat (nat (- i)) else dec_nat (nat i))"

definition snprintf_cut :: "nat \<Rightarrow> string \<Rightarrow> string" where
  "snprintf_cut n s = take (n - 1) s"

lemma snprintf_cut_length: "0 < n \<Longrightarrow> length (snprintf_cut n s) < n"
  by (simp add: snprintf_cut_def)

lemma snprintf_cut_short: "length s < n \<Longrightarrow> snprintf_cut n s = s"
  by (simp add: snprintf_cut_def)

section \<open>Transition systems\<close>

text \<open>
  The concurrent parts of the program are step relations. Their safety
  properties are invariants, proved once here for every system that discharges
  the two obligations.
\<close>

inductive reach :: "('s \<Rightarrow> bool) \<Rightarrow> ('s \<Rightarrow> 's \<Rightarrow> bool) \<Rightarrow> 's \<Rightarrow> bool" for start step where
  reach_start: "start s \<Longrightarrow> reach start step s"
| reach_step: "reach start step s \<Longrightarrow> step s t \<Longrightarrow> reach start step t"

locale transition_system =
  fixes start :: "'s \<Rightarrow> bool"
    and step :: "'s \<Rightarrow> 's \<Rightarrow> bool"
    and inv :: "'s \<Rightarrow> bool"
  assumes inv_start: "start s \<Longrightarrow> inv s"
    and inv_step: "inv s \<Longrightarrow> step s t \<Longrightarrow> inv t"
begin

lemma reach_inv: "reach start step s \<Longrightarrow> inv s"
  by (induction rule: reach.induct) (auto intro: inv_start inv_step)

lemma reach_from: "step\<^sup>*\<^sup>* s t \<Longrightarrow> inv s \<Longrightarrow> inv t"
  by (induction rule: rtranclp_induct) (auto intro: inv_step)

end

section \<open>Lists\<close>

definition only_new :: "'a list \<Rightarrow> 'a list \<Rightarrow> 'a list" where
  "only_new old new = drop (length old) new"

lemma only_new_append [simp]: "only_new old (old @ new) = new"
  by (simp add: only_new_def)

lemma take_append_exact [simp]: "length xs = n \<Longrightarrow> take n (xs @ ys) = xs"
  by simp

lemma drop_append_exact [simp]: "length xs = n \<Longrightarrow> drop n (xs @ ys) = ys"
  by simp

section \<open>Every so many rounds\<close>

text \<open>What a loop reports in every \<open>B\<close>th of its \<open>N\<close> rounds but the first.\<close>

lemma concat_map_if: "concat (map (\<lambda>i. if P i then [f i] else []) xs) = map f (filter P xs)"
  by (induction xs) auto

lemma multiples_below:
  assumes "0 < B"
  shows "filter (\<lambda>i. 0 < i \<and> i mod B = 0) [0..<N] = map (\<lambda>j. j * B) [1..<(N + B - 1) div B]"
proof (induction N)
  case 0
  then show ?case using assms by simp
next
  case (Suc N)
  have up: "(Suc N + B - 1) div B = Suc (N div B)" using assms by (simp add: div_add_self2)
  have down: "(N + B - 1) div B = (if N mod B = 0 then N div B else Suc (N div B))"
  proof (cases "N mod B = 0")
    case True
    then obtain k where N: "N = k * B" by (metis dvdE dvd_eq_mod_eq_0 mult.commute)
    obtain b where B: "B = Suc b" using assms gr0_implies_Suc by blast
    have "(k * B + b) div B = k" unfolding B by (subst div_mult_self3) simp_all
    moreover have "N div B = k" unfolding N B by (rule nonzero_mult_div_cancel_right) simp
    moreover have "N + B - 1 = k * B + b" by (simp add: N B)
    ultimately show ?thesis using True by simp
  next
    case False
    then obtain m where m: "N mod B = Suc m" using not0_implies_Suc by blast
    then have "m < B" using mod_less_divisor [OF assms, of N] by simp
    then have "(Suc (N div B) * B + m) div B = Suc (N div B)" using assms by (subst div_mult_self3) simp_all
    moreover have "N + B - 1 = Suc (N div B) * B + m" using div_mult_mod_eq [of N B] m by simp
    ultimately show ?thesis using False by simp
  qed
  show ?case
  proof (cases "N mod B = 0")
    case True
    then have N: "N div B * B = N" using div_mult_mod_eq [of N B] by simp
    show ?thesis
    proof (cases "N = 0")
      case False
      then have "0 < N div B" using N by (cases "N div B") simp_all
      then show ?thesis unfolding up using Suc down True N False by simp
    qed (use assms in simp)
  next
    case False
    then show ?thesis unfolding up using Suc down by simp
  qed
qed

end
