(* ===== verification/Serdes.thy ===== *)
theory Serdes
  imports Rdmapp_Prelude
begin

unbundle bit_operations_syntax

text \<open>
  \<^verbatim>\<open>include/rdmapp/detail/serdes.h\<close>: integers travel in network (big-endian) byte
  order, \<open>union ibv_gid\<close> as its 16 raw bytes. The host's own byte order is a
  parameter, so that the wire format is shown not to depend on it.
\<close>

section \<open>Object representations\<close>

datatype endian = Little | Big

definition size_of :: "'a::len word \<Rightarrow> nat" where
  "size_of w = LENGTH('a) div 8"

definition le_bytes :: "'a::len word \<Rightarrow> bytes" where
  "le_bytes w = map (\<lambda>i. ucast (drop_bit (8 * i) w)) [0..<size_of w]"

fun le_word :: "bytes \<Rightarrow> 'a::len word" where
  "le_word [] = 0"
| "le_word (b # bs) = ucast b OR push_bit 8 (le_word bs)"

text \<open>\<open>reinterpret_cast<std::byte *>(&value)\<close>, and the read back through such a pointer.\<close>

definition to_memory :: "endian \<Rightarrow> 'a::len word \<Rightarrow> bytes" where
  "to_memory e w = (case e of Little \<Rightarrow> le_bytes w | Big \<Rightarrow> rev (le_bytes w))"

definition of_memory :: "endian \<Rightarrow> bytes \<Rightarrow> 'a::len word" where
  "of_memory e bs = (case e of Little \<Rightarrow> le_word bs | Big \<Rightarrow> le_word (rev bs))"

definition bswap :: "'a::len word \<Rightarrow> 'a word" where
  "bswap w = le_word (rev (le_bytes w))"

section \<open>The functions of serdes.h\<close>

definition hton :: "endian \<Rightarrow> 'a::len word \<Rightarrow> 'a word" where
  "hton e w = (case e of Little \<Rightarrow> bswap w | Big \<Rightarrow> w)"

definition ntoh :: "endian \<Rightarrow> 'a::len word \<Rightarrow> 'a word" where
  "ntoh e w = (case e of Little \<Rightarrow> bswap w | Big \<Rightarrow> w)"

text \<open>\<open>serialize\<close> appends to the output iterator; here it is the bytes appended.\<close>

definition serialize :: "endian \<Rightarrow> 'a::len word \<Rightarrow> bytes" where
  "serialize e v = to_memory e (hton e v)"

text \<open>
  \<open>deserialize\<close> copies \<open>sizeof(T)\<close> bytes and advances the iterator, without any check. \<open>None\<close> is not a
  value it returns: it stands for the undefined behaviour of a copy from past the end of the buffer the iterator points into,
  which callers have to rule out.
\<close>

definition deserialize :: "endian \<Rightarrow> bytes \<Rightarrow> ('a::len word \<times> bytes) option" where
  "deserialize e bs =
     (let n = size_of (0 :: 'a word) in
      if length bs < n then None
      else Some (ntoh e (of_memory e (take n bs)), drop n bs))"

text \<open>
  The \<open>void *\<close> overload: the pointer's bytes, reinterpreted as a 64-bit integer in
  network order and cast back to a pointer.
\<close>

definition deserialize_ptr :: "endian \<Rightarrow> bytes \<Rightarrow> (ptr \<times> bytes) option" where
  "deserialize_ptr e bs =
     (if length bs < 8 then None
      else Some (ntoh e (of_memory e (take 8 bs)), drop 8 bs))"

text \<open>\<open>union ibv_gid\<close>: sixteen raw bytes.\<close>

typedef gid = "{bs :: bytes. length bs = 16}"
  morphisms gid_raw Abs_gid
  by (rule exI [of _ "replicate 16 0"]) simp

definition gid_of :: "bytes \<Rightarrow> gid" where
  "gid_of bs = Abs_gid (take 16 (bs @ replicate 16 0))"

definition serialize_gid :: "gid \<Rightarrow> bytes" where
  "serialize_gid g = gid_raw g"

definition deserialize_gid :: "bytes \<Rightarrow> (gid \<times> bytes) option" where
  "deserialize_gid bs =
     (if length bs < 16 then None else Some (gid_of (take 16 bs), drop 16 bs))"

lemma gid_raw_length [simp]: "length (gid_raw g) = 16"
  using gid_raw [of g] by simp

lemma gid_raw_of [simp]: "length bs = 16 \<Longrightarrow> gid_raw (gid_of bs) = bs"
  by (simp add: gid_of_def Abs_gid_inverse)

lemma gid_of_raw [simp]: "gid_of (gid_raw g) = g"
  by (simp add: gid_of_def gid_raw_inverse)

lemma gid_eq_iff: "g = h \<longleftrightarrow> gid_raw g = gid_raw h"
  by (simp add: gid_raw_inject)

section \<open>Bit-level facts\<close>

lemma size_of_u16 [simp]: "size_of (w :: u16) = 2" by (simp add: size_of_def)
lemma size_of_u32 [simp]: "size_of (w :: u32) = 4" by (simp add: size_of_def)
lemma size_of_u64 [simp]: "size_of (w :: u64) = 8" by (simp add: size_of_def)

lemma le_bytes_length [simp]: "length (le_bytes w) = size_of w"
  by (simp add: le_bytes_def)

lemma to_memory_length [simp]: "length (to_memory e w) = size_of w"
  by (simp add: to_memory_def split: endian.splits)

lemma bit_le_word:
  "bit (le_word bs :: 'a::len word) i \<longleftrightarrow>
     i < LENGTH('a) \<and> i < 8 * length bs \<and> bit (bs ! (i div 8)) (i mod 8)"
proof (induction bs arbitrary: i)
  case Nil
  then show ?case by simp
next
  case (Cons b bs)
  show ?case
  proof (cases "i < 8")
    case True
    then show ?thesis
      by (auto simp: bit_or_iff bit_push_bit_iff bit_ucast_iff bit_imp_le_length)
  next
    case False
    have not_b: "\<not> bit b i"
      using False bit_imp_le_length by fastforce
    have nth: "(b # bs) ! (i div 8) = bs ! ((i - 8) div 8)" "i mod 8 = (i - 8) mod 8"
      using False by (simp_all add: nth_Cons' div_if mod_if)
    show ?thesis
      using False not_b
      by (auto simp: bit_or_iff bit_push_bit_iff bit_ucast_iff Cons.IH nth)
  qed
qed

lemma nth_le_bytes:
  "i < size_of w \<Longrightarrow> le_bytes w ! i = ucast (drop_bit (8 * i) w)"
  by (simp add: le_bytes_def)

lemma le_word_le_bytes:
  fixes w :: "'a::len word"
  assumes "8 * size_of w = LENGTH('a)"
  shows "le_word (le_bytes w) = w"
proof (rule bit_word_eqI)
  fix i
  assume i: "i < LENGTH('a)"
  then have "i div 8 < size_of w" using assms by auto
  with i assms show "bit (le_word (le_bytes w) :: 'a word) i = bit w i"
    by (simp add: bit_le_word nth_le_bytes bit_ucast_iff bit_drop_bit_eq)
qed

lemma of_to_memory: "8 * size_of (w :: 'a::len word) = LENGTH('a) \<Longrightarrow> of_memory e (to_memory e w) = w"
  by (cases e) (simp_all add: of_memory_def to_memory_def le_word_le_bytes)

lemma le_bytes_le_word:
  assumes "8 * length bs = LENGTH('a)" and "size_of (0 :: 'a::len word) = length bs"
  shows "le_bytes (le_word bs :: 'a::len word) = bs"
proof (rule nth_equalityI)
  show "length (le_bytes (le_word bs :: 'a word)) = length bs"
    using assms by (simp add: size_of_def)
next
  fix k
  assume "k < length (le_bytes (le_word bs :: 'a word))"
  then have k: "k < length bs" using assms by (simp add: size_of_def)
  then have nth: "le_bytes (le_word bs :: 'a word) ! k = ucast (drop_bit (8 * k) (le_word bs :: 'a word))"
    using assms by (intro nth_le_bytes) (simp add: size_of_def)
  show "le_bytes (le_word bs :: 'a word) ! k = bs ! k"
    unfolding nth
  proof (rule bit_word_eqI)
    fix j
    assume "j < LENGTH(8)"
    then have j: "j < 8" by simp
    with k have "8 * k + j < 8 * length bs" by simp
    with j assms(1) show "bit (ucast (drop_bit (8 * k) (le_word bs :: 'a word)) :: u8) j = bit (bs ! k) j"
      by (simp add: bit_ucast_iff bit_drop_bit_eq bit_le_word)
  qed
qed

section \<open>The wire format\<close>

lemma serialize_be:
  fixes v :: "'a::len word"
  assumes "8 * size_of v = LENGTH('a)"
  shows "serialize e v = rev (le_bytes v)"
proof (cases e)
  case Little
  have "le_bytes (le_word (rev (le_bytes v)) :: 'a word) = rev (le_bytes v)"
    using assms by (intro le_bytes_le_word) (simp_all add: size_of_def)
  with Little show ?thesis by (simp add: serialize_def hton_def bswap_def to_memory_def)
next
  case Big
  then show ?thesis by (simp add: serialize_def hton_def to_memory_def)
qed

lemma serialize_length:
  fixes v :: "'a::len word"
  shows "length (serialize e v) = size_of v"
  by (simp add: serialize_def size_of_def)

lemma ntoh_of_memory:
  fixes v :: "'a::len word"
  assumes "8 * size_of v = LENGTH('a)"
  shows "ntoh e (of_memory e (rev (le_bytes v))) = v"
proof -
  have swapped: "le_bytes (le_word (rev (le_bytes v)) :: 'a word) = rev (le_bytes v)"
    using assms by (intro le_bytes_le_word) (simp_all add: size_of_def)
  then show ?thesis
    using assms le_word_le_bytes [of v]
    by (cases e) (simp_all add: ntoh_def of_memory_def bswap_def)
qed

lemma deserialize_serialize:
  fixes v :: "'a::len word"
  assumes "8 * size_of v = LENGTH('a)"
  shows "deserialize e2 (serialize e1 v @ rest) = Some (v, rest)"
proof -
  have "size_of (0 :: 'a word) = size_of v" by (simp add: size_of_def)
  with assms show ?thesis
    by (simp add: deserialize_def Let_def serialize_be ntoh_of_memory)
qed

lemma deserialize_short:
  "length bs < size_of (0 :: 'a::len word) \<Longrightarrow> (deserialize e bs :: ('a word \<times> bytes) option) = None"
  by (simp add: deserialize_def)

lemma deserialize_ptr_eq: "deserialize_ptr e bs = (deserialize e bs :: (u64 \<times> bytes) option)"
  by (simp add: deserialize_ptr_def deserialize_def)

lemma le_bytes_nat:
  fixes w :: "'a::len word"
  shows "map unat (le_bytes w) = map (\<lambda>i. unat w div 256 ^ i mod 256) [0..<size_of w]"
proof -
  have pow: "(2::nat) ^ (8 * i) = 256 ^ i" for i :: nat
    by (simp add: power_mult)
  have whole: "take_bit LENGTH('a) (unat w) = unat w"
    by (simp add: take_bit_nat_eq_self_iff unsigned_less)
  have "unat (ucast (drop_bit (8 * i) w) :: u8) = take_bit 8 (drop_bit (8 * i) (unat w))" for i
    by (simp add: unsigned_ucast_eq unsigned_drop_bit_eq whole)
  then have "unat (ucast (drop_bit (8 * i) w) :: u8) = unat w div 256 ^ i mod 256" for i
    by (simp add: drop_bit_eq_div take_bit_eq_mod pow)
  then show ?thesis by (simp add: le_bytes_def)
qed

lemma serialize_nat:
  fixes v :: "'a::len word"
  assumes "8 * size_of v = LENGTH('a)"
  shows "map unat (serialize e v) = rev (map (\<lambda>i. unat v div 256 ^ i mod 256) [0..<size_of v])"
  using assms by (simp add: serialize_be le_bytes_nat flip: rev_map)

section \<open>Fixed-width codecs\<close>

text \<open>
  What the connection protocol needs from a pair of (de)serializers: the encoder
  writes a fixed number of bytes, the decoder gives the value back and leaves
  the iterator behind it, and it fails on a buffer that is too short.
\<close>

locale codec =
  fixes enc :: "'a \<Rightarrow> bytes"
    and dec :: "bytes \<Rightarrow> ('a \<times> bytes) option"
    and width :: nat
  assumes enc_width: "length (enc x) = width"
    and dec_enc: "dec (enc x @ rest) = Some (x, rest)"
    and dec_short: "length bs < width \<Longrightarrow> dec bs = None"
begin

lemma dec_enc_whole: "dec (enc x) = Some (x, [])"
  using dec_enc [of x "[]"] by simp

lemma enc_prefix_free: "enc x @ r = enc y @ s \<Longrightarrow> x = y \<and> r = s"
  by (metis dec_enc option.inject prod.inject)

lemma enc_inject: "enc x = enc y \<longleftrightarrow> x = y"
  using enc_prefix_free [of x "[]" y "[]"] by auto

lemma dec_truncated: "k < width \<Longrightarrow> dec (take k (enc x)) = None"
  by (rule dec_short) (simp add: enc_width)

end

interpretation u16_codec: codec "serialize e1 :: u16 \<Rightarrow> bytes" "deserialize e2" 2 for e1 e2
  by unfold_locales (auto simp: serialize_length deserialize_serialize deserialize_short)

interpretation u32_codec: codec "serialize e1 :: u32 \<Rightarrow> bytes" "deserialize e2" 4 for e1 e2
  by unfold_locales (auto simp: serialize_length deserialize_serialize deserialize_short)

interpretation u64_codec: codec "serialize e1 :: u64 \<Rightarrow> bytes" "deserialize e2" 8 for e1 e2
  by unfold_locales (auto simp: serialize_length deserialize_serialize deserialize_short)

interpretation ptr_codec: codec "serialize e1 :: u64 \<Rightarrow> bytes" "deserialize_ptr e2" 8 for e1 e2
  by unfold_locales
    (auto simp: serialize_length deserialize_serialize deserialize_short deserialize_ptr_eq)

interpretation gid_codec: codec serialize_gid deserialize_gid 16
  by unfold_locales (auto simp: serialize_gid_def deserialize_gid_def)

section \<open>Properties\<close>

text \<open>
  C34: whatever a host of either byte order serializes is deserialized by a host of either byte order to
  the same value, and the reader's iterator stands right behind it, for
  the three integer widths, for pointers and for GIDs; on the wire every integer is in network byte order, most
  significant byte first.
\<close>

theorem deserialize_roundtrip:
  "deserialize e2 (serialize e1 (a :: u16) @ rest) = Some (a, rest) \<and>
   deserialize e2 (serialize e1 (b :: u32) @ rest) = Some (b, rest) \<and>
   deserialize e2 (serialize e1 (c :: u64) @ rest) = Some (c, rest) \<and>
   deserialize_ptr e2 (serialize e1 p @ rest) = Some (p, rest) \<and>
   deserialize_gid (serialize_gid g @ rest) = Some (g, rest) \<and>
   map unat (serialize e1 a) = map (\<lambda>i. unat a div 256 ^ (1 - i) mod 256) [0..<2] \<and>
   map unat (serialize e1 b) = map (\<lambda>i. unat b div 256 ^ (3 - i) mod 256) [0..<4] \<and>
   map unat (serialize e1 c) = map (\<lambda>i. unat c div 256 ^ (7 - i) mod 256) [0..<8]"
  by (intro conjI)
    (simp_all add: u16_codec.dec_enc u32_codec.dec_enc u64_codec.dec_enc ptr_codec.dec_enc gid_codec.dec_enc serialize_nat upt_rec)

end
