(* ===== verification/Verbs.thy ===== *)
theory Verbs
  imports Serdes
begin

text \<open>
  The boundary to libibverbs, which is not part of the repository. Its calls and
  the structures passed to them appear here as data, with the field widths of
  \<^verbatim>\<open><infiniband/verbs.h>\<close>; what the library answers is a parameter
  (\<open>verbs\<close>) that may depend on every call made before. The world of the
  process records the calls made, in order, and the one class-static variable of
  the code. No definition of the development looks inside the parameter.
\<close>

section \<open>Enumerations\<close>

datatype ibv_qp_state = IBV_QPS_RESET | IBV_QPS_INIT | IBV_QPS_RTR | IBV_QPS_RTS | IBV_QPS_ERR

datatype ibv_qp_attr_mask =
    IBV_QP_STATE | IBV_QP_PORT | IBV_QP_ACCESS_FLAGS | IBV_QP_PKEY_INDEX
  | IBV_QP_AV | IBV_QP_PATH_MTU | IBV_QP_DEST_QPN | IBV_QP_RQ_PSN
  | IBV_QP_MIN_RNR_TIMER | IBV_QP_MAX_DEST_RD_ATOMIC
  | IBV_QP_TIMEOUT | IBV_QP_RETRY_CNT | IBV_QP_RNR_RETRY | IBV_QP_SQ_PSN
  | IBV_QP_MAX_QP_RD_ATOMIC

datatype ibv_access_flag =
  IBV_ACCESS_LOCAL_WRITE | IBV_ACCESS_REMOTE_WRITE | IBV_ACCESS_REMOTE_READ | IBV_ACCESS_REMOTE_ATOMIC

datatype ibv_qp_type = IBV_QPT_RC

datatype ibv_mtu = MTU_UNSET | IBV_MTU_4096

datatype ibv_send_flag = IBV_SEND_SIGNALED

datatype ibv_link_layer = IBV_LINK_LAYER_UNSPECIFIED | IBV_LINK_LAYER_INFINIBAND | IBV_LINK_LAYER_ETHERNET

text \<open>The opcodes the code names; every other enumerator of the header is \<open>IBV_WR_OTHER\<close>.\<close>

datatype ibv_wr_opcode =
    IBV_WR_SEND | IBV_WR_RDMA_WRITE | IBV_WR_RDMA_WRITE_WITH_IMM | IBV_WR_RDMA_READ
  | IBV_WR_ATOMIC_CMP_AND_SWP | IBV_WR_ATOMIC_FETCH_AND_ADD | IBV_WR_OTHER nat

text \<open>The completion statuses the code names, and any further value of the enumeration.\<close>

datatype ibv_wc_status =
    IBV_WC_SUCCESS | IBV_WC_LOC_LEN_ERR | IBV_WC_LOC_QP_OP_ERR | IBV_WC_LOC_EEC_OP_ERR
  | IBV_WC_LOC_PROT_ERR | IBV_WC_WR_FLUSH_ERR | IBV_WC_MW_BIND_ERR | IBV_WC_BAD_RESP_ERR
  | IBV_WC_LOC_ACCESS_ERR | IBV_WC_REM_INV_REQ_ERR | IBV_WC_REM_ACCESS_ERR | IBV_WC_REM_OP_ERR
  | IBV_WC_RETRY_EXC_ERR | IBV_WC_RNR_RETRY_EXC_ERR | IBV_WC_LOC_RDD_VIOL_ERR
  | IBV_WC_REM_INV_RD_REQ_ERR | IBV_WC_REM_ABORT_ERR | IBV_WC_INV_EECN_ERR
  | IBV_WC_INV_EEC_STATE_ERR | IBV_WC_FATAL_ERR | IBV_WC_RESP_TIMEOUT_ERR | IBV_WC_GENERAL_ERR
  | IBV_WC_TM_ERR | IBV_WC_TM_RNDV_INCOMPLETE | IBV_WC_UNNAMED nat

section \<open>Structures\<close>

record ibv_sge =
  sge_addr :: u64
  sge_length :: u32
  sge_lkey :: u32

text \<open>The union \<open>ibv_send_wr.wr\<close>, zero-initialised by \<open>= {}\<close>.\<close>

datatype ibv_wr_union =
    Wr_zero
  | Wr_rdma (rdma_remote_addr: u64) (rdma_rkey: u32)
  | Wr_atomic (atomic_remote_addr: u64) (atomic_rkey: u32) (atomic_compare_add: u64) (atomic_swap: u64)

record ibv_send_wr =
  swr_id :: u64
  swr_sg_list :: "ibv_sge list"
  swr_opcode :: ibv_wr_opcode
  swr_send_flags :: "ibv_send_flag set"
  swr_imm_data :: u32
  swr_wr :: ibv_wr_union

record ibv_recv_wr =
  rwr_id :: u64
  rwr_sg_list :: "ibv_sge list"

record ibv_wc =
  wc_wr_id :: u64
  wc_status :: ibv_wc_status
  wc_byte_len :: u32
  wc_imm_data :: u32
  wc_flags :: u32

record ibv_qp_init_attr =
  init_qp_type :: ibv_qp_type
  init_recv_cq :: ptr
  init_send_cq :: ptr
  init_srq :: ptr
  init_max_send_wr :: u32
  init_max_recv_wr :: u32
  init_max_send_sge :: u32
  init_max_recv_sge :: u32
  init_sq_sig_all :: int

record ibv_ah_attr =
  ah_is_global :: u8
  ah_grh_dgid :: gid
  ah_grh_sgid_index :: u8
  ah_grh_hop_limit :: u8
  ah_dlid :: u16
  ah_sl :: u8
  ah_src_path_bits :: u8
  ah_port_num :: u8

record ibv_qp_attr =
  attr_qp_state :: ibv_qp_state
  attr_path_mtu :: ibv_mtu
  attr_pkey_index :: u16
  attr_port_num :: u8
  attr_qp_access_flags :: "ibv_access_flag set"
  attr_dest_qp_num :: u32
  attr_rq_psn :: u32
  attr_sq_psn :: u32
  attr_max_dest_rd_atomic :: u8
  attr_max_rd_atomic :: u8
  attr_min_rnr_timer :: u8
  attr_timeout :: u8
  attr_retry_cnt :: u8
  attr_rnr_retry :: u8
  attr_ah :: ibv_ah_attr

text \<open>\<open>struct ibv_qp_attr qp_attr = {}\<close> followed by \<open>bzero\<close>.\<close>

definition zero_ah_attr :: ibv_ah_attr where
  "zero_ah_attr = \<lparr>ah_is_global = 0, ah_grh_dgid = gid_of [], ah_grh_sgid_index = 0,
     ah_grh_hop_limit = 0, ah_dlid = 0, ah_sl = 0, ah_src_path_bits = 0, ah_port_num = 0\<rparr>"

definition zero_qp_attr :: ibv_qp_attr where
  "zero_qp_attr = \<lparr>attr_qp_state = IBV_QPS_RESET, attr_path_mtu = MTU_UNSET, attr_pkey_index = 0,
     attr_port_num = 0, attr_qp_access_flags = {}, attr_dest_qp_num = 0, attr_rq_psn = 0,
     attr_sq_psn = 0, attr_max_dest_rd_atomic = 0, attr_max_rd_atomic = 0,
     attr_min_rnr_timer = 0, attr_timeout = 0, attr_retry_cnt = 0, attr_rnr_retry = 0,
     attr_ah = zero_ah_attr\<rparr>"

record ibv_port_attr =
  port_lid :: u16
  port_link_layer :: ibv_link_layer

record ibv_srq_init_attr =
  srq_max_wr :: u32
  srq_max_sge :: u32
  srq_limit :: u32

text \<open>A registered region: the address of the \<open>struct ibv_mr\<close> and the fields the code reads.\<close>

record ibv_mr =
  mr_handle :: ptr
  mr_addr :: ptr
  mr_length :: size_t
  mr_lkey :: u32
  mr_rkey :: u32

section \<open>Calls and answers\<close>

datatype vcall =
    Get_device_list
  | Free_device_list ptr
  | Open_device ptr
  | Query_port ptr u8
  | Query_device_ex ptr
  | Query_gid ptr u8 int
  | Close_device ptr
  | Alloc_pd ptr
  | Dealloc_pd ptr
  | Reg_mr ptr ptr size_t "ibv_access_flag set"
  | Dereg_mr ptr
  | Create_cq ptr int
  | Destroy_cq ptr
  | Poll_cq ptr int
  | Create_srq ptr ibv_srq_init_attr
  | Destroy_srq ptr
  | Create_qp ptr ibv_qp_init_attr
  | Modify_qp ptr ibv_qp_attr "ibv_qp_attr_mask set"
  | Destroy_qp ptr
  | Post_send ptr ibv_send_wr
  | Post_recv ptr ibv_recv_wr
  | Post_srq_recv ptr ibv_recv_wr

type_synonym history = "vcall list"

record verbs =
  v_rc :: "history \<Rightarrow> vcall \<Rightarrow> int"
  v_ptr :: "history \<Rightarrow> vcall \<Rightarrow> ptr"
  v_errno :: "history \<Rightarrow> int"
  v_devices :: "history \<Rightarrow> ptr list"
  v_nr_devices :: "history \<Rightarrow> int"
  v_device_name :: "ptr \<Rightarrow> string"
  v_port_attr :: "history \<Rightarrow> ibv_port_attr"
  v_atomic_cap :: "history \<Rightarrow> bool"
  v_gid :: "history \<Rightarrow> gid"
  v_keys :: "history \<Rightarrow> u32 \<times> u32"
  v_qp_num :: "ptr \<Rightarrow> u32"
  v_polled :: "history \<Rightarrow> vcall \<Rightarrow> ibv_wc list"
  v_strerror :: "int \<Rightarrow> string"
  v_wc_code :: "ibv_wc_status \<Rightarrow> int"
  v_wc_with_imm :: u32

record world =
  calls :: history
  next_sq_psn :: u32

definition record_call :: "vcall \<Rightarrow> world \<Rightarrow> world" where
  "record_call c w = w\<lparr>calls := calls w @ [c]\<rparr>"

text \<open>A call that returns an \<open>int\<close>, one that returns a pointer, one that returns nothing.\<close>

definition call_rc :: "verbs \<Rightarrow> vcall \<Rightarrow> (world, int) se" where
  "call_rc V c w = (Inr (v_rc V (calls w) c), record_call c w)"

definition call_ptr :: "verbs \<Rightarrow> vcall \<Rightarrow> (world, ptr) se" where
  "call_ptr V c w = (Inr (v_ptr V (calls w) c), record_call c w)"

definition call_void :: "vcall \<Rightarrow> (world, unit) se" where
  "call_void c w = (Inr (), record_call c w)"

lemma calls_record [simp]: "calls (record_call c w) = calls w @ [c]"
  by (simp add: record_call_def)

lemma psn_record [simp]: "next_sq_psn (record_call c w) = next_sq_psn w"
  by (simp add: record_call_def)

lemma call_rc_apply [se_simps]: "call_rc V c w = (Inr (v_rc V (calls w) c), record_call c w)"
  by (simp add: call_rc_def)

lemma call_ptr_apply [se_simps]: "call_ptr V c w = (Inr (v_ptr V (calls w) c), record_call c w)"
  by (simp add: call_ptr_def)

lemma call_void_apply [se_simps]: "call_void c w = (Inr (), record_call c w)"
  by (simp add: call_void_def)

end
