(* ===== verification/Errors.thy ===== *)
theory Errors
  imports Verbs
begin

text \<open>
  \<^verbatim>\<open>include/rdmapp/error.h\<close>: how return codes, null pointers and completion
  statuses become exceptions, with the text of the exception.
\<close>

section \<open>The checks\<close>

definition kErrorStringBufferSize :: nat where
  "kErrorStringBufferSize = 1024"

text \<open>The formatting overload of \<open>throw_with\<close>, after its arguments are expanded.\<close>

definition throw_with :: "string \<Rightarrow> ('s, 'a) se" where
  "throw_with message = throwS (Runtime_error (snprintf_cut kErrorStringBufferSize message))"

text \<open>\<open>"%s: %s (rc=%d)"\<close> and its two variants.\<close>

definition format_error :: "string \<Rightarrow> string \<Rightarrow> string \<Rightarrow> int \<Rightarrow> string" where
  "format_error message reason label code =
     message @ '': '' @ reason @ '' ('' @ label @ ''='' @ dec_int code @ '')''"

definition check_rc :: "verbs \<Rightarrow> int \<Rightarrow> string \<Rightarrow> ('s, unit) se" where
  "check_rc V rc message =
     (if rc \<noteq> 0 then throw_with (format_error message (v_strerror V rc) ''rc'' rc)
      else returnS ())"

fun wc_status_name :: "ibv_wc_status \<Rightarrow> string" where
  "wc_status_name IBV_WC_SUCCESS = ''IBV_WC_SUCCESS''"
| "wc_status_name IBV_WC_LOC_LEN_ERR = ''IBV_WC_LOC_LEN_ERR''"
| "wc_status_name IBV_WC_LOC_QP_OP_ERR = ''IBV_WC_LOC_QP_OP_ERR''"
| "wc_status_name IBV_WC_LOC_EEC_OP_ERR = ''IBV_WC_LOC_EEC_OP_ERR''"
| "wc_status_name IBV_WC_LOC_PROT_ERR = ''IBV_WC_LOC_PROT_ERR''"
| "wc_status_name IBV_WC_WR_FLUSH_ERR = ''IBV_WC_WR_FLUSH_ERR''"
| "wc_status_name IBV_WC_MW_BIND_ERR = ''IBV_WC_MW_BIND_ERR''"
| "wc_status_name IBV_WC_BAD_RESP_ERR = ''IBV_WC_BAD_RESP_ERR''"
| "wc_status_name IBV_WC_LOC_ACCESS_ERR = ''IBV_WC_LOC_ACCESS_ERR''"
| "wc_status_name IBV_WC_REM_INV_REQ_ERR = ''IBV_WC_REM_INV_REQ_ERR''"
| "wc_status_name IBV_WC_REM_ACCESS_ERR = ''IBV_WC_REM_ACCESS_ERR''"
| "wc_status_name IBV_WC_REM_OP_ERR = ''IBV_WC_REM_OP_ERR''"
| "wc_status_name IBV_WC_RETRY_EXC_ERR = ''IBV_WC_RETRY_EXC_ERR''"
| "wc_status_name IBV_WC_RNR_RETRY_EXC_ERR = ''IBV_WC_RNR_RETRY_EXC_ERR''"
| "wc_status_name IBV_WC_LOC_RDD_VIOL_ERR = ''IBV_WC_LOC_RDD_VIOL_ERR''"
| "wc_status_name IBV_WC_REM_INV_RD_REQ_ERR = ''IBV_WC_REM_INV_RD_REQ_ERR''"
| "wc_status_name IBV_WC_REM_ABORT_ERR = ''IBV_WC_REM_ABORT_ERR''"
| "wc_status_name IBV_WC_INV_EECN_ERR = ''IBV_WC_INV_EECN_ERR''"
| "wc_status_name IBV_WC_INV_EEC_STATE_ERR = ''IBV_WC_INV_EEC_STATE_ERR''"
| "wc_status_name IBV_WC_FATAL_ERR = ''IBV_WC_FATAL_ERR''"
| "wc_status_name IBV_WC_RESP_TIMEOUT_ERR = ''IBV_WC_RESP_TIMEOUT_ERR''"
| "wc_status_name IBV_WC_GENERAL_ERR = ''IBV_WC_GENERAL_ERR''"
| "wc_status_name IBV_WC_TM_ERR = ''IBV_WC_TM_ERR''"
| "wc_status_name IBV_WC_TM_RNDV_INCOMPLETE = ''IBV_WC_TM_RNDV_INCOMPLETE''"
| "wc_status_name (IBV_WC_UNNAMED _) = ''UNKNOWN_ERROR''"

definition check_wc_status :: "verbs \<Rightarrow> ibv_wc_status \<Rightarrow> string \<Rightarrow> ('s, unit) se" where
  "check_wc_status V status message =
     (if status \<noteq> IBV_WC_SUCCESS
      then throw_with (format_error message (wc_status_name status) ''status'' (v_wc_code V status))
      else returnS ())"

text \<open>\<open>check_ptr\<close> and \<open>check_errno\<close> read \<open>errno\<close>, which the calls made so far determine.\<close>

definition check_ptr :: "verbs \<Rightarrow> ptr \<Rightarrow> string \<Rightarrow> (world, unit) se" where
  "check_ptr V p message w =
     (if p = nullptr
      then (let errno = v_errno V (calls w) in
            throw_with (format_error message (v_strerror V errno) ''errno'' errno) w)
      else (Inr (), w))"

definition check_errno :: "verbs \<Rightarrow> int \<Rightarrow> string \<Rightarrow> (world, unit) se" where
  "check_errno V rc message w =
     (if rc < 0
      then (let errno = v_errno V (calls w) in
            throw_with (format_error message (v_strerror V errno) ''errno'' errno) w)
      else (Inr (), w))"

section \<open>Evaluation\<close>

text \<open>Every check leaves the state alone, and what it throws is a \<open>std::runtime_error\<close>.\<close>

definition failure :: "string \<Rightarrow> exn" where
  "failure message = Runtime_error (snprintf_cut kErrorStringBufferSize message)"

lemma failure_runtime [simp]: "runtime_error (failure m)"
  by (simp add: failure_def)

lemma throw_with_apply [se_simps]: "throw_with m s = (Inl (failure m), s)"
  by (simp add: throw_with_def failure_def throwS_def)

lemma check_rc_apply [se_simps]:
  "check_rc V rc m s =
     (if rc = 0 then (Inr (), s) else (Inl (failure (format_error m (v_strerror V rc) ''rc'' rc)), s))"
  by (simp add: check_rc_def se_simps)

lemma check_wc_status_apply [se_simps]:
  "check_wc_status V st m s =
     (if st = IBV_WC_SUCCESS then (Inr (), s)
      else (Inl (failure (format_error m (wc_status_name st) ''status'' (v_wc_code V st))), s))"
  by (simp add: check_wc_status_def se_simps)

lemma check_ptr_apply [se_simps]:
  "check_ptr V p m w =
     (if p \<noteq> nullptr then (Inr (), w)
      else (Inl (failure (format_error m (v_strerror V (v_errno V (calls w))) ''errno''
                    (v_errno V (calls w)))), w))"
  by (simp add: check_ptr_def se_simps Let_def)

section \<open>Properties\<close>

lemma wc_status_name_inject:
  "wc_status_name a = wc_status_name b \<Longrightarrow>
     a = b \<or> (\<exists>m n. a = IBV_WC_UNNAMED m \<and> b = IBV_WC_UNNAMED n)"
  by (cases a; cases b) simp_all

lemma failure_length: "failure m = Runtime_error t \<Longrightarrow> length t < 1024"
  by (auto simp: failure_def kErrorStringBufferSize_def intro: snprintf_cut_length)

lemma wc_status_name_short: "length (wc_status_name st) < 28"
  by (cases st) simp_all

lemma take_status_text:
  assumes "length m + 30 \<le> n" and "take n (m @ '': '' @ wc_status_name a @ '' ('' @ xs) =
      take n (m @ '': '' @ wc_status_name b @ '' ('' @ ys)"
  shows "wc_status_name a = wc_status_name b"
proof -
  have no_space: "CHR '' '' \<notin> set (wc_status_name st)" for st by (cases st) simp_all
  have cut: "takeWhile (\<lambda>c. c \<noteq> CHR '' '') (drop (length m + 2) (take n (m @ '': '' @ wc_status_name st @ '' ('' @ zs)))
      = wc_status_name st" for st zs
  proof -
    define k where "k = n - (length m + 2 + length (wc_status_name st) + 1)"
    have "n = length m + 2 + length (wc_status_name st) + 1 + k"
      using assms(1) wc_status_name_short [of st] by (simp add: k_def)
    then show ?thesis
      using no_space [of st] by (auto simp: takeWhile_append takeWhile_eq_all_conv eval_nat_numeral)
  qed
  show ?thesis using cut [of a xs] cut [of b ys] assms(2) by simp
qed

text \<open>
  A completion passes \<open>check_wc_status\<close> exactly when its status is
  \<open>IBV_WC_SUCCESS\<close>, and never changes anything; otherwise it throws a runtime error whose text fits the
  1024-byte buffer. The text tells what happened: for a message of at most 990 characters
  (the code's are far shorter), two failed completions that give the same text have the
  same status, or both have a status the switch does not name.
\<close>

theorem check_wc_status_total:
  "(fst (check_wc_status V st m s) = Inr () \<longleftrightarrow> st = IBV_WC_SUCCESS) \<and>
   snd (check_wc_status V st m s) = s \<and>
   (st \<noteq> IBV_WC_SUCCESS \<longrightarrow>
      (\<exists>t. fst (check_wc_status V st m s) = Inl (Runtime_error t) \<and> length t < 1024)) \<and>
   (length m \<le> 990 \<and> st \<noteq> IBV_WC_SUCCESS \<and>
    fst (check_wc_status V st m s) = fst (check_wc_status V st' m s) \<longrightarrow>
      st = st' \<or> (\<exists>i j. st = IBV_WC_UNNAMED i \<and> st' = IBV_WC_UNNAMED j))"
proof -
  have "st = st' \<or> (\<exists>i j. st = IBV_WC_UNNAMED i \<and> st' = IBV_WC_UNNAMED j)"
    if "length m \<le> 990" "st \<noteq> IBV_WC_SUCCESS"
      "fst (check_wc_status V st m s) = fst (check_wc_status V st' m s)"
  proof -
    have ne: "st' \<noteq> IBV_WC_SUCCESS" using that(2,3) by (auto simp: se_simps split: if_splits)
    have "take 1023 (m @ '': '' @ wc_status_name st @ '' ('' @ (''status='' @ dec_int (v_wc_code V st) @ '')'')) =
        take 1023 (m @ '': '' @ wc_status_name st' @ '' ('' @ (''status='' @ dec_int (v_wc_code V st') @ '')''))"
      using that ne by (simp add: se_simps failure_def snprintf_cut_def kErrorStringBufferSize_def format_error_def)
    then have "wc_status_name st = wc_status_name st'"
      using that(1) by (rule_tac take_status_text [of m 1023]) simp_all
    then show ?thesis by (rule wc_status_name_inject)
  qed
  then show ?thesis
    by (auto simp: se_simps failure_def kErrorStringBufferSize_def intro: snprintf_cut_length)
qed

theorem check_wc_status_total_witness:
  "\<forall>V. (\<exists>t. fst (check_wc_status V IBV_WC_WR_FLUSH_ERR ''failed to send'' ()) = Inl (Runtime_error t) \<and>
          length t < 1024) \<and>
       fst (check_wc_status V IBV_WC_WR_FLUSH_ERR ''failed to send'' ()) \<noteq>
       fst (check_wc_status V IBV_WC_GENERAL_ERR ''failed to send'' ())"
proof
  fix V
  show "(\<exists>t. fst (check_wc_status V IBV_WC_WR_FLUSH_ERR ''failed to send'' ()) = Inl (Runtime_error t) \<and>
          length t < 1024) \<and>
       fst (check_wc_status V IBV_WC_WR_FLUSH_ERR ''failed to send'' ()) \<noteq>
       fst (check_wc_status V IBV_WC_GENERAL_ERR ''failed to send'' ())"
    using check_wc_status_total [of V IBV_WC_WR_FLUSH_ERR "''failed to send''" "()" IBV_WC_GENERAL_ERR]
    by auto
qed

end
