(* ===== verification/Mr.thy ===== *)
theory Mr
  imports Errors
begin

text \<open>
  \<^verbatim>\<open>include/rdmapp/mr.h\<close>, \<^verbatim>\<open>src/mr.cc\<close>: local memory regions, the description of a
  remote region that travels between peers, and views into either. The lifetime
  of a local region (moves, destruction) is in the theory on ownership.
\<close>

section \<open>Local memory regions\<close>

text \<open>
  \<open>mr_\<close> is null in an object that was moved from; \<open>pd_\<close> is the protection domain the
  shared pointer holds. Reading through a null \<open>mr_\<close> is undefined behaviour.
\<close>

record local_mr =
  lmr_mr :: "ibv_mr option"
  lmr_pd :: ptr

definition local_mr_ctor :: "ptr \<Rightarrow> ibv_mr \<Rightarrow> local_mr" where
  "local_mr_ctor pd mr = \<lparr>lmr_mr = Some mr, lmr_pd = pd\<rparr>"

definition local_mr_deref :: "local_mr \<Rightarrow> exn + ibv_mr" where
  "local_mr_deref m = (case lmr_mr m of
     None \<Rightarrow> Inl (Undefined_behaviour ''null ibv_mr'') | Some mr \<Rightarrow> Inr mr)"

definition local_mr_addr :: "local_mr \<Rightarrow> exn + ptr" where
  "local_mr_addr m = map_sum id mr_addr (local_mr_deref m)"

definition local_mr_length :: "local_mr \<Rightarrow> exn + size_t" where
  "local_mr_length m = map_sum id mr_length (local_mr_deref m)"

definition local_mr_rkey :: "local_mr \<Rightarrow> exn + u32" where
  "local_mr_rkey m = map_sum id mr_rkey (local_mr_deref m)"

definition local_mr_lkey :: "local_mr \<Rightarrow> exn + u32" where
  "local_mr_lkey m = map_sum id mr_lkey (local_mr_deref m)"

definition local_mr_serialize :: "endian \<Rightarrow> local_mr \<Rightarrow> exn + bytes" where
  "local_mr_serialize e m = map_sum id
     (\<lambda>mr. serialize e (mr_addr mr) @ serialize e (mr_length mr) @ serialize e (mr_rkey mr))
     (local_mr_deref m)"

definition local_mr_span :: "local_mr \<Rightarrow> exn + (ptr \<times> size_t)" where
  "local_mr_span m = map_sum id (\<lambda>mr. (mr_addr mr, mr_length mr)) (local_mr_deref m)"

section \<open>Remote memory regions\<close>

record remote_mr =
  rmr_addr :: ptr
  rmr_length :: size_t
  rmr_rkey :: u32

definition remote_mr_kSerializedSize :: nat where
  "remote_mr_kSerializedSize = size_of (0 :: ptr) + size_of (0 :: size_t) + size_of (0 :: u32)"

definition remote_mr_ctor :: "ptr \<Rightarrow> u32 \<Rightarrow> u32 \<Rightarrow> remote_mr" where
  "remote_mr_ctor addr len rkey = \<lparr>rmr_addr = addr, rmr_length = ucast len, rmr_rkey = rkey\<rparr>"

text \<open>\<open>length()\<close> returns the stored \<open>size_t\<close> as a \<open>uint32_t\<close>.\<close>

definition remote_mr_length :: "remote_mr \<Rightarrow> u32" where
  "remote_mr_length r = ucast (rmr_length r)"

definition remote_mr_span :: "remote_mr \<Rightarrow> ptr \<times> size_t" where
  "remote_mr_span r = (rmr_addr r, rmr_length r)"

definition remote_mr_read :: "endian \<Rightarrow> bytes \<Rightarrow> (remote_mr \<times> bytes) option" where
  "remote_mr_read e it =
     Option.bind (deserialize_ptr e it) (\<lambda>(addr, it).
     Option.bind (deserialize e it) (\<lambda>(len, it).
     Option.bind (deserialize e it) (\<lambda>(rkey, it).
       Some (\<lparr>rmr_addr = addr, rmr_length = len, rmr_rkey = rkey\<rparr>, it))))"

text \<open>The static member takes the iterator by value, so its final position is lost.\<close>

definition remote_mr_deserialize :: "endian \<Rightarrow> bytes \<Rightarrow> remote_mr option" where
  "remote_mr_deserialize e it = map_option fst (remote_mr_read e it)"

section \<open>Views\<close>

text \<open>
  The two keys of the class share one anonymous union of two \<open>uint32_t\<close> members; each
  constructor writes one of them and either name reads the same four bytes.
\<close>

record mr_view =
  view_addr :: ptr
  view_length :: size_t
  view_key :: u32

definition mr_view_ctor :: "ptr \<Rightarrow> size_t \<Rightarrow> u32 \<Rightarrow> mr_view" where
  "mr_view_ctor addr len key = \<lparr>view_addr = addr, view_length = len, view_key = key\<rparr>"

definition mr_view_empty :: mr_view where
  "mr_view_empty = mr_view_ctor nullptr 0 0"

text \<open>\<open>std::size_t(-1)\<close>, the default length of a view.\<close>

definition whole_length :: size_t where
  "whole_length = - 1"

definition mr_view_local :: "local_mr \<Rightarrow> size_t \<Rightarrow> size_t \<Rightarrow> exn + mr_view" where
  "mr_view_local l offset len = map_sum id
     (\<lambda>mr. \<lparr>view_addr = mr_addr mr + offset,
             view_length = min len (mr_length mr - offset),
             view_key = mr_lkey mr\<rparr>)
     (local_mr_deref l)"

definition mr_view_remote :: "remote_mr \<Rightarrow> size_t \<Rightarrow> size_t \<Rightarrow> mr_view" where
  "mr_view_remote r offset len =
     \<lparr>view_addr = rmr_addr r + offset,
      view_length = min len (ucast (remote_mr_length r) - offset),
      view_key = rmr_rkey r\<rparr>"

definition mr_view_shared :: "local_mr option \<Rightarrow> exn + mr_view" where
  "mr_view_shared p = (case p of
     None \<Rightarrow> Inr mr_view_empty | Some l \<Rightarrow> mr_view_local l 0 whole_length)"

definition mr_view_lkey :: "mr_view \<Rightarrow> u32" where
  "mr_view_lkey v = view_key v"

definition mr_view_rkey :: "mr_view \<Rightarrow> u32" where
  "mr_view_rkey v = view_key v"

definition mr_view_bool :: "mr_view \<Rightarrow> bool" where
  "mr_view_bool v = (view_addr v \<noteq> nullptr)"

definition mr_view_span :: "mr_view \<Rightarrow> ptr \<times> size_t" where
  "mr_view_span v = (view_addr v, view_length v)"

section \<open>Byte ranges\<close>

text \<open>The addresses a span covers, as numbers: no span of a real object wraps around.\<close>

definition footprint :: "ptr \<times> size_t \<Rightarrow> nat set" where
  "footprint sp = {unat (fst sp) ..< unat (fst sp) + unat (snd sp)}"

definition fits_memory :: "ptr \<times> size_t \<Rightarrow> bool" where
  "fits_memory sp = (unat (fst sp) + unat (snd sp) < 2 ^ 64)"

lemma unat_add_fits: "unat (a :: u64) + unat b < 2 ^ 64 \<Longrightarrow> unat (a + b) = unat a + unat b"
  by (simp add: unat_word_ariths)

lemma unat_sub_le: "(b :: u64) \<le> a \<Longrightarrow> unat (a - b) = unat a - unat b"
  by (simp add: unat_sub)

lemma deref_Some [simp]: "lmr_mr m = Some mr \<Longrightarrow> local_mr_deref m = Inr mr"
  by (simp add: local_mr_deref_def)

lemma remote_mr_read_eq:
  "remote_mr_read e2 (serialize e1 a @ serialize e1 n @ serialize e1 k @ rest) =
     Some (\<lparr>rmr_addr = a, rmr_length = n, rmr_rkey = k\<rparr>, rest)"
  by (simp add: remote_mr_read_def ptr_codec.dec_enc u64_codec.dec_enc u32_codec.dec_enc)

definition remote_mr_write :: "endian \<Rightarrow> remote_mr \<Rightarrow> bytes" where
  "remote_mr_write e r = serialize e (rmr_addr r) @ serialize e (rmr_length r) @ serialize e (rmr_rkey r)"

lemma remote_mr_read_short:
  assumes "length bs < 20"
  shows "remote_mr_read e bs = None"
  using assms
  by (auto simp: remote_mr_read_def deserialize_ptr_def deserialize_def Let_def
      split: option.splits if_splits)

interpretation remote_mr_codec: codec "remote_mr_write e1" "remote_mr_read e2" 20 for e1 e2
  by unfold_locales
    (auto simp: remote_mr_write_def remote_mr_read_eq remote_mr_read_short serialize_length)

section \<open>Properties\<close>

lemma whole_length_max [simp]: "min whole_length n = n"
  by (simp add: whole_length_def min.absorb2)

lemma narrow_u32: "unat (ucast (ucast (n :: u64) :: u32) :: u64) = unat n mod 2 ^ 32"
  by (simp add: unsigned_ucast_eq take_bit_eq_mod unat_mod)

text \<open>
  The description a peer reads is the region that was serialized: a live local
  region serializes to \<open>remote_mr::kSerializedSize\<close> (20) bytes, and deserializing them,
  on a host of any byte order, gives its address, its full 64-bit length and its rkey.
\<close>

theorem remote_mr_roundtrip:
  assumes "lmr_mr m = Some mr"
  shows "\<exists>bs. local_mr_serialize e1 m = Inr bs \<and> length bs = remote_mr_kSerializedSize \<and>
           remote_mr_kSerializedSize = 20 \<and>
           remote_mr_deserialize e2 (bs @ rest) =
             Some \<lparr>rmr_addr = mr_addr mr, rmr_length = mr_length mr, rmr_rkey = mr_rkey mr\<rparr> \<and>
           (\<forall>k < 20. remote_mr_deserialize e2 (take k bs) = None)"
proof -
  let ?r = "\<lparr>rmr_addr = mr_addr mr, rmr_length = mr_length mr, rmr_rkey = mr_rkey mr\<rparr>"
  have "local_mr_serialize e1 m = Inr (remote_mr_write e1 ?r)"
    using assms by (simp add: local_mr_serialize_def remote_mr_write_def)
  moreover have "remote_mr_deserialize e2 (remote_mr_write e1 ?r @ rest) = Some ?r"
    by (simp add: remote_mr_deserialize_def remote_mr_codec.dec_enc)
  moreover have "\<forall>k < 20. remote_mr_deserialize e2 (take k (remote_mr_write e1 ?r)) = None"
    by (simp add: remote_mr_deserialize_def remote_mr_codec.dec_truncated)
  ultimately show ?thesis
    by (simp add: remote_mr_codec.enc_width remote_mr_kSerializedSize_def)
qed

definition sample_mr :: ibv_mr where
  "sample_mr = \<lparr>mr_handle = 100, mr_addr = 4096, mr_length = 64, mr_lkey = 7, mr_rkey = 9\<rparr>"

theorem remote_mr_roundtrip_witness:
  "\<exists>bs. local_mr_serialize Little (local_mr_ctor 1 sample_mr) = Inr bs \<and> length bs = 20 \<and>
     remote_mr_deserialize Big (bs @ [1, 2]) =
       Some \<lparr>rmr_addr = 4096, rmr_length = 64, rmr_rkey = 9\<rparr>"
proof -
  have "lmr_mr (local_mr_ctor 1 sample_mr) = Some sample_mr" by (simp add: local_mr_ctor_def)
  from remote_mr_roundtrip [OF this, of Little Big "[1, 2]"] show ?thesis
    by (auto simp: sample_mr_def)
qed

text \<open>
  A view of a local region at an offset inside it stays inside it, and its length is
  what was asked for, cut at the region's end.
\<close>

theorem mr_view_local_in_bounds:
  assumes "lmr_mr l = Some mr" and "fits_memory (mr_addr mr, mr_length mr)"
    and "offset \<le> mr_length mr"
  shows "\<exists>v. mr_view_local l offset n = Inr v \<and>
           footprint (mr_view_span v) \<subseteq> footprint (mr_addr mr, mr_length mr) \<and>
           unat (view_length v) = min (unat n) (unat (mr_length mr) - unat offset) \<and>
           mr_view_lkey v = mr_lkey mr"
proof -
  let ?v = "\<lparr>view_addr = mr_addr mr + offset, view_length = min n (mr_length mr - offset),
             view_key = mr_lkey mr\<rparr>"
  have off: "unat offset \<le> unat (mr_length mr)"
    using assms(3) by (simp add: word_le_nat_alt)
  have addr: "unat (mr_addr mr + offset) = unat (mr_addr mr) + unat offset"
    using assms(2) off by (intro unat_add_fits) (simp add: fits_memory_def)
  have len: "unat (min n (mr_length mr - offset)) = min (unat n) (unat (mr_length mr) - unat offset)"
    using assms(3) by (simp add: min_def word_le_nat_alt unat_sub)
  have "mr_view_local l offset n = Inr ?v"
    using assms(1) by (simp add: mr_view_local_def)
  moreover have "footprint (mr_view_span ?v) \<subseteq> footprint (mr_addr mr, mr_length mr)"
    using off by (auto simp: footprint_def mr_view_span_def addr len)
  ultimately show ?thesis using len by (simp add: mr_view_lkey_def)
qed

theorem mr_view_local_in_bounds_witness:
  "\<exists>v. mr_view_local (local_mr_ctor 1 sample_mr) 48 100 = Inr v \<and>
     footprint (mr_view_span v) \<subseteq> footprint (4096, 64) \<and> unat (view_length v) = 16"
proof -
  have "lmr_mr (local_mr_ctor 1 sample_mr) = Some sample_mr"
    and "fits_memory (mr_addr sample_mr, mr_length sample_mr)" and "48 \<le> mr_length sample_mr"
    by (simp_all add: local_mr_ctor_def sample_mr_def fits_memory_def)
  from mr_view_local_in_bounds [OF this, of 100] show ?thesis
    by (auto simp: sample_mr_def)
qed

text \<open>
  With an offset beyond the region's end the subtraction wraps around, so nothing
  cuts the requested length: the view is as long as asked for and shares no byte with
  the region it was made from.
\<close>

theorem mr_view_local_escapes:
  assumes "lmr_mr l = Some mr" and "mr_length mr < offset"
    and "unat (mr_addr mr) + unat offset + unat n < 2 ^ 64"
  shows "\<exists>v. mr_view_local l offset n = Inr v \<and> view_length v = n \<and>
           footprint (mr_view_span v) \<inter> footprint (mr_addr mr, mr_length mr) = {}"
proof -
  have off: "unat (mr_length mr) < unat offset"
    using assms(2) by (simp add: word_less_nat_alt)
  have addr: "unat (mr_addr mr + offset) = unat (mr_addr mr) + unat offset"
    using assms(3) by (intro unat_add_fits) simp
  have "unat (mr_length mr - offset) = 2 ^ 64 + unat (mr_length mr) - unat offset"
    using off by (simp add: unat_sub_if')
  then have "unat n \<le> unat (mr_length mr - offset)"
    using assms(3) by simp
  then have min: "min n (mr_length mr - offset) = n"
    by (simp add: min_def word_le_nat_alt)
  show ?thesis
    using assms(1) off by (auto simp: mr_view_local_def min footprint_def mr_view_span_def addr)
qed

theorem mr_view_local_escapes_witness:
  "\<exists>v. mr_view_local (local_mr_ctor 1 sample_mr) 65 1000 = Inr v \<and> view_length v = 1000 \<and>
     footprint (mr_view_span v) \<inter> footprint (4096, 64) = {}"
proof -
  have "lmr_mr (local_mr_ctor 1 sample_mr) = Some sample_mr" and "mr_length sample_mr < 65"
    and "unat (mr_addr sample_mr) + unat (65 :: u64) + unat (1000 :: u64) < 2 ^ 64"
    by (simp_all add: local_mr_ctor_def sample_mr_def)
  from mr_view_local_escapes [OF this] show ?thesis
    by (simp add: sample_mr_def)
qed

text \<open>
  \<open>remote_mr::length()\<close> drops the upper half of the 64-bit length it stores, so a view
  of a whole remote region covers the region only below 4 GiB; a region of exactly
  4 GiB gives the empty view.
\<close>

theorem remote_view_truncates:
  "unat (view_length (mr_view_remote r 0 whole_length)) = unat (rmr_length r) mod 2 ^ 32 \<and>
   (view_length (mr_view_remote r 0 whole_length) = rmr_length r \<longleftrightarrow> unat (rmr_length r) < 2 ^ 32)"
  by (auto simp: mr_view_remote_def remote_mr_length_def narrow_u32 word_unat_eq_iff)

end
