(* ===== verification/Device.thy ===== *)
theory Device
  imports Errors
begin

text \<open>
  \<^verbatim>\<open>include/rdmapp/device.h\<close>, \<^verbatim>\<open>src/device.cc\<close>: the list of devices, opening a
  device by handle, name or number, and the text form of a GID.
\<close>

section \<open>The device list\<close>

record device_list =
  dl_array :: ptr
  dl_devices :: "ptr list"
  dl_nr :: size_t

definition device_list_ctor :: "verbs \<Rightarrow> (world, device_list) se" where
  "device_list_ctor V =
     bindS getS (\<lambda>w.
     let nr_devices = v_nr_devices V (calls w); entries = v_devices V (calls w) in
     bindS (call_ptr V Get_device_list) (\<lambda>devices.
     if nr_devices = 0
     then thenS (call_void (Free_device_list devices))
            (throwS (Runtime_error ''no Infiniband devices found''))
     else thenS (check_ptr V devices ''failed to get Infiniband devices'')
            (returnS \<lparr>dl_array = devices, dl_devices = entries, dl_nr = word_of_int nr_devices\<rparr>)))"

definition device_list_dtor :: "device_list \<Rightarrow> (world, unit) se" where
  "device_list_dtor dl =
     (if dl_array dl \<noteq> nullptr then call_void (Free_device_list (dl_array dl)) else returnS ())"

definition device_list_size :: "device_list \<Rightarrow> size_t" where
  "device_list_size dl = dl_nr dl"

text \<open>\<open>devices_[i]\<close>: a read outside the array is undefined behaviour.\<close>

definition devices_index :: "ptr list \<Rightarrow> size_t \<Rightarrow> exn + ptr" where
  "devices_index devs i =
     (if unat i < length devs then Inr (devs ! unat i)
      else Inl (Undefined_behaviour ''devices_[i]''))"

definition device_list_at :: "device_list \<Rightarrow> size_t \<Rightarrow> exn + ptr" where
  "device_list_at dl i =
     (if i \<ge> dl_nr dl then Inl (Out_of_range ''out of range'') else devices_index (dl_devices dl) i)"

subsection \<open>Its iterator\<close>

record dl_iterator =
  it_i :: size_t
  it_devices :: "ptr list"

definition dl_begin :: "device_list \<Rightarrow> dl_iterator" where
  "dl_begin dl = \<lparr>it_i = 0, it_devices = dl_devices dl\<rparr>"

definition dl_end :: "device_list \<Rightarrow> dl_iterator" where
  "dl_end dl = \<lparr>it_i = dl_nr dl, it_devices = dl_devices dl\<rparr>"

definition it_deref :: "dl_iterator \<Rightarrow> exn + ptr" where
  "it_deref it = devices_index (it_devices it) (it_i it)"

definition it_eq :: "dl_iterator \<Rightarrow> dl_iterator \<Rightarrow> bool" where
  "it_eq a b = (it_i a = it_i b)"

definition it_ne :: "dl_iterator \<Rightarrow> dl_iterator \<Rightarrow> bool" where
  "it_ne a b = (it_i a \<noteq> it_i b)"

definition it_incr :: "dl_iterator \<Rightarrow> dl_iterator" where
  "it_incr it = it\<lparr>it_i := it_i it + 1\<rparr>"

section \<open>The device\<close>

record device =
  dev_device :: ptr
  dev_ctx :: ptr
  dev_port_attr :: ibv_port_attr
  dev_atomic :: bool
  dev_gid :: gid
  dev_gid_index :: int
  dev_port_num :: u16
  dev_list :: "device_list option"

text \<open>
  \<open>open_device\<close> works on the object under construction: what it wrote before it throws
  stays written, but the constructor that called it discards the object.
\<close>

definition open_device :: "verbs \<Rightarrow> ptr \<Rightarrow> u16 \<Rightarrow> device \<Rightarrow> (world, device) se" where
  "open_device V target port_num d =
     (let d = d\<lparr>dev_device := target, dev_port_num := port_num\<rparr> in
     bindS (call_ptr V (Open_device target)) (\<lambda>ctx.
     let d = d\<lparr>dev_ctx := ctx\<rparr> in
     thenS (check_ptr V ctx ''failed to open device'') (
     bindS getS (\<lambda>w.
     let d = d\<lparr>dev_port_attr := v_port_attr V (calls w)\<rparr> in
     bindS (call_rc V (Query_port ctx (ucast port_num))) (\<lambda>rc.
     thenS (check_rc V rc ''failed to query port'') (
     bindS getS (\<lambda>w.
     let d = d\<lparr>dev_atomic := v_atomic_cap V (calls w)\<rparr> in
     bindS (call_rc V (Query_device_ex ctx)) (\<lambda>rc.
     thenS (check_rc V rc ''failed to query extended attributes'') (
     bindS getS (\<lambda>w.
     let d = d\<lparr>dev_gid_index := 0, dev_gid := v_gid V (calls w)\<rparr> in
     bindS (call_rc V (Query_gid ctx (ucast port_num) 0)) (\<lambda>rc.
     thenS (check_rc V rc ''failed to query gid'') (
     returnS d))))))))))))"

text \<open>\<open>mem\<close> is the indeterminate content of the members a constructor does not initialise.\<close>

definition device_ctor_ptr :: "verbs \<Rightarrow> device \<Rightarrow> ptr \<Rightarrow> u16 \<Rightarrow> (world, device) se" where
  "device_ctor_ptr V mem target port_num =
     (if target = nullptr then throwS (Assert_failed ''target != nullptr'')
      else open_device V target port_num (mem\<lparr>dev_list := None\<rparr>))"

function find_named :: "verbs \<Rightarrow> device_list \<Rightarrow> string \<Rightarrow> dl_iterator \<Rightarrow> exn + ptr option" where
  "find_named V dl device_name it =
     (if it_ne it (dl_end dl)
      then (case it_deref it of
              Inl e \<Rightarrow> Inl e
            | Inr target \<Rightarrow> (if v_device_name V target = device_name then Inr (Some target)
                             else find_named V dl device_name (it_incr it)))
      else Inr None)"
  by pat_completeness auto
termination
proof (relation "measure (\<lambda>(V, dl, n, it). unat (dl_nr dl - it_i it))")
  fix V :: verbs and dl :: device_list and device_name :: string and it :: dl_iterator and target :: ptr
  assume "it_ne it (dl_end dl)"
  then have nz: "dl_nr dl - it_i it \<noteq> 0" by (simp add: it_ne_def dl_end_def)
  have "unat (dl_nr dl - it_i (it_incr it)) = unat (dl_nr dl - it_i it - 1)"
    by (simp add: it_incr_def diff_diff_eq)
  also have "\<dots> < unat (dl_nr dl - it_i it)"
    using nz by (simp add: unat_gt_0 unat_minus_one)
  finally show "((V, dl, device_name, it_incr it), (V, dl, device_name, it))
      \<in> measure (\<lambda>(V, dl, n, it). unat (dl_nr dl - it_i it))" by simp
qed simp

declare find_named.simps [simp del]

definition device_ctor_name :: "verbs \<Rightarrow> device \<Rightarrow> string \<Rightarrow> u16 \<Rightarrow> (world, device) se" where
  "device_ctor_name V mem device_name port_num =
     bindS (device_list_ctor V) (\<lambda>devices.
     finallyS
       (bindS (liftS (find_named V devices device_name (dl_begin devices))) (\<lambda>found.
        case found of
          Some target \<Rightarrow> open_device V target port_num
                           (mem\<lparr>dev_device := nullptr, dev_port_num := 0, dev_list := None\<rparr>)
        | None \<Rightarrow> throw_with (''no device named '' @ device_name @ '' found'')))
       (device_list_dtor devices))"

definition device_ctor_num :: "verbs \<Rightarrow> device \<Rightarrow> u16 \<Rightarrow> u16 \<Rightarrow> (world, device) se" where
  "device_ctor_num V mem device_num port_num =
     bindS (device_list_ctor V) (\<lambda>devices.
     unwindS
       (if ucast device_num \<ge> device_list_size devices
        then throwS (Invalid_argument (snprintf_cut kErrorStringBufferSize
               (''requested device number '' @ dec_nat (unat device_num) @ '' out of range, '' @
                dec_nat (unat (device_list_size devices)) @ '' devices available'')))
        else bindS (liftS (device_list_at devices (ucast device_num))) (\<lambda>target.
             open_device V target port_num
               (mem\<lparr>dev_device := nullptr, dev_port_num := 0, dev_list := Some devices\<rparr>)))
       (device_list_dtor devices))"

definition device_lid :: "device \<Rightarrow> u16" where
  "device_lid d = port_lid (dev_port_attr d)"

definition device_get_gid :: "device \<Rightarrow> gid" where
  "device_get_gid d = gid_of (gid_raw (dev_gid d))"

definition is_compare_and_swap_supported :: "device \<Rightarrow> bool" where
  "is_compare_and_swap_supported d = dev_atomic d"

definition is_fetch_and_add_supported :: "device \<Rightarrow> bool" where
  "is_fetch_and_add_supported d = dev_atomic d"

text \<open>The destructor's body, then the destruction of \<open>device_list_\<close>.\<close>

definition device_dtor :: "verbs \<Rightarrow> device \<Rightarrow> (world, unit) se" where
  "device_dtor V d =
     thenS
       (if dev_ctx d = nullptr then returnS ()
        else bindS (call_rc V (Close_device (dev_ctx d))) (\<lambda>rc. returnS ()))
       (case dev_list d of None \<Rightarrow> returnS () | Some dl \<Rightarrow> device_list_dtor dl)"

section \<open>The text of a GID\<close>

definition hex_digit :: "nat \<Rightarrow> char" where
  "hex_digit n = char_of (if n < 10 then 48 + n else 87 + n)"

text \<open>\<open>%02x\<close> on one byte.\<close>

definition hex2 :: "u8 \<Rightarrow> string" where
  "hex2 b = [hex_digit (unat b div 16), hex_digit (unat b mod 16)]"

definition gid_hex_string :: "gid \<Rightarrow> string" where
  "gid_hex_string g =
     foldl (\<lambda>gid_str i. gid_str @ (if i = 0 then hex2 (gid_raw g ! i) else '':'' @ hex2 (gid_raw g ! i)))
       '''' [0..<16]"

section \<open>Opening\<close>

text \<open>The calls of \<open>open_device\<close>: the context is opened first, and never closed again.\<close>

lemma open_device_calls:
  "\<exists>rest. calls (snd (open_device V target port d w)) = calls w @ Open_device target # rest \<and>
     (\<forall>c. Close_device c \<notin> set rest)"
  by (auto simp: open_device_def Let_def bindS_def thenS_def se_simps)

section \<open>Finding a device by name\<close>

lemma it_deref_in: "unat (it_i it) < length (it_devices it) \<Longrightarrow> it_deref it = Inr (it_devices it ! unat (it_i it))"
  by (simp add: it_deref_def devices_index_def)

lemma find_named_from:
  assumes "length (dl_devices dl) = unat (dl_nr dl)" and "it_devices it = dl_devices dl"
    and "it_i it \<le> dl_nr dl"
  shows "find_named V dl name it =
           Inr (List.find (\<lambda>t. v_device_name V t = name) (drop (unat (it_i it)) (dl_devices dl)))"
  using assms
proof (induction V dl name it rule: find_named.induct)
  case (1 V dl name it)
  show ?case
  proof (cases "it_i it = dl_nr dl")
    case True
    with 1 show ?thesis
      by (simp add: find_named.simps [of V dl name it] it_ne_def dl_end_def)
  next
    case False
    then have ne: "it_ne it (dl_end dl)" by (simp add: it_ne_def dl_end_def)
    have less: "it_i it < dl_nr dl" using False 1(4) by simp
    then have lt: "unat (it_i it) < length (dl_devices dl)"
      using 1(2) by (simp add: word_less_nat_alt)
    then have deref: "it_deref it = Inr (dl_devices dl ! unat (it_i it))"
      using 1(3) it_deref_in [of it] by simp
    have suc: "unat (it_i it + 1) = Suc (unat (it_i it))"
      using less by unat_arith
    have le: "it_i (it_incr it) \<le> dl_nr dl"
      using less by (simp add: it_incr_def inc_le)
    have split: "drop (unat (it_i it)) (dl_devices dl) =
        dl_devices dl ! unat (it_i it) # drop (Suc (unat (it_i it))) (dl_devices dl)"
      using lt by (simp add: Cons_nth_drop_Suc)
    show ?thesis
    proof (cases "v_device_name V (dl_devices dl ! unat (it_i it)) = name")
      case True
      with ne deref split show ?thesis
        by (simp add: find_named.simps [of V dl name it])
    next
      case False
      with 1(1) [OF ne deref] 1(2,3) le
      have "find_named V dl name (it_incr it) = Inr (List.find (\<lambda>t. v_device_name V t = name)
              (drop (unat (it_i (it_incr it))) (dl_devices dl)))"
        by (simp add: it_incr_def)
      with ne deref split False suc show ?thesis
        by (simp add: find_named.simps [of V dl name it] it_incr_def)
    qed
  qed
qed

section \<open>Properties\<close>

text \<open>
  Opening by name looks the devices up in list order and takes the first with the
  name: the loop over the hand-written iterators is \<open>List.find\<close>, it terminates, and it
  never dereferences an iterator outside the array.
\<close>

theorem find_named_first:
  assumes "length (dl_devices dl) = unat (dl_nr dl)"
  shows "find_named V dl name (dl_begin dl) =
           Inr (List.find (\<lambda>t. v_device_name V t = name) (dl_devices dl))"
  using find_named_from [OF assms, of "dl_begin dl"] by (simp add: dl_begin_def)

definition sample_list :: device_list where
  "sample_list = \<lparr>dl_array = 8, dl_devices = [10, 20, 30], dl_nr = 3\<rparr>"

definition quiet_verbs :: verbs where
  "quiet_verbs = \<lparr>v_rc = (\<lambda>h c. 0), v_ptr = (\<lambda>h c. 4096 + of_nat (length h)), v_errno = (\<lambda>h. 0),
     v_devices = (\<lambda>h. [10, 20, 30]), v_nr_devices = (\<lambda>h. 3),
     v_device_name = (\<lambda>p. if p = 10 then ''mlx5_0'' else ''mlx5_1''),
     v_port_attr = (\<lambda>h. \<lparr>port_lid = 5, port_link_layer = IBV_LINK_LAYER_INFINIBAND\<rparr>),
     v_atomic_cap = (\<lambda>h. True), v_gid = (\<lambda>h. gid_of []), v_keys = (\<lambda>h. (1, 2)),
     v_qp_num = (\<lambda>p. ucast p), v_polled = (\<lambda>h c. []), v_strerror = (\<lambda>e. ''error''),
     v_wc_code = (\<lambda>s. 1), v_wc_with_imm = 2\<rparr>"

theorem find_named_first_witness:
  "find_named quiet_verbs sample_list ''mlx5_1'' (dl_begin sample_list) = Inr (Some 20)"
proof -
  have "length (dl_devices sample_list) = unat (dl_nr sample_list)" by (simp add: sample_list_def)
  from find_named_first [OF this, of quiet_verbs "''mlx5_1''"] show ?thesis
    by (simp add: sample_list_def quiet_verbs_def)
qed

text \<open>
  Opening by number takes exactly the entry at that index; a number beyond the list
  throws \<open>std::invalid_argument\<close>, and then the list obtained from libibverbs is freed
  again, and nothing was opened.
\<close>

theorem device_ctor_num_index:
  assumes "v_ptr V (calls w) Get_device_list = arr" and "arr \<noteq> nullptr"
    and "v_nr_devices V (calls w) = int (length devs)" and "v_devices V (calls w) = devs"
    and "0 < length devs" and "length devs < 2 ^ 31"
  shows "(unat device_num < length devs \<longrightarrow>
            (\<exists>r w' rest. device_ctor_num V mem device_num port w = (r, w') \<and>
               calls w' = calls w @ Get_device_list # Open_device (devs ! unat device_num) # rest)) \<and>
         (length devs \<le> unat device_num \<longrightarrow>
            (\<exists>t w'. device_ctor_num V mem device_num port w = (Inl (Invalid_argument t), w') \<and>
               calls w' = calls w @ [Get_device_list, Free_device_list arr]))"
proof -
  let ?dl = "\<lparr>dl_array = arr, dl_devices = devs, dl_nr = word_of_int (int (length devs))\<rparr>"
  let ?w = "record_call Get_device_list w"
  have nr: "unat (dl_nr ?dl) = length devs"
    using assms(6) by (simp add: unsigned_of_nat take_bit_nat_eq_self_iff)
  have ctor: "device_list_ctor V w = (Inr ?dl, ?w)"
    using assms by (simp add: device_list_ctor_def se_defs call_ptr_def check_ptr_apply Let_def)
  have num: "unat (ucast device_num :: size_t) = unat device_num"
    by (simp add: unsigned_ucast_eq take_bit_nat_eq_self_iff less_trans [OF unsigned_less])
  have in_range: "\<not> dl_nr ?dl \<le> ucast device_num \<longleftrightarrow> unat device_num < length devs"
    by (simp only: word_le_nat_alt nr num not_le)
  have "\<exists>r w' rest. device_ctor_num V mem device_num port w = (r, w') \<and>
          calls w' = calls w @ Get_device_list # Open_device (devs ! unat device_num) # rest"
    if lt: "unat device_num < length devs"
  proof -
    let ?d = "mem\<lparr>dev_device := nullptr, dev_port_num := 0, dev_list := Some ?dl\<rparr>"
    let ?t = "devs ! unat device_num"
    obtain r w1 where run: "open_device V ?t port ?d ?w = (r, w1)" by (cases "open_device V ?t port ?d ?w")
    then obtain rest where rest: "calls w1 = calls w @ Get_device_list # Open_device ?t # rest"
      using open_device_calls [of V ?t port ?d ?w] by auto
    have at: "device_list_at ?dl (ucast device_num) = Inr ?t"
      using lt in_range by (simp add: device_list_at_def devices_index_def num)
    have "calls (snd (device_ctor_num V mem device_num port w)) =
            calls w @ Get_device_list # Open_device ?t # rest \<or>
          calls (snd (device_ctor_num V mem device_num port w)) =
            calls w @ Get_device_list # Open_device ?t # rest @ [Free_device_list arr]"
      using lt in_range run rest at assms(2)
      by (auto simp: device_ctor_num_def device_list_size_def ctor unwindS_def catchS_def
          throwS_def thenS_def bindS_def device_list_dtor_def call_void_def liftS_def
          split: sum.splits)
    then show ?thesis by (metis prod.collapse)
  qed
  moreover have "\<exists>t w'. device_ctor_num V mem device_num port w = (Inl (Invalid_argument t), w') \<and>
          calls w' = calls w @ [Get_device_list, Free_device_list arr]"
    if "length devs \<le> unat device_num"
    using that ctor in_range assms(2)
    by (simp add: device_ctor_num_def device_list_size_def ctor unwindS_def catchS_def
        throwS_def thenS_def bindS_def device_list_dtor_def call_void_def)
  ultimately show ?thesis by auto
qed

definition fresh_world :: world where
  "fresh_world = \<lparr>calls = [], next_sq_psn = 1\<rparr>"

definition blank_device :: device where
  "blank_device = \<lparr>dev_device = 0, dev_ctx = 0,
     dev_port_attr = \<lparr>port_lid = 0, port_link_layer = IBV_LINK_LAYER_UNSPECIFIED\<rparr>,
     dev_atomic = False, dev_gid = gid_of [], dev_gid_index = 0, dev_port_num = 0, dev_list = None\<rparr>"

theorem device_ctor_num_index_witness:
  "(\<exists>r w' rest. device_ctor_num quiet_verbs blank_device 1 1 fresh_world = (r, w') \<and>
      calls w' = Get_device_list # Open_device 20 # rest) \<and>
   (\<exists>t w'. device_ctor_num quiet_verbs blank_device 7 1 fresh_world = (Inl (Invalid_argument t), w') \<and>
      calls w' = [Get_device_list, Free_device_list 4096])"
proof -
  let ?devs = "[10, 20, 30] :: ptr list"
  have h: "v_ptr quiet_verbs (calls fresh_world) Get_device_list = 4096" "(4096 :: ptr) \<noteq> nullptr"
    "v_nr_devices quiet_verbs (calls fresh_world) = int (length ?devs)"
    "v_devices quiet_verbs (calls fresh_world) = ?devs" "0 < length ?devs" "length ?devs < 2 ^ 31"
    by (simp_all add: quiet_verbs_def fresh_world_def)
  from device_ctor_num_index [OF h, of 1 blank_device 1] device_ctor_num_index [OF h, of 7 blank_device 1]
  show ?thesis by (simp add: fresh_world_def)
qed

text \<open>
  A device constructor that fails after the context was opened (a query of the port,
  of the extended attributes or of the GID returns an error) leaves it open: the
  calls it made contain the opening and no \<open>ibv_close_device\<close>, and the
  constructor's object, whose destructor would close it, does not exist.
\<close>

theorem device_ctor_failure_leaks_context:
  assumes "device_ctor_ptr V mem target port w = (Inl e, w')"
    and "target \<noteq> nullptr" and "v_ptr V (calls w) (Open_device target) \<noteq> nullptr"
  shows "\<exists>rest. calls w' = calls w @ Open_device target # rest \<and> rest \<noteq> [] \<and>
           (\<forall>ctx. Close_device ctx \<notin> set rest)"
proof -
  have run: "open_device V target port (mem\<lparr>dev_list := None\<rparr>) w = (Inl e, w')"
    using assms(1,2) by (simp add: device_ctor_ptr_def)
  then obtain rest where rest: "calls w' = calls w @ Open_device target # rest"
    and "\<forall>c. Close_device c \<notin> set rest"
    using open_device_calls [of V target port "mem\<lparr>dev_list := None\<rparr>" w] by auto
  moreover have "length (calls w') \<noteq> length (calls w) + 1"
    using run assms(3)
    by (auto simp: open_device_def Let_def bindS_def thenS_def se_simps split: if_splits)
  ultimately show ?thesis by auto
qed

definition no_gid_verbs :: verbs where
  "no_gid_verbs = quiet_verbs\<lparr>v_rc := (\<lambda>h c. case c of Query_gid _ _ _ \<Rightarrow> 22 | _ \<Rightarrow> 0)\<rparr>"

theorem device_ctor_failure_leaks_context_witness:
  "\<exists>e w'. device_ctor_ptr no_gid_verbs blank_device 10 1 fresh_world = (Inl e, w') \<and>
     Open_device 10 \<in> set (calls w') \<and> (\<forall>ctx. Close_device ctx \<notin> set (calls w'))"
proof -
  have "\<exists>e w'. device_ctor_ptr no_gid_verbs blank_device 10 1 fresh_world = (Inl e, w')"
    by (simp add: device_ctor_ptr_def open_device_def Let_def bindS_def thenS_def se_simps
        no_gid_verbs_def quiet_verbs_def fresh_world_def record_call_def)
  then obtain e w' where run: "device_ctor_ptr no_gid_verbs blank_device 10 1 fresh_world = (Inl e, w')"
    by blast
  have "v_ptr no_gid_verbs (calls fresh_world) (Open_device 10) \<noteq> nullptr"
    by (simp add: no_gid_verbs_def quiet_verbs_def fresh_world_def)
  from device_ctor_failure_leaks_context [OF run _ this] run show ?thesis
    by (auto simp: fresh_world_def)
qed

subsection \<open>GIDs as text\<close>

text \<open>The reading of the text: two hexadecimal digits per byte, separated by colons.\<close>

fun colon_join :: "u8 list \<Rightarrow> string" where
  "colon_join [] = ''''"
| "colon_join [b] = hex2 b"
| "colon_join (b # c # bs) = hex2 b @ '':'' @ colon_join (c # bs)"

definition unhex :: "char \<Rightarrow> nat" where
  "unhex c = (let n = of_char c in if n < 58 then n - 48 else n - 87)"

fun parse_hex_bytes :: "string \<Rightarrow> bytes" where
  "parse_hex_bytes (a # b # _ # s) = word_of_nat (16 * unhex a + unhex b) # parse_hex_bytes s"
| "parse_hex_bytes [a, b] = [word_of_nat (16 * unhex a + unhex b)]"
| "parse_hex_bytes _ = []"

lemma unhex_digit: "n < 16 \<Longrightarrow> unhex (hex_digit n) = n"
  by (auto simp: unhex_def hex_digit_def Let_def)

lemma unhex_hex2:
  assumes "hex2 b = [h, l]"
  shows "word_of_nat (16 * unhex h + unhex l) = b"
proof -
  have "h = hex_digit (unat b div 16)" and "l = hex_digit (unat b mod 16)"
    using assms by (simp_all add: hex2_def)
  moreover have "unat b div 16 < 16" using unsigned_less [of b, where ?'a = nat] by simp
  ultimately have "16 * unhex h + unhex l = unat b" by (simp add: unhex_digit)
  then show ?thesis by simp
qed

lemma hex2_shape: "\<exists>h l. hex2 b = [h, l]"
  by (simp add: hex2_def)

lemma parse_colon_join: "parse_hex_bytes (colon_join bs) = bs"
proof (induction bs rule: colon_join.induct)
  case 1
  then show ?case by simp
next
  case (2 b)
  obtain h l where hl: "hex2 b = [h, l]" using hex2_shape by blast
  with unhex_hex2 [OF hl] show ?case by simp
next
  case (3 b c bs)
  obtain h l where hl: "hex2 b = [h, l]" using hex2_shape by blast
  with unhex_hex2 [OF hl] 3 show ?case by simp
qed

lemma colon_join_length: "length (colon_join bs) = 3 * length bs - 1"
  by (induction bs rule: colon_join.induct) (auto simp: hex2_def)

lemma colon_join_snoc:
  "colon_join (bs @ [b]) = colon_join bs @ (if bs = [] then hex2 b else '':'' @ hex2 b)"
  by (induction bs rule: colon_join.induct) auto

lemma foldl_colon_join:
  "foldl (\<lambda>s i. s @ (if i = 0 then hex2 (bs ! i) else '':'' @ hex2 (bs ! i))) '''' [0..<length bs] =
     colon_join bs"
proof (induction bs rule: rev_induct)
  case Nil
  then show ?case by simp
next
  case (snoc b bs)
  have "foldl (\<lambda>s i. s @ (if i = 0 then hex2 ((bs @ [b]) ! i) else '':'' @ hex2 ((bs @ [b]) ! i)))
          '''' [0..<length bs] =
        foldl (\<lambda>s i. s @ (if i = 0 then hex2 (bs ! i) else '':'' @ hex2 (bs ! i))) '''' [0..<length bs]"
    by (rule foldl_cong) (auto simp: nth_append)
  with snoc show ?case by (simp add: colon_join_snoc)
qed

lemma gid_hex_string_join: "gid_hex_string g = colon_join (gid_raw g)"
  using foldl_colon_join [of "gid_raw g"] by (simp add: gid_hex_string_def)

text \<open>
  The printed GID is 47 characters long and determines the GID: reading the digit
  pairs back gives the sixteen bytes, so different GIDs never print the same.
\<close>

theorem gid_hex_string_readable:
  "length (gid_hex_string g) = 47 \<and> parse_hex_bytes (gid_hex_string g) = gid_raw g \<and>
   (gid_hex_string g = gid_hex_string h \<longleftrightarrow> g = h)"
proof -
  have "gid_hex_string g = gid_hex_string h \<longleftrightarrow> gid_raw g = gid_raw h"
    by (metis gid_hex_string_join parse_colon_join)
  then show ?thesis
    by (simp add: gid_hex_string_join parse_colon_join colon_join_length gid_eq_iff)
qed

end
