(* ===== verification/Resources.thy ===== *)
theory Resources
  imports Mr Device
begin

text \<open>
  The classes that own one libibverbs object each: completion queues
  (\<^verbatim>\<open>cq.h\<close>, \<^verbatim>\<open>cq.cc\<close>), protection domains with memory registration (\<^verbatim>\<open>pd.h\<close>,
  \<^verbatim>\<open>pd.cc\<close>, and the destructor of \<open>local_mr\<close> in \<^verbatim>\<open>mr.cc\<close>) and shared receive queues
  (\<^verbatim>\<open>srq.h\<close>, \<^verbatim>\<open>srq.cc\<close>).
  A device does not change once it is open, so the shared pointers to it are values.
\<close>

section \<open>Completion queues\<close>

record cq =
  cq_device :: device
  cq_cq :: ptr

text \<open>\<open>nr_cqe\<close> is a \<open>size_t\<close>; the parameter of \<open>ibv_create_cq\<close> is an \<open>int\<close>.\<close>

definition int_of_size :: "size_t \<Rightarrow> int" where
  "int_of_size n = sint (ucast n :: u32)"

definition cq_ctor :: "verbs \<Rightarrow> device \<Rightarrow> size_t \<Rightarrow> (world, cq) se" where
  "cq_ctor V device nr_cqe =
     bindS (call_ptr V (Create_cq (dev_ctx device) (int_of_size nr_cqe))) (\<lambda>q.
     thenS (check_ptr V q ''failed to create cq'')
       (returnS \<lparr>cq_device = device, cq_cq = q\<rparr>))"

text \<open>\<open>ibv_poll_cq\<close> overwrites the first entries of the buffer it is given.\<close>

definition overwrite :: "'a list \<Rightarrow> 'a list \<Rightarrow> 'a list" where
  "overwrite new buffer = new @ drop (length new) buffer"

definition poll_call :: "verbs \<Rightarrow> cq \<Rightarrow> int \<Rightarrow> ibv_wc list \<Rightarrow> (world, int \<times> ibv_wc list) se" where
  "poll_call V q count buffer w =
     (let c = Poll_cq (cq_cq q) count in
      (Inr (v_rc V (calls w) c, overwrite (v_polled V (calls w) c) buffer), record_call c w))"

text \<open>The three ways to poll: one entry, an iterator and a count, a whole vector.\<close>

definition cq_poll :: "verbs \<Rightarrow> cq \<Rightarrow> ibv_wc \<Rightarrow> (world, bool \<times> ibv_wc) se" where
  "cq_poll V q wc =
     bindS (poll_call V q 1 [wc]) (\<lambda>(rc, buffer).
     if rc < 0 then thenS (check_rc V (- rc) ''failed to poll cq'') (returnS (False, wc))
     else if rc = 0 then returnS (False, wc)
     else returnS (True, hd buffer))"

definition cq_poll_it :: "verbs \<Rightarrow> cq \<Rightarrow> ibv_wc list \<Rightarrow> int \<Rightarrow> (world, size_t \<times> ibv_wc list) se" where
  "cq_poll_it V q buffer count =
     bindS (poll_call V q count buffer) (\<lambda>(rc, buffer).
     if rc < 0
     then throw_with (''failed to poll cq: '' @ v_strerror V rc @ '' (rc='' @ dec_int rc @ '')'')
     else returnS (word_of_int rc, buffer))"

text \<open>\<open>&wc_vec[0]\<close> of an empty vector is undefined behaviour.\<close>

definition cq_poll_vec :: "verbs \<Rightarrow> cq \<Rightarrow> ibv_wc list \<Rightarrow> (world, size_t \<times> ibv_wc list) se" where
  "cq_poll_vec V q wc_vec =
     (if wc_vec = [] then throwS (Undefined_behaviour ''wc_vec[0] of an empty vector'')
      else cq_poll_it V q wc_vec (int (length wc_vec)))"

definition cq_dtor :: "verbs \<Rightarrow> cq \<Rightarrow> (world, unit) se" where
  "cq_dtor V q =
     (if cq_cq q = nullptr then returnS ()
      else bindS (call_rc V (Destroy_cq (cq_cq q))) (\<lambda>rc. returnS ()))"

section \<open>Protection domains\<close>

record pd =
  pd_device :: device
  pd_pd :: ptr

definition pd_ctor :: "verbs \<Rightarrow> device \<Rightarrow> (world, pd) se" where
  "pd_ctor V device =
     bindS (call_ptr V (Alloc_pd (dev_ctx device))) (\<lambda>p.
     thenS (check_ptr V p ''failed to alloc pd'')
       (returnS \<lparr>pd_device = device, pd_pd = p\<rparr>))"

definition reg_mr_default_flags :: "ibv_access_flag set" where
  "reg_mr_default_flags =
     {IBV_ACCESS_LOCAL_WRITE, IBV_ACCESS_REMOTE_WRITE, IBV_ACCESS_REMOTE_READ, IBV_ACCESS_REMOTE_ATOMIC}"

definition reg_mr :: "verbs \<Rightarrow> pd \<Rightarrow> ptr \<Rightarrow> size_t \<Rightarrow> ibv_access_flag set \<Rightarrow> (world, local_mr) se" where
  "reg_mr V p buffer len flags =
     bindS getS (\<lambda>w.
     let (lkey, rkey) = v_keys V (calls w) in
     bindS (call_ptr V (Reg_mr (pd_pd p) buffer len flags)) (\<lambda>mr.
     thenS (check_ptr V mr ''failed to reg mr'')
       (returnS (local_mr_ctor (pd_pd p)
          \<lparr>mr_handle = mr, mr_addr = buffer, mr_length = len, mr_lkey = lkey, mr_rkey = rkey\<rparr>))))"

definition pd_dtor :: "verbs \<Rightarrow> pd \<Rightarrow> (world, unit) se" where
  "pd_dtor V p =
     (if pd_pd p = nullptr then returnS ()
      else bindS (call_rc V (Dealloc_pd (pd_pd p))) (\<lambda>rc. returnS ()))"

definition local_mr_dtor :: "verbs \<Rightarrow> local_mr \<Rightarrow> (world, unit) se" where
  "local_mr_dtor V m = (case lmr_mr m of
     None \<Rightarrow> returnS ()
   | Some mr \<Rightarrow> bindS (call_rc V (Dereg_mr (mr_handle mr))) (\<lambda>rc. returnS ()))"

section \<open>Shared receive queues\<close>

record srq =
  srq_srq :: ptr
  srq_pd :: pd

definition srq_ctor :: "verbs \<Rightarrow> pd \<Rightarrow> size_t \<Rightarrow> (world, srq) se" where
  "srq_ctor V p max_wr =
     bindS (call_ptr V (Create_srq (pd_pd p)
              \<lparr>srq_max_wr = ucast max_wr, srq_max_sge = 1, srq_limit = ucast max_wr\<rparr>)) (\<lambda>s.
     thenS (check_ptr V s ''failed to create srq'')
       (returnS \<lparr>srq_srq = s, srq_pd = p\<rparr>))"

definition srq_dtor :: "verbs \<Rightarrow> srq \<Rightarrow> (world, unit) se" where
  "srq_dtor V s =
     (if srq_srq s = nullptr then returnS ()
      else bindS (call_rc V (Destroy_srq (srq_srq s))) (\<lambda>rc. returnS ()))"

section \<open>Acquisition is initialization\<close>

text \<open>
  What the four owners have in common: the constructor makes one call and either
  throws or holds the handle it got; the destructor makes one call on that handle
  and never throws, whatever the call returns. \<open>extends\<close> says that a computation only adds calls.
\<close>

definition extends :: "(world, 'a) se \<Rightarrow> bool" where
  "extends m \<longleftrightarrow> (\<forall>w. \<exists>xs. calls (snd (m w)) = calls w @ xs)"

lemma extendsD: "extends m \<Longrightarrow> \<exists>xs. calls (snd (m w)) = calls w @ xs"
  by (simp add: extends_def)

text \<open>A scope: construct, run the body, destroy, whether the body throws or not.\<close>

definition scoped :: "(world, 'o) se \<Rightarrow> ('o \<Rightarrow> (world, unit) se) \<Rightarrow> ('o \<Rightarrow> (world, 'a) se) \<Rightarrow> (world, 'a) se" where
  "scoped ctor dtor body = bindS ctor (\<lambda>obj. finallyS (body obj) (dtor obj))"

locale owner =
  fixes V :: verbs
    and ctor :: "(world, 'o) se"
    and dtor :: "'o \<Rightarrow> (world, unit) se"
    and create :: vcall
    and destroy :: "ptr \<Rightarrow> vcall"
    and handle :: "'o \<Rightarrow> ptr"
  assumes ctor_fails: "v_ptr V (calls w) create = nullptr \<Longrightarrow>
      \<exists>t. ctor w = (Inl (Runtime_error t), record_call create w)"
    and ctor_owns: "v_ptr V (calls w) create \<noteq> nullptr \<Longrightarrow>
      \<exists>obj. ctor w = (Inr obj, record_call create w) \<and> handle obj = v_ptr V (calls w) create"
    and dtor_releases: "handle obj \<noteq> nullptr \<Longrightarrow>
      dtor obj w = (Inr (), record_call (destroy (handle obj)) w)"
begin

lemma scoped_run:
  assumes "v_ptr V (calls w) create = h" and "h \<noteq> nullptr"
    and "\<And>obj e w'. body obj (record_call create w) = (Inl e, w') \<Longrightarrow> cxx_exception e"
  shows "\<exists>obj. ctor w = (Inr obj, record_call create w) \<and> handle obj = h \<and>
     fst (scoped ctor dtor body w) = fst (body obj (record_call create w)) \<and>
     calls (snd (scoped ctor dtor body w)) = calls (snd (body obj (record_call create w))) @ [destroy h]"
proof -
  obtain obj where c: "ctor w = (Inr obj, record_call create w)" and hd: "handle obj = h"
    using ctor_owns [of w] assms(1,2) by auto
  obtain r w1 where run: "body obj (record_call create w) = (r, w1)" by fastforce
  have d: "dtor obj w1 = (Inr (), record_call (destroy h) w1)"
    using dtor_releases [of obj] hd assms(2) by simp
  have "cxx_exception e" if "r = Inl e" for e using assms(3) run that by blast
  with c hd run d show ?thesis by (cases r) (auto simp: scoped_def se_defs)
qed

lemma scoped_calls:
  assumes "\<And>obj. extends (body obj)"
    and "\<And>obj w e w'. body obj w = (Inl e, w') \<Longrightarrow> cxx_exception e"
    and "v_ptr V (calls w) create = h" and "h \<noteq> nullptr"
  shows "\<exists>xs. calls (snd (scoped ctor dtor body w)) = calls w @ create # xs @ [destroy h]"
proof -
  obtain obj where o: "calls (snd (scoped ctor dtor body w)) =
      calls (snd (body obj (record_call create w))) @ [destroy h]"
    using scoped_run [OF assms(3,4), of body] assms(2) by blast
  obtain xs where "calls (snd (body obj (record_call create w))) = calls w @ create # xs"
    using extendsD [OF assms(1) [of obj], of "record_call create w"] by auto
  with o show ?thesis by simp
qed

lemma create_failure_calls:
  assumes "v_ptr V (calls w) create = nullptr"
  shows "\<exists>t. scoped ctor dtor body w = (Inl (Runtime_error t), record_call create w)"
  using ctor_fails [OF assms] by (auto simp: scoped_def se_defs)

end

interpretation cq_owner: owner V "cq_ctor V device nr_cqe" "cq_dtor V"
    "Create_cq (dev_ctx device) (int_of_size nr_cqe)" Destroy_cq cq_cq
  for V device nr_cqe
  by unfold_locales (auto simp: cq_ctor_def cq_dtor_def bindS_def thenS_def se_simps failure_def)

interpretation pd_owner: owner V "pd_ctor V device" "pd_dtor V" "Alloc_pd (dev_ctx device)"
    Dealloc_pd pd_pd
  for V device
  by unfold_locales (auto simp: pd_ctor_def pd_dtor_def bindS_def thenS_def se_simps failure_def)

interpretation srq_owner: owner V "srq_ctor V p max_wr" "srq_dtor V"
    "Create_srq (pd_pd p) \<lparr>srq_max_wr = ucast max_wr, srq_max_sge = 1, srq_limit = ucast max_wr\<rparr>"
    Destroy_srq srq_srq
  for V p max_wr
  by unfold_locales (auto simp: srq_ctor_def srq_dtor_def bindS_def thenS_def se_simps failure_def)

definition local_mr_handle :: "local_mr \<Rightarrow> ptr" where
  "local_mr_handle m = (case lmr_mr m of None \<Rightarrow> nullptr | Some mr \<Rightarrow> mr_handle mr)"

interpretation mr_owner: owner V "reg_mr V p buffer len flags" "local_mr_dtor V"
    "Reg_mr (pd_pd p) buffer len flags" Dereg_mr local_mr_handle
  for V p buffer len flags
  by unfold_locales
    (auto simp: reg_mr_def local_mr_dtor_def local_mr_handle_def local_mr_ctor_def bindS_def
      thenS_def se_simps failure_def Let_def split: prod.splits option.splits)

section \<open>Properties\<close>

text \<open>
  Resources are released in the reverse of the order they were acquired, on every path
  out: code that allocates a protection domain, registers a region in it and then runs any
  body deregisters the region and deallocates the domain after the body's last call,
  whether the body returns or throws, and passes its result or exception on.
\<close>

theorem region_scope_unwinds:
  assumes "v_ptr V (calls w) (Alloc_pd (dev_ctx d)) = hp" and "hp \<noteq> nullptr"
    and "v_ptr V (calls w @ [Alloc_pd (dev_ctx d)]) (Reg_mr hp buffer len flags) = hm" and "hm \<noteq> nullptr"
    and "\<And>m. extends (body m)" and "\<And>m w e w'. body m w = (Inl e, w') \<Longrightarrow> cxx_exception e"
  shows "\<exists>m xs. local_mr_handle m = hm \<and>
     (let w1 = record_call (Reg_mr hp buffer len flags) (record_call (Alloc_pd (dev_ctx d)) w);
          run = scoped (pd_ctor V d) (pd_dtor V)
            (\<lambda>p. scoped (reg_mr V p buffer len flags) (local_mr_dtor V) body) w in
      fst run = fst (body m w1) \<and> calls (snd (body m w1)) = calls w1 @ xs \<and>
      calls (snd run) = calls w1 @ xs @ [Dereg_mr hm, Dealloc_pd hp])"
proof -
  let ?w0 = "record_call (Alloc_pd (dev_ctx d)) w"
  let ?p = "\<lparr>pd_device = d, pd_pd = hp\<rparr>"
  let ?in = "\<lambda>p. scoped (reg_mr V p buffer len flags) (local_mr_dtor V) body"
  have c: "pd_ctor V d w = (Inr ?p, ?w0)"
    using assms(1,2) by (simp add: pd_ctor_def bindS_def thenS_def se_simps)
  have reg: "v_ptr V (calls ?w0) (Reg_mr (pd_pd ?p) buffer len flags) = hm" using assms(3) by simp
  obtain m where m: "local_mr_handle m = hm"
      "fst (?in ?p ?w0) = fst (body m (record_call (Reg_mr hp buffer len flags) ?w0))"
      "calls (snd (?in ?p ?w0)) = calls (snd (body m (record_call (Reg_mr hp buffer len flags) ?w0))) @ [Dereg_mr hm]"
    using mr_owner.scoped_run [OF reg assms(4), of body] assms(6) by auto
  have ex: "cxx_exception e" if "?in ?p ?w0 = (Inl e, w')" for e w'
    using m(2) that assms(6) by (metis fst_conv surj_pair)
  have d: "pd_dtor V ?p w' = (Inr (), record_call (Dealloc_pd hp) w')" for w'
    using pd_owner.dtor_releases [of ?p V w'] assms(2) by simp
  obtain r w2 where run: "?in ?p ?w0 = (r, w2)" by fastforce
  have outer: "scoped (pd_ctor V d) (pd_dtor V) ?in w = (r, record_call (Dealloc_pd hp) w2)"
    using run ex by (cases r) (auto simp: scoped_def se_defs c d)
  obtain xs where xs: "calls (snd (body m (record_call (Reg_mr hp buffer len flags) ?w0))) =
      calls (record_call (Reg_mr hp buffer len flags) ?w0) @ xs"
    using extendsD [OF assms(5)] by blast
  show ?thesis
    using m run outer xs by (intro exI [of _ m] exI [of _ xs]) (simp add: Let_def)
qed

theorem region_scope_unwinds_witness:
  "let run = scoped (pd_ctor quiet_verbs blank_device) (pd_dtor quiet_verbs)
       (\<lambda>p. scoped (reg_mr quiet_verbs p 512 8 {}) (local_mr_dtor quiet_verbs)
          (\<lambda>m. throwS (Runtime_error ''in the body'') :: (world, unit) se)) fresh_world in
   fst run = Inl (Runtime_error ''in the body'') \<and>
   calls (snd run) = [Alloc_pd 0, Reg_mr 4096 512 8 {}, Dereg_mr 4097, Dealloc_pd 4096]"
proof -
  let ?body = "\<lambda>m :: local_mr. throwS (Runtime_error ''in the body'') :: (world, unit) se"
  have "v_ptr quiet_verbs (calls fresh_world) (Alloc_pd (dev_ctx blank_device)) = 4096"
    and "(4096 :: ptr) \<noteq> nullptr"
    and "v_ptr quiet_verbs (calls fresh_world @ [Alloc_pd (dev_ctx blank_device)]) (Reg_mr 4096 512 8 {}) = 4097"
    and "(4097 :: ptr) \<noteq> nullptr" and "\<And>m. extends (?body m)"
    and "\<And>m w e w'. ?body m w = (Inl e, w') \<Longrightarrow> cxx_exception e"
    by (auto simp: quiet_verbs_def fresh_world_def extends_def throwS_def)
  from region_scope_unwinds [OF this] show ?thesis
    by (auto simp: Let_def throwS_def fresh_world_def blank_device_def)
qed

text \<open>
  Polling a completion queue, on every answer of libibverbs. A negative result is a
  runtime error, for both ways to poll. A single poll tells whether an entry came, and only then
  changes it; a poll of a vector gives the number of entries that came. A vector without
  entries is read out of bounds before anything is called.
\<close>

theorem cq_poll_outcome:
  "let c1 = Poll_cq (cq_cq q) 1; rc1 = v_rc V (calls w) c1;
       c = Poll_cq (cq_cq q) (int (length buf)); rc = v_rc V (calls w) c in
   snd (cq_poll V q wc w) = record_call c1 w \<and>
   (if rc1 < 0 then \<exists>t. fst (cq_poll V q wc w) = Inl (Runtime_error t)
    else fst (cq_poll V q wc w) = Inr (rc1 \<noteq> 0,
           if rc1 = 0 then wc else hd (v_polled V (calls w) c1 @ drop (length (v_polled V (calls w) c1)) [wc]))) \<and>
   (if buf = [] then \<exists>t. cq_poll_vec V q buf w = (Inl (Undefined_behaviour t), w)
    else snd (cq_poll_vec V q buf w) = record_call c w \<and>
      (if rc < 0 then \<exists>t. fst (cq_poll_vec V q buf w) = Inl (Runtime_error t)
       else fst (cq_poll_vec V q buf w) = Inr (word_of_int rc,
              v_polled V (calls w) c @ drop (length (v_polled V (calls w) c)) buf)))"
  by (auto simp: cq_poll_def cq_poll_vec_def cq_poll_it_def poll_call_def overwrite_def se_defs se_simps
      failure_def Let_def)

end

