(* ===== verification/Qp.thy ===== *)
theory Qp
  imports Resources
begin

text \<open>
  The queue pair itself (\<open>basic_qp\<close> in \<^verbatim>\<open>include/rdmapp/qp.h\<close> and
  \<^verbatim>\<open>src/qp.cc\<close>): construction, the state transitions, destruction, posting raw work
  requests, and the data a peer needs to connect. The awaitable operations are in the
  theory of that name.
\<close>

section \<open>State\<close>

record qp_config =
  max_send_wr :: u32
  max_recv_wr :: u32

definition default_qp_config :: qp_config where
  "default_qp_config = \<lparr>max_send_wr = 256, max_recv_wr = 256\<rparr>"

text \<open>The values of the member function pointer \<open>post_recv_fn\<close>.\<close>

datatype post_recv_target = Recv_rq | Recv_srq

record qp =
  qp_qp :: ptr
  qp_raw_srq :: ptr
  qp_sq_psn :: u32
  qp_post_recv_fn :: post_recv_target
  qp_pd :: pd
  qp_recv_cq :: cq
  qp_send_cq :: cq
  qp_srq :: "srq option"
  qp_conf :: qp_config
  qp_user_data :: bytes

text \<open>A member function works on the object and the world.\<close>

type_synonym 'a qp_act = "(qp \<times> world, 'a) se"

definition thisQ :: "qp qp_act" where
  "thisQ s = (Inr (fst s), s)"

definition updateQ :: "(qp \<Rightarrow> qp) \<Rightarrow> unit qp_act" where
  "updateQ f s = (Inr (), (f (fst s), snd s))"

lemma thisQ_apply [se_simps]: "thisQ (q, w) = (Inr q, (q, w))"
  by (simp add: thisQ_def)

lemma updateQ_apply [se_simps]: "updateQ f (q, w) = (Inr (), (f q, w))"
  by (simp add: updateQ_def)

section \<open>Transitions and destruction\<close>

definition qp_err :: "verbs \<Rightarrow> unit qp_act" where
  "qp_err V = bindS thisQ (\<lambda>q.
     bindS (on_snd (call_rc V (Modify_qp (qp_qp q) (zero_qp_attr\<lparr>attr_qp_state := IBV_QPS_ERR\<rparr>)
              {IBV_QP_STATE}))) (\<lambda>rc. returnS ()))"

definition qp_destroy :: "verbs \<Rightarrow> unit qp_act" where
  "qp_destroy V = bindS thisQ (\<lambda>q.
     if qp_qp q = nullptr then returnS ()
     else thenS (qp_err V)
       (bindS (on_snd (call_rc V (Destroy_qp (qp_qp q)))) (\<lambda>rc. returnS ())))"

text \<open>The \<open>try\<close> block that \<open>init\<close>, \<open>rtr\<close> and \<open>rts\<close> share, with its handler.\<close>

definition modify_or_destroy :: "verbs \<Rightarrow> ibv_qp_attr \<Rightarrow> ibv_qp_attr_mask set \<Rightarrow> string \<Rightarrow> unit qp_act" where
  "modify_or_destroy V attr attr_mask message =
     catchS std_exception
       (bindS thisQ (\<lambda>q.
        bindS (on_snd (call_rc V (Modify_qp (qp_qp q) attr attr_mask))) (\<lambda>rc.
        check_rc V rc message)))
       (\<lambda>e. thenS (updateQ (\<lambda>q. q\<lparr>qp_qp := nullptr\<rparr>))
            (thenS (qp_destroy V) (throwS e)))"

definition qp_create :: "verbs \<Rightarrow> unit qp_act" where
  "qp_create V = bindS thisQ (\<lambda>q.
     let attr = \<lparr>init_qp_type = IBV_QPT_RC, init_recv_cq = cq_cq (qp_recv_cq q),
                 init_send_cq = cq_cq (qp_send_cq q),
                 init_srq = (case qp_srq q of None \<Rightarrow> nullptr | Some s \<Rightarrow> srq_srq s),
                 init_max_send_wr = max_send_wr (qp_conf q), init_max_recv_wr = max_recv_wr (qp_conf q),
                 init_max_send_sge = 1, init_max_recv_sge = 1, init_sq_sig_all = 0\<rparr> in
     thenS (case qp_srq q of
              Some s \<Rightarrow> updateQ (\<lambda>q. q\<lparr>qp_raw_srq := srq_srq s, qp_post_recv_fn := Recv_srq\<rparr>)
            | None \<Rightarrow> updateQ (\<lambda>q. q\<lparr>qp_post_recv_fn := Recv_rq\<rparr>))
     (bindS (on_snd (call_ptr V (Create_qp (pd_pd (qp_pd q)) attr))) (\<lambda>h.
     thenS (updateQ (\<lambda>q. q\<lparr>qp_qp := h\<rparr>))
     (thenS (on_snd (check_ptr V h ''failed to create qp''))
     (bindS (on_snd (\<lambda>w. (Inr (next_sq_psn w), w\<lparr>next_sq_psn := next_sq_psn w + 1\<rparr>))) (\<lambda>psn.
      updateQ (\<lambda>q. q\<lparr>qp_sq_psn := psn\<rparr>)))))))"

definition init_attr :: "qp \<Rightarrow> ibv_qp_attr" where
  "init_attr q = zero_qp_attr\<lparr>attr_qp_state := IBV_QPS_INIT, attr_pkey_index := 0,
     attr_port_num := ucast (dev_port_num (pd_device (qp_pd q))),
     attr_qp_access_flags := {IBV_ACCESS_REMOTE_WRITE, IBV_ACCESS_REMOTE_READ,
                              IBV_ACCESS_LOCAL_WRITE, IBV_ACCESS_REMOTE_ATOMIC}\<rparr>"

definition init_mask :: "ibv_qp_attr_mask set" where
  "init_mask = {IBV_QP_STATE, IBV_QP_PORT, IBV_QP_ACCESS_FLAGS, IBV_QP_PKEY_INDEX}"

definition qp_init :: "verbs \<Rightarrow> unit qp_act" where
  "qp_init V = bindS thisQ (\<lambda>q.
     modify_or_destroy V (init_attr q) init_mask ''failed to transition qp to init state'')"

definition rtr_attr :: "qp \<Rightarrow> u16 \<Rightarrow> u32 \<Rightarrow> u32 \<Rightarrow> gid \<Rightarrow> ibv_qp_attr" where
  "rtr_attr q remote_lid remote_qpn remote_psn remote_gid =
     zero_qp_attr\<lparr>attr_qp_state := IBV_QPS_RTR, attr_path_mtu := IBV_MTU_4096,
       attr_dest_qp_num := remote_qpn, attr_rq_psn := remote_psn,
       attr_max_dest_rd_atomic := 16, attr_min_rnr_timer := 12,
       attr_ah := \<lparr>ah_is_global = 1, ah_grh_dgid = remote_gid,
         ah_grh_sgid_index = word_of_int (dev_gid_index (pd_device (qp_pd q))),
         ah_grh_hop_limit = 16, ah_dlid = remote_lid, ah_sl = 0, ah_src_path_bits = 0,
         ah_port_num = ucast (dev_port_num (pd_device (qp_pd q)))\<rparr>\<rparr>"

definition rtr_mask :: "ibv_qp_attr_mask set" where
  "rtr_mask = {IBV_QP_STATE, IBV_QP_AV, IBV_QP_PATH_MTU, IBV_QP_DEST_QPN, IBV_QP_RQ_PSN,
               IBV_QP_MIN_RNR_TIMER, IBV_QP_MAX_DEST_RD_ATOMIC}"

definition qp_rtr :: "verbs \<Rightarrow> u16 \<Rightarrow> u32 \<Rightarrow> u32 \<Rightarrow> gid \<Rightarrow> unit qp_act" where
  "qp_rtr V remote_lid remote_qpn remote_psn remote_gid = bindS thisQ (\<lambda>q.
     modify_or_destroy V (rtr_attr q remote_lid remote_qpn remote_psn remote_gid) rtr_mask
       ''failed to transition qp to rtr state'')"

definition rts_attr :: "qp \<Rightarrow> ibv_qp_attr" where
  "rts_attr q = zero_qp_attr\<lparr>attr_qp_state := IBV_QPS_RTS, attr_timeout := 14, attr_retry_cnt := 7,
     attr_rnr_retry := 7, attr_max_rd_atomic := 16, attr_sq_psn := qp_sq_psn q\<rparr>"

definition rts_mask :: "ibv_qp_attr_mask set" where
  "rts_mask = {IBV_QP_STATE, IBV_QP_TIMEOUT, IBV_QP_RETRY_CNT, IBV_QP_RNR_RETRY, IBV_QP_SQ_PSN,
               IBV_QP_MAX_QP_RD_ATOMIC}"

definition qp_rts :: "verbs \<Rightarrow> unit qp_act" where
  "qp_rts V = bindS thisQ (\<lambda>q.
     modify_or_destroy V (rts_attr q) rts_mask ''failed to transition qp to rts state'')"

definition qp_dtor :: "verbs \<Rightarrow> qp \<Rightarrow> (world, unit) se" where
  "qp_dtor V q w = (case qp_destroy V (q, w) of (r, (q', w')) \<Rightarrow> (r, w'))"

section \<open>Constructors\<close>

text \<open>
  \<open>qp_ctor\<close> is the constructor that creates and initializes the queue pair; \<open>mem\<close> is the
  indeterminate content of the members without an initializer. When its body throws
  there is no object, so no destructor runs. The connecting constructor delegates to
  it: once that call has returned, the object exists, and an exception from \<open>rtr\<close> or
  \<open>rts\<close> does run the destructor.
\<close>

definition qp_members :: "qp \<Rightarrow> pd \<Rightarrow> cq \<Rightarrow> cq \<Rightarrow> srq option \<Rightarrow> qp_config \<Rightarrow> qp" where
  "qp_members mem p recv_cq send_cq s config =
     mem\<lparr>qp_qp := nullptr, qp_pd := p, qp_recv_cq := recv_cq, qp_send_cq := send_cq, qp_srq := s,
         qp_conf := config, qp_user_data := []\<rparr>"

definition qp_ctor :: "verbs \<Rightarrow> qp \<Rightarrow> pd \<Rightarrow> cq \<Rightarrow> cq \<Rightarrow> srq option \<Rightarrow> qp_config \<Rightarrow> (world, qp) se" where
  "qp_ctor V mem p recv_cq send_cq s config w =
     (case thenS (qp_create V) (qp_init V) (qp_members mem p recv_cq send_cq s config, w) of
        (Inl e, (q, w')) \<Rightarrow> (Inl e, w')
      | (Inr _, (q, w')) \<Rightarrow> (Inr q, w'))"

definition qp_ctor_one_cq :: "verbs \<Rightarrow> qp \<Rightarrow> pd \<Rightarrow> cq \<Rightarrow> srq option \<Rightarrow> qp_config \<Rightarrow> (world, qp) se" where
  "qp_ctor_one_cq V mem p q s config = qp_ctor V mem p q q s config"

definition qp_ctor_connected ::
  "verbs \<Rightarrow> qp \<Rightarrow> u16 \<Rightarrow> u32 \<Rightarrow> u32 \<Rightarrow> gid \<Rightarrow> pd \<Rightarrow> cq \<Rightarrow> cq \<Rightarrow> srq option \<Rightarrow> qp_config \<Rightarrow> (world, qp) se" where
  "qp_ctor_connected V mem remote_lid remote_qpn remote_psn remote_gid p recv_cq send_cq s config =
     bindS (qp_ctor V mem p recv_cq send_cq s config) (\<lambda>q w.
       case thenS (qp_rtr V remote_lid remote_qpn remote_psn remote_gid) (qp_rts V) (q, w) of
         (Inr _, (q', w')) \<Rightarrow> (Inr q', w')
       | (Inl e, (q', w')) \<Rightarrow> thenS (qp_dtor V q') (throwS e) w')"

definition qp_ctor_connected_one_cq ::
  "verbs \<Rightarrow> qp \<Rightarrow> u16 \<Rightarrow> u32 \<Rightarrow> u32 \<Rightarrow> gid \<Rightarrow> pd \<Rightarrow> cq \<Rightarrow> srq option \<Rightarrow> qp_config \<Rightarrow> (world, qp) se" where
  "qp_ctor_connected_one_cq V mem remote_lid remote_qpn remote_psn remote_gid p q s config =
     qp_ctor_connected V mem remote_lid remote_qpn remote_psn remote_gid p q q s config"

section \<open>Posting raw work requests\<close>

text \<open>
  \<open>post_send\<close> reads \<open>sg_list->addr\<close> for its trace line before it posts, also when the
  request has no scatter list.
\<close>

definition qp_post_send :: "verbs \<Rightarrow> qp \<Rightarrow> ibv_send_wr \<Rightarrow> (world, unit) se" where
  "qp_post_send V q send_wr =
     (if swr_sg_list send_wr = [] then throwS (Undefined_behaviour ''sg_list->addr'')
      else bindS (call_rc V (Post_send (qp_qp q) send_wr)) (\<lambda>rc.
           check_rc V rc ''failed to post send''))"

definition qp_post_recv_rq :: "verbs \<Rightarrow> qp \<Rightarrow> ibv_recv_wr \<Rightarrow> (world, unit) se" where
  "qp_post_recv_rq V q recv_wr =
     bindS (call_rc V (Post_recv (qp_qp q) recv_wr)) (\<lambda>rc. check_rc V rc ''failed to post recv'')"

definition qp_post_recv_srq :: "verbs \<Rightarrow> qp \<Rightarrow> ibv_recv_wr \<Rightarrow> (world, unit) se" where
  "qp_post_recv_srq V q recv_wr =
     bindS (call_rc V (Post_srq_recv (qp_raw_srq q) recv_wr)) (\<lambda>rc.
     check_rc V rc ''failed to post srq recv'')"

definition qp_post_recv :: "verbs \<Rightarrow> qp \<Rightarrow> ibv_recv_wr \<Rightarrow> (world, unit) se" where
  "qp_post_recv V q recv_wr = (case qp_post_recv_fn q of
     Recv_rq \<Rightarrow> qp_post_recv_rq V q recv_wr | Recv_srq \<Rightarrow> qp_post_recv_srq V q recv_wr)"

section \<open>Connection data\<close>

definition qp_serialize :: "verbs \<Rightarrow> endian \<Rightarrow> qp \<Rightarrow> exn + bytes" where
  "qp_serialize V e q =
     (if qp_qp q = nullptr then Inl (Undefined_behaviour ''qp_->qp_num'')
      else Inr (serialize e (device_lid (pd_device (qp_pd q))) @
                serialize e (v_qp_num V (qp_qp q)) @
                serialize e (qp_sq_psn q) @
                serialize e (word_of_nat (length (qp_user_data q)) :: u32) @
                serialize_gid (device_get_gid (pd_device (qp_pd q))) @
                qp_user_data q))"

record qp_header =
  hdr_lid :: u16
  hdr_qp_num :: u32
  hdr_sq_psn :: u32
  hdr_user_data_size :: u32
  hdr_gid :: gid

definition qp_header_kSerializedSize :: nat where
  "qp_header_kSerializedSize = size_of (0 :: u16) + 3 * size_of (0 :: u32) + 16"

record deserialized_qp =
  dqp_header :: qp_header
  dqp_user_data :: bytes

definition qp_header_read :: "endian \<Rightarrow> bytes \<Rightarrow> (qp_header \<times> bytes) option" where
  "qp_header_read e it =
     Option.bind (deserialize e it) (\<lambda>(lid, it).
     Option.bind (deserialize e it) (\<lambda>(qp_num, it).
     Option.bind (deserialize e it) (\<lambda>(sq_psn, it).
     Option.bind (deserialize e it) (\<lambda>(user_data_size, it).
     Option.bind (deserialize_gid it) (\<lambda>(gid, it).
       Some (\<lparr>hdr_lid = lid, hdr_qp_num = qp_num, hdr_sq_psn = sq_psn,
              hdr_user_data_size = user_data_size, hdr_gid = gid\<rparr>, it))))))"

definition deserialized_qp_deserialize :: "endian \<Rightarrow> bytes \<Rightarrow> deserialized_qp option" where
  "deserialized_qp_deserialize e it =
     map_option (\<lambda>(h, _). \<lparr>dqp_header = h, dqp_user_data = []\<rparr>) (qp_header_read e it)"

section \<open>Evaluation lemmas\<close>

lemma modify_or_destroy_apply [se_simps]:
  "modify_or_destroy V attr am msg (q, w) =
     (let c = Modify_qp (qp_qp q) attr am; rc = v_rc V (calls w) c in
      if rc = 0 then (Inr (), (q, record_call c w))
      else (Inl (failure (format_error msg (v_strerror V rc) ''rc'' rc)),
            (q\<lparr>qp_qp := nullptr\<rparr>, record_call c w)))"
  by (simp add: modify_or_destroy_def qp_destroy_def se_defs se_simps Let_def)

lemma qp_destroy_apply [se_simps]:
  "qp_destroy V (q, w) =
     (Inr (), (q, if qp_qp q = nullptr then w
        else record_call (Destroy_qp (qp_qp q))
          (record_call (Modify_qp (qp_qp q) (zero_qp_attr\<lparr>attr_qp_state := IBV_QPS_ERR\<rparr>) {IBV_QP_STATE}) w)))"
  by (simp add: qp_destroy_def qp_err_def se_defs se_simps)

text \<open>The call that creates a queue pair, and the object once it has its handle and its PSN.\<close>

definition create_call :: "pd \<Rightarrow> cq \<Rightarrow> cq \<Rightarrow> srq option \<Rightarrow> qp_config \<Rightarrow> vcall" where
  "create_call p recv_cq send_cq s config = Create_qp (pd_pd p)
     \<lparr>init_qp_type = IBV_QPT_RC, init_recv_cq = cq_cq recv_cq, init_send_cq = cq_cq send_cq,
      init_srq = (case s of None \<Rightarrow> nullptr | Some s \<Rightarrow> srq_srq s),
      init_max_send_wr = max_send_wr config, init_max_recv_wr = max_recv_wr config,
      init_max_send_sge = 1, init_max_recv_sge = 1, init_sq_sig_all = 0\<rparr>"

definition new_qp :: "qp \<Rightarrow> pd \<Rightarrow> cq \<Rightarrow> cq \<Rightarrow> srq option \<Rightarrow> qp_config \<Rightarrow> ptr \<Rightarrow> u32 \<Rightarrow> qp" where
  "new_qp mem p recv_cq send_cq s config h psn =
     \<lparr>qp_qp = h, qp_raw_srq = (case s of None \<Rightarrow> qp_raw_srq mem | Some s \<Rightarrow> srq_srq s),
      qp_sq_psn = psn, qp_post_recv_fn = (case s of None \<Rightarrow> Recv_rq | Some _ \<Rightarrow> Recv_srq),
      qp_pd = p, qp_recv_cq = recv_cq, qp_send_cq = send_cq, qp_srq = s, qp_conf = config,
      qp_user_data = []\<rparr>"

lemma new_qp_sel [simp]:
  "qp_qp (new_qp mem p rc sc s cf h n) = h" "qp_sq_psn (new_qp mem p rc sc s cf h n) = n"
  "qp_pd (new_qp mem p rc sc s cf h n) = p" "qp_srq (new_qp mem p rc sc s cf h n) = s"
  "qp_user_data (new_qp mem p rc sc s cf h n) = []"
  by (simp_all add: new_qp_def)

definition bump_psn :: "world \<Rightarrow> world" where
  "bump_psn w = w\<lparr>next_sq_psn := next_sq_psn w + 1\<rparr>"

lemma bump_psn_sel [simp]: "calls (bump_psn w) = calls w" "next_sq_psn (bump_psn w) = next_sq_psn w + 1"
  by (simp_all add: bump_psn_def)

lemma qp_create_apply:
  "\<exists>q e. qp_create V (qp_members mem p recv_cq send_cq s config, w) =
     (let c = create_call p recv_cq send_cq s config; h = v_ptr V (calls w) c in
      if h = nullptr then (Inl (failure e), (q, record_call c w))
      else (Inr (), (new_qp mem p recv_cq send_cq s config h (next_sq_psn w),
                     bump_psn (record_call c w))))"
  by (cases s)
    (auto simp: qp_create_def qp_members_def create_call_def new_qp_def bump_psn_def se_defs
      se_simps Let_def record_call_def)

text \<open>The whole behaviour of the creating constructor, for every answer of libibverbs.\<close>

lemma qp_ctor_apply:
  "\<exists>e1 e2. qp_ctor V mem p recv_cq send_cq s config w =
     (let c0 = create_call p recv_cq send_cq s config; h = v_ptr V (calls w) c0;
          q = new_qp mem p recv_cq send_cq s config h (next_sq_psn w);
          c1 = Modify_qp h (init_attr q) init_mask; w1 = bump_psn (record_call c0 w) in
      if h = nullptr then (Inl (failure e1), record_call c0 w)
      else if v_rc V (calls w @ [c0]) c1 \<noteq> 0 then (Inl (failure e2), record_call c1 w1)
      else (Inr q, record_call c1 w1))"
proof -
  obtain q' e where *: "qp_create V (qp_members mem p recv_cq send_cq s config, w) =
     (let c = create_call p recv_cq send_cq s config; h = v_ptr V (calls w) c in
      if h = nullptr then (Inl (failure e), (q', record_call c w))
      else (Inr (), (new_qp mem p recv_cq send_cq s config h (next_sq_psn w),
                     bump_psn (record_call c w))))"
    using qp_create_apply by blast
  show ?thesis
    by (auto simp: qp_ctor_def * thenS_def bindS_def qp_init_def se_simps Let_def)
qed

lemma qp_ctor_connected_apply:
  "\<exists>e1 e2 e3 e4. qp_ctor_connected V mem lid qpn psn g p recv_cq send_cq s config w =
     (let c0 = create_call p recv_cq send_cq s config; h = v_ptr V (calls w) c0;
          q = new_qp mem p recv_cq send_cq s config h (next_sq_psn w);
          c1 = Modify_qp h (init_attr q) init_mask;
          c2 = Modify_qp h (rtr_attr q lid qpn psn g) rtr_mask;
          c3 = Modify_qp h (rts_attr q) rts_mask;
          w1 = record_call c1 (bump_psn (record_call c0 w)) in
      if h = nullptr then (Inl (failure e1), record_call c0 w)
      else if v_rc V (calls w @ [c0]) c1 \<noteq> 0 then (Inl (failure e2), w1)
      else if v_rc V (calls w @ [c0, c1]) c2 \<noteq> 0 then (Inl (failure e3), record_call c2 w1)
      else if v_rc V (calls w @ [c0, c1, c2]) c3 \<noteq> 0
           then (Inl (failure e4), record_call c3 (record_call c2 w1))
      else (Inr q, record_call c3 (record_call c2 w1)))"
proof -
  obtain e1 e2 where *: "qp_ctor V mem p recv_cq send_cq s config w =
     (let c0 = create_call p recv_cq send_cq s config; h = v_ptr V (calls w) c0;
          q = new_qp mem p recv_cq send_cq s config h (next_sq_psn w);
          c1 = Modify_qp h (init_attr q) init_mask; w1 = bump_psn (record_call c0 w) in
      if h = nullptr then (Inl (failure e1), record_call c0 w)
      else if v_rc V (calls w @ [c0]) c1 \<noteq> 0 then (Inl (failure e2), record_call c1 w1)
      else (Inr q, record_call c1 w1))"
    using qp_ctor_apply by blast
  show ?thesis
    by (auto simp: qp_ctor_connected_def * thenS_def bindS_def qp_rtr_def qp_rts_def qp_dtor_def
        se_simps Let_def)
qed

section \<open>The RC state machine of libibverbs\<close>

text \<open>
  The specification the transitions are measured against: for a reliable connection,
  \<open>ibv_modify_qp(3)\<close> documents which transition each target state is reached by, and
  which attributes a call must set for it.
\<close>

fun rc_required :: "ibv_qp_state \<Rightarrow> ibv_qp_attr_mask set" where
  "rc_required IBV_QPS_INIT =
     {IBV_QP_STATE, IBV_QP_PKEY_INDEX, IBV_QP_PORT, IBV_QP_ACCESS_FLAGS}"
| "rc_required IBV_QPS_RTR =
     {IBV_QP_STATE, IBV_QP_AV, IBV_QP_PATH_MTU, IBV_QP_DEST_QPN, IBV_QP_RQ_PSN,
      IBV_QP_MAX_DEST_RD_ATOMIC, IBV_QP_MIN_RNR_TIMER}"
| "rc_required IBV_QPS_RTS =
     {IBV_QP_STATE, IBV_QP_SQ_PSN, IBV_QP_TIMEOUT, IBV_QP_RETRY_CNT, IBV_QP_RNR_RETRY,
      IBV_QP_MAX_QP_RD_ATOMIC}"
| "rc_required _ = {IBV_QP_STATE}"

fun rc_edge :: "ibv_qp_state \<Rightarrow> ibv_qp_state \<Rightarrow> bool" where
  "rc_edge _ IBV_QPS_ERR = True"
| "rc_edge IBV_QPS_RESET IBV_QPS_INIT = True"
| "rc_edge IBV_QPS_INIT IBV_QPS_RTR = True"
| "rc_edge IBV_QPS_RTR IBV_QPS_RTS = True"
| "rc_edge _ _ = False"

fun rc_run :: "ptr \<Rightarrow> ibv_qp_state \<Rightarrow> vcall list \<Rightarrow> ibv_qp_state option" where
  "rc_run h s [] = Some s"
| "rc_run h s (Modify_qp p a m # cs) =
     (if p \<noteq> h then rc_run h s cs
      else if rc_edge s (attr_qp_state a) \<and> rc_required (attr_qp_state a) \<subseteq> m
           then rc_run h (attr_qp_state a) cs else None)"
| "rc_run h s (_ # cs) = rc_run h s cs"

lemma init_mask_complete [simp]: "rc_required IBV_QPS_INIT \<subseteq> init_mask"
  by (auto simp: init_mask_def)

lemma rtr_mask_complete [simp]: "rc_required IBV_QPS_RTR \<subseteq> rtr_mask"
  by (auto simp: rtr_mask_def)

lemma rts_mask_complete [simp]: "rc_required IBV_QPS_RTS \<subseteq> rts_mask"
  by (auto simp: rts_mask_def)

lemma attr_states [simp]:
  "attr_qp_state (init_attr q) = IBV_QPS_INIT"
  "attr_qp_state (rtr_attr q l n s g) = IBV_QPS_RTR"
  "attr_qp_state (rts_attr q) = IBV_QPS_RTS"
  by (simp_all add: init_attr_def rtr_attr_def rts_attr_def)

lemma rc_run_create [simp]: "rc_run h st (create_call p rc sc s cf # cs) = rc_run h st cs"
  by (simp add: create_call_def)

declare rc_required.simps [simp del]

section \<open>Properties\<close>

text \<open>
  The connecting constructor, for every answer of libibverbs: it creates the queue
  pair and moves it to INIT, RTR and RTS, in this order and with these attributes,
  stopping with a runtime error at the first call that fails; when all succeed the
  object holds the new handle and the PSN that was next, and the counter moved on by one.
\<close>

theorem qp_connect_steps:
  "let c0 = create_call p recv_cq send_cq s config; h = v_ptr V (calls w) c0;
       q = new_qp mem p recv_cq send_cq s config h (next_sq_psn w);
       c1 = Modify_qp h (init_attr q) init_mask;
       c2 = Modify_qp h (rtr_attr q lid qpn psn g) rtr_mask;
       c3 = Modify_qp h (rts_attr q) rts_mask;
       (r, w') = qp_ctor_connected V mem lid qpn psn g p recv_cq send_cq s config w in
   if h = nullptr then (\<exists>t. r = Inl (Runtime_error t)) \<and> calls w' = calls w @ [c0]
   else if v_rc V (calls w @ [c0]) c1 \<noteq> 0
     then (\<exists>t. r = Inl (Runtime_error t)) \<and> calls w' = calls w @ [c0, c1]
   else if v_rc V (calls w @ [c0, c1]) c2 \<noteq> 0
     then (\<exists>t. r = Inl (Runtime_error t)) \<and> calls w' = calls w @ [c0, c1, c2]
   else if v_rc V (calls w @ [c0, c1, c2]) c3 \<noteq> 0
     then (\<exists>t. r = Inl (Runtime_error t)) \<and> calls w' = calls w @ [c0, c1, c2, c3]
   else r = Inr q \<and> calls w' = calls w @ [c0, c1, c2, c3] \<and> next_sq_psn w' = next_sq_psn w + 1"
  using qp_ctor_connected_apply [of V mem lid qpn psn g p recv_cq send_cq s config w]
  by (auto simp: Let_def failure_def)

text \<open>
  C3: whatever libibverbs answers, the calls the connecting constructor makes drive the
  new queue pair along legal transitions of the RC state machine, each with every
  attribute that transition requires; and a constructor that returns has left
  it in RTS.
\<close>

theorem qp_connect_follows_rc:
  "let h = v_ptr V (calls w) (create_call p recv_cq send_cq s config);
       (r, w') = qp_ctor_connected V mem lid qpn psn g p recv_cq send_cq s config w;
       new = only_new (calls w) (calls w') in
   rc_run h IBV_QPS_RESET new \<noteq> None \<and>
   (case r of Inl e \<Rightarrow> True
    | Inr q \<Rightarrow> qp_qp q = h \<and> h \<noteq> nullptr \<and> rc_run h IBV_QPS_RESET new = Some IBV_QPS_RTS)"
  using qp_ctor_connected_apply [of V mem lid qpn psn g p recv_cq send_cq s config w]
  by (auto simp: Let_def split: if_splits)

text \<open>
  C26: a queue pair whose transition fails is never destroyed: the handler clears
  \<open>qp_\<close> before it calls \<open>destroy()\<close>, which returns at once on a null handle. So when the
  connecting constructor throws after \<open>ibv_create_qp\<close> gave it a handle, that handle
  appears in no \<open>ibv_destroy_qp\<close> call.
\<close>

theorem qp_failed_connect_leaks:
  assumes "qp_ctor_connected V mem lid qpn psn g p recv_cq send_cq s config w = (Inl e, w')"
    and "v_ptr V (calls w) (create_call p recv_cq send_cq s config) = h" and "h \<noteq> nullptr"
  shows "\<exists>new. calls w' = calls w @ create_call p recv_cq send_cq s config # new \<and>
           new \<noteq> [] \<and> (\<forall>c \<in> set new. \<exists>a m. c = Modify_qp h a m) \<and> Destroy_qp h \<notin> set new"
  using qp_ctor_connected_apply [of V mem lid qpn psn g p recv_cq send_cq s config w] assms
  by (auto simp: Let_def split: if_splits)

definition sample_pd :: pd where
  "sample_pd = \<lparr>pd_device = blank_device\<lparr>dev_ctx := 1, dev_port_num := 1\<rparr>, pd_pd = 2\<rparr>"

definition sample_cq :: cq where
  "sample_cq = \<lparr>cq_device = blank_device, cq_cq = 3\<rparr>"

definition blank_qp :: qp where
  "blank_qp = \<lparr>qp_qp = 77, qp_raw_srq = 78, qp_sq_psn = 79, qp_post_recv_fn = Recv_rq, qp_pd = sample_pd,
     qp_recv_cq = sample_cq, qp_send_cq = sample_cq, qp_srq = None, qp_conf = default_qp_config,
     qp_user_data = []\<rparr>"

definition no_rtr_verbs :: verbs where
  "no_rtr_verbs = quiet_verbs\<lparr>v_rc := (\<lambda>h c. case c of
     Modify_qp _ a _ \<Rightarrow> if attr_qp_state a = IBV_QPS_RTR then 22 else 0 | _ \<Rightarrow> 0)\<rparr>"

theorem qp_failed_connect_leaks_witness:
  "\<exists>e w'. qp_ctor_connected no_rtr_verbs blank_qp 1 2 3 (gid_of []) sample_pd sample_cq sample_cq None
      default_qp_config fresh_world = (Inl e, w') \<and>
     create_call sample_pd sample_cq sample_cq None default_qp_config \<in> set (calls w') \<and>
     Destroy_qp 4096 \<notin> set (calls w')"
proof -
  let ?c = "create_call sample_pd sample_cq sample_cq None default_qp_config"
  have h: "v_ptr no_rtr_verbs (calls fresh_world) ?c = 4096" "(4096 :: ptr) \<noteq> nullptr"
    by (simp_all add: no_rtr_verbs_def quiet_verbs_def fresh_world_def)
  have "\<exists>e w'. qp_ctor_connected no_rtr_verbs blank_qp 1 2 3 (gid_of []) sample_pd sample_cq sample_cq
      None default_qp_config fresh_world = (Inl e, w')"
    using qp_ctor_connected_apply [of no_rtr_verbs blank_qp 1 2 3 "gid_of []" sample_pd sample_cq
        sample_cq None default_qp_config fresh_world] h
    by (auto simp: Let_def no_rtr_verbs_def)
  then obtain e w' where run: "qp_ctor_connected no_rtr_verbs blank_qp 1 2 3 (gid_of []) sample_pd
      sample_cq sample_cq None default_qp_config fresh_world = (Inl e, w')" by blast
  from qp_failed_connect_leaks [OF run h] run show ?thesis
    by (auto simp: fresh_world_def create_call_def)
qed

text \<open>
  C27: the whole life of a connected queue pair, from the call of its constructor to the return of its
  destructor, is six calls of libibverbs and no other: one \<open>ibv_create_qp\<close>, whose handle the object holds, the three
  transitions on this handle, and from the destructor the transition to the ERROR state and, whatever that one
  returned, the one \<open>ibv_destroy_qp\<close> of the handle. So it is created once, destroyed once, and not used afterwards.
\<close>

theorem qp_lifetime:
  assumes "qp_ctor_connected V mem lid qpn psn g p recv_cq send_cq s config w = (Inr q, w1)"
  shows "qp_qp q = v_ptr V (calls w) (create_call p recv_cq send_cq s config) \<and> qp_qp q \<noteq> nullptr \<and>
    calls (snd (qp_dtor V q w1)) =
      calls w @ [create_call p recv_cq send_cq s config,
        Modify_qp (qp_qp q) (init_attr q) init_mask, Modify_qp (qp_qp q) (rtr_attr q lid qpn psn g) rtr_mask,
        Modify_qp (qp_qp q) (rts_attr q) rts_mask,
        Modify_qp (qp_qp q) (zero_qp_attr\<lparr>attr_qp_state := IBV_QPS_ERR\<rparr>) {IBV_QP_STATE},
        Destroy_qp (qp_qp q)] \<and>
    fst (qp_dtor V q w1) = Inr ()"
  using qp_ctor_connected_apply [of V mem lid qpn psn g p recv_cq send_cq s config w] assms
  by (auto simp: Let_def qp_dtor_def se_simps split: if_splits)

theorem qp_lifetime_witness:
  "\<exists>q w1. qp_ctor_connected quiet_verbs blank_qp 1 2 3 (gid_of []) sample_pd sample_cq sample_cq None
      default_qp_config fresh_world = (Inr q, w1) \<and>
     length (calls (snd (qp_dtor quiet_verbs q w1))) = 6 \<and>
     last (calls (snd (qp_dtor quiet_verbs q w1))) = Destroy_qp (qp_qp q)"
proof -
  have "\<exists>q w1. qp_ctor_connected quiet_verbs blank_qp 1 2 3 (gid_of []) sample_pd sample_cq sample_cq
      None default_qp_config fresh_world = (Inr q, w1)"
    using qp_ctor_connected_apply [of quiet_verbs blank_qp 1 2 3 "gid_of []" sample_pd sample_cq
        sample_cq None default_qp_config fresh_world]
    by (auto simp: Let_def quiet_verbs_def fresh_world_def)
  then obtain q w1 where run: "qp_ctor_connected quiet_verbs blank_qp 1 2 3 (gid_of []) sample_pd
      sample_cq sample_cq None default_qp_config fresh_world = (Inr q, w1)" by blast
  from qp_lifetime [OF run] run show ?thesis by (auto simp: fresh_world_def)
qed

text \<open>
  Receive requests go to the shared receive queue exactly when one was given to the
  constructor, and to the queue pair's own receive queue otherwise; the post throws
  exactly when libibverbs reports an error.
\<close>

theorem qp_post_recv_dispatch:
  assumes "qp_ctor V mem p recv_cq send_cq s config w = (Inr q, w')"
  shows "let c = (case s of None \<Rightarrow> Post_recv (qp_qp q) wr | Some x \<Rightarrow> Post_srq_recv (srq_srq x) wr)
         in calls (snd (qp_post_recv V q wr w2)) = calls w2 @ [c] \<and>
            (if v_rc V (calls w2) c = 0 then fst (qp_post_recv V q wr w2) = Inr ()
             else \<exists>t. fst (qp_post_recv V q wr w2) = Inl (Runtime_error t))"
proof -
  have "\<exists>h n. q = new_qp mem p recv_cq send_cq s config h n"
    using qp_ctor_apply [of V mem p recv_cq send_cq s config w] assms
    by (auto simp: Let_def split: if_splits)
  then show ?thesis
    by (cases s)
      (auto simp: new_qp_def qp_post_recv_def qp_post_recv_rq_def qp_post_recv_srq_def bindS_def
        se_simps failure_def)
qed

definition sample_srq :: srq where
  "sample_srq = \<lparr>srq_srq = 55, srq_pd = sample_pd\<rparr>"

theorem qp_post_recv_dispatch_witness:
  "\<exists>q w1. qp_ctor quiet_verbs blank_qp sample_pd sample_cq sample_cq (Some sample_srq) default_qp_config
      fresh_world = (Inr q, w1) \<and>
     calls (snd (qp_post_recv quiet_verbs q \<lparr>rwr_id = 5, rwr_sg_list = []\<rparr> fresh_world)) =
       [Post_srq_recv 55 \<lparr>rwr_id = 5, rwr_sg_list = []\<rparr>]"
proof -
  have "\<exists>q w1. qp_ctor quiet_verbs blank_qp sample_pd sample_cq sample_cq (Some sample_srq)
      default_qp_config fresh_world = (Inr q, w1)"
    using qp_ctor_apply [of quiet_verbs blank_qp sample_pd sample_cq sample_cq "Some sample_srq"
        default_qp_config fresh_world]
    by (auto simp: Let_def quiet_verbs_def fresh_world_def)
  then obtain q w1 where run: "qp_ctor quiet_verbs blank_qp sample_pd sample_cq sample_cq
      (Some sample_srq) default_qp_config fresh_world = (Inr q, w1)" by blast
  from qp_post_recv_dispatch [OF run, of "\<lparr>rwr_id = 5, rwr_sg_list = []\<rparr>" fresh_world] run
  show ?thesis by (auto simp: sample_srq_def fresh_world_def Let_def)
qed

subsection \<open>Packet sequence numbers\<close>

text \<open>
  A program that constructs queue pairs one after the other, from any protection domains
  and completion queues, and keeps those whose constructor returned.
\<close>

type_synonym qp_args = "pd \<times> cq \<times> cq \<times> srq option \<times> qp_config"

fun construct_all :: "verbs \<Rightarrow> qp \<Rightarrow> qp_args list \<Rightarrow> world \<Rightarrow> qp list \<times> world" where
  "construct_all V mem [] w = ([], w)"
| "construct_all V mem ((p, rc, sc, s, cf) # args) w =
     (case qp_ctor V mem p rc sc s cf w of
        (Inl e, w') \<Rightarrow> construct_all V mem args w'
      | (Inr q, w') \<Rightarrow> (case construct_all V mem args w' of (qs, w'') \<Rightarrow> (q # qs, w'')))"

lemma qp_ctor_psn:
  assumes "qp_ctor V mem p rc sc s cf w = (r, w')"
  shows "(next_sq_psn w' = next_sq_psn w \<or> next_sq_psn w' = next_sq_psn w + 1) \<and>
         (\<forall>q. r = Inr q \<longrightarrow> qp_sq_psn q = next_sq_psn w \<and> next_sq_psn w' = next_sq_psn w + 1)"
  using qp_ctor_apply [of V mem p rc sc s cf w] assms
  by (auto simp: Let_def split: if_splits)

lemma construct_all_psns:
  "\<exists>ks. map qp_sq_psn (fst (construct_all V mem args w)) = map (\<lambda>k. next_sq_psn w + word_of_nat k) ks \<and>
        sorted_wrt (<) ks \<and> set ks \<subseteq> {..<length args}"
proof (induction args arbitrary: w)
  case Nil
  then show ?case by simp
next
  case (Cons a args)
  obtain p rc sc s cf where a: "a = (p, rc, sc, s, cf)" by (cases a)
  obtain r w' where run: "qp_ctor V mem p rc sc s cf w = (r, w')" by fastforce
  obtain ks where ks: "map qp_sq_psn (fst (construct_all V mem args w')) =
      map (\<lambda>k. next_sq_psn w' + word_of_nat k) ks" "sorted_wrt (<) ks" "set ks \<subseteq> {..<length args}"
    using Cons.IH [of w'] by blast
  have mono: "sorted_wrt (<) (map Suc ks)" using ks(2) by (simp add: sorted_wrt_map)
  show ?case
  proof (cases r)
    case (Inl e)
    note psn = qp_ctor_psn [OF run]
    from psn consider "next_sq_psn w' = next_sq_psn w" | "next_sq_psn w' = next_sq_psn w + 1" by blast
    then show ?thesis
    proof cases
      case 1
      with a Inl run ks show ?thesis by (intro exI [of _ ks]) auto
    next
      case 2
      with a Inl run ks mono show ?thesis
        by (intro exI [of _ "map Suc ks"]) (auto simp: add.commute add.left_commute)
    qed
  next
    case (Inr q)
    have psn: "qp_sq_psn q = next_sq_psn w" "next_sq_psn w' = next_sq_psn w + 1"
      using qp_ctor_psn [OF run] Inr by auto
    with a Inr run ks mono show ?thesis
      by (intro exI [of _ "0 # map Suc ks"])
        (auto simp: add.commute add.left_commute split: prod.splits)
  qed
qed

lemma word_of_nat_inj_on: "inj_on (\<lambda>k. a + word_of_nat k :: u32) {..<2 ^ 32}"
  by (rule inj_onI) (simp add: word_of_nat_eq_iff take_bit_nat_eq_self_iff take_bit_nat_eq_self)

text \<open>
  Of up to \<open>2 ^ 32\<close> construction attempts, however many of them fail, no two queue
  pairs start from the same packet sequence number.
\<close>

theorem qp_psns_distinct:
  assumes "length args \<le> 2 ^ 32"
  shows "distinct (map qp_sq_psn (fst (construct_all V mem args w)))"
proof -
  obtain ks where ks: "map qp_sq_psn (fst (construct_all V mem args w)) =
      map (\<lambda>k. next_sq_psn w + word_of_nat k) ks" "sorted_wrt (<) ks" "set ks \<subseteq> {..<length args}"
    using construct_all_psns by blast
  have "distinct ks" using ks(2) by (simp add: strict_sorted_iff)
  moreover have "inj_on (\<lambda>k. next_sq_psn w + word_of_nat k :: u32) (set ks)"
    using ks(3) assms by (intro inj_on_subset [OF word_of_nat_inj_on]) auto
  ultimately show ?thesis using ks(1) by (simp add: distinct_map)
qed

theorem qp_psns_distinct_witness:
  "distinct (map qp_sq_psn (fst (construct_all quiet_verbs blank_qp
      (replicate 3 (sample_pd, sample_cq, sample_cq, None, default_qp_config)) fresh_world)))"
  by (rule qp_psns_distinct) simp

subsection \<open>The connection header\<close>

definition qp_header_write :: "endian \<Rightarrow> qp_header \<Rightarrow> bytes" where
  "qp_header_write e h = serialize e (hdr_lid h) @ serialize e (hdr_qp_num h) @
     serialize e (hdr_sq_psn h) @ serialize e (hdr_user_data_size h) @ serialize_gid (hdr_gid h)"

lemma qp_header_read_short: "length bs < 30 \<Longrightarrow> qp_header_read e bs = None"
  by (auto simp: qp_header_read_def deserialize_def deserialize_gid_def Let_def
      split: option.splits if_splits)

lemma qp_header_read_write: "qp_header_read e2 (qp_header_write e1 h @ rest) = Some (h, rest)"
  by (simp add: qp_header_write_def qp_header_read_def u16_codec.dec_enc u32_codec.dec_enc
      gid_codec.dec_enc)

interpretation qp_header_codec: codec "qp_header_write e1" "qp_header_read e2" 30 for e1 e2
  by unfold_locales
    (simp_all add: qp_header_read_write qp_header_read_short,
     simp add: qp_header_write_def serialize_length gid_codec.enc_width)

definition qp_header_of :: "verbs \<Rightarrow> qp \<Rightarrow> qp_header" where
  "qp_header_of V q = \<lparr>hdr_lid = device_lid (pd_device (qp_pd q)), hdr_qp_num = v_qp_num V (qp_qp q),
     hdr_sq_psn = qp_sq_psn q, hdr_user_data_size = word_of_nat (length (qp_user_data q)),
     hdr_gid = dev_gid (pd_device (qp_pd q))\<rparr>"

lemma qp_serialize_eq:
  "qp_qp q \<noteq> nullptr \<Longrightarrow> qp_serialize V e q = Inr (qp_header_write e (qp_header_of V q) @ qp_user_data q)"
  by (simp add: qp_serialize_def qp_header_write_def qp_header_of_def device_get_gid_def)

text \<open>
  C29: what a peer reads from the connection data is what the queue pair is: the header
  takes \<open>kSerializedSize\<close> (30) bytes and gives LID, queue pair number, PSN, GID and the
  size of the user data that follows, on a host of any byte order; a shorter buffer
  is a read past its end.
\<close>

theorem qp_serialize_roundtrip:
  assumes "qp_qp q \<noteq> nullptr"
  shows "\<exists>bs. qp_serialize V e1 q = Inr bs \<and>
           length bs = qp_header_kSerializedSize + length (qp_user_data q) \<and>
           deserialized_qp_deserialize e2 bs =
             Some \<lparr>dqp_header = \<lparr>hdr_lid = device_lid (pd_device (qp_pd q)),
                     hdr_qp_num = v_qp_num V (qp_qp q), hdr_sq_psn = qp_sq_psn q,
                     hdr_user_data_size = word_of_nat (length (qp_user_data q)),
                     hdr_gid = dev_gid (pd_device (qp_pd q))\<rparr>, dqp_user_data = []\<rparr> \<and>
           drop qp_header_kSerializedSize bs = qp_user_data q \<and>
           (\<forall>k < 30. deserialized_qp_deserialize e2 (take k bs) = None)"
proof -
  let ?bs = "qp_header_write e1 (qp_header_of V q) @ qp_user_data q"
  have "qp_serialize V e1 q = Inr ?bs" using assms by (rule qp_serialize_eq)
  moreover have "length (qp_header_write e1 (qp_header_of V q)) = 30"
    by (rule qp_header_codec.enc_width)
  moreover have "qp_header_kSerializedSize = 30" by (simp add: qp_header_kSerializedSize_def)
  moreover have "qp_header_read e2 ?bs = Some (qp_header_of V q, qp_user_data q)"
    by (rule qp_header_codec.dec_enc)
  moreover have "deserialized_qp_deserialize e2 (take k ?bs) = None" if "k < 30" for k
    using that by (simp add: deserialized_qp_deserialize_def qp_header_read_short)
  ultimately show ?thesis
    by (simp add: deserialized_qp_deserialize_def qp_header_of_def)
qed

theorem qp_serialize_roundtrip_witness:
  "\<exists>bs. qp_serialize quiet_verbs Little (blank_qp\<lparr>qp_user_data := [1, 2, 3]\<rparr>) = Inr bs \<and>
     length bs = 33 \<and> drop 30 bs = [1, 2, 3]"
proof -
  have "qp_qp (blank_qp\<lparr>qp_user_data := [1, 2, 3]\<rparr>) \<noteq> nullptr" by (simp add: blank_qp_def)
  from qp_serialize_roundtrip [OF this, of quiet_verbs Little Big] show ?thesis
    by (auto simp: qp_header_kSerializedSize_def)
qed

end
