(* ===== verification/Awaitable.thy ===== *)
theory Awaitable
  imports Qp
begin

text \<open>
  The awaitable operations of a queue pair (\<open>operation_state\<close>, \<open>send_awaitable\<close>,
  \<open>recv_awaitable\<close> and the public operations that make them, in \<^verbatim>\<open>qp.h\<close> and
  \<^verbatim>\<open>qp.cc\<close>), with the native completion token: the awaitable itself is awaited. The
  extra assertions and trace lines of \<open>RDMAPP_BUILD_DEBUG\<close> builds are left out.
\<close>

unbundle bit_operations_syntax

section \<open>The state of an operation\<close>

record operation_state =
  op_wr_opcode :: "ibv_wr_opcode option"
  op_coro_handle :: nat
  op_wc_status :: ibv_wc_status
  op_wc_flags :: u32
  op_imm_data :: u32
  op_byte_len :: u32

text \<open>The two constructors; the members after the opcode are value-initialised (status 0 is success).\<close>

definition operation_state_recv :: operation_state where
  "operation_state_recv = \<lparr>op_wr_opcode = None, op_coro_handle = 0, op_wc_status = IBV_WC_SUCCESS,
     op_wc_flags = 0, op_imm_data = 0, op_byte_len = 0\<rparr>"

definition operation_state_send :: "ibv_wr_opcode \<Rightarrow> operation_state" where
  "operation_state_send opcode = \<lparr>op_wr_opcode = Some opcode, op_coro_handle = 0,
     op_wc_status = IBV_WC_SUCCESS, op_wc_flags = 0, op_imm_data = 0, op_byte_len = 0\<rparr>"

definition set_from_wc :: "ibv_wc \<Rightarrow> operation_state \<Rightarrow> operation_state" where
  "set_from_wc wc st =
     (let st = st\<lparr>op_wc_status := wc_status wc, op_wc_flags := wc_flags wc\<rparr> in
      case op_wr_opcode st of
        None \<Rightarrow> st\<lparr>op_byte_len := wc_byte_len wc, op_imm_data := wc_imm_data wc\<rparr>
      | Some opcode \<Rightarrow> (case opcode of
            IBV_WR_RDMA_WRITE_WITH_IMM \<Rightarrow> st
          | IBV_WR_RDMA_WRITE \<Rightarrow> st
          | IBV_WR_SEND \<Rightarrow> st
          | _ \<Rightarrow> st\<lparr>op_byte_len := wc_byte_len wc\<rparr>))"

section \<open>send_awaitable\<close>

text \<open>
  The anonymous union of the class: the immediate value, or the pair of atomic operands
  of which the second may be unset. A constructor that initialises neither leaves it
  indeterminate, and reading a member that was not written is undefined behaviour.
\<close>

datatype sa_union = Union_unset | Union_imm u32 | Union_atomic u64 "u64 option"

definition union_imm :: "sa_union \<Rightarrow> exn + u32" where
  "union_imm u = (case u of Union_imm i \<Rightarrow> Inr i | _ \<Rightarrow> Inl (Undefined_behaviour ''imm_''))"

definition union_compare_add :: "sa_union \<Rightarrow> exn + u64" where
  "union_compare_add u = (case u of
     Union_atomic c _ \<Rightarrow> Inr c | _ \<Rightarrow> Inl (Undefined_behaviour ''compare_add_''))"

definition union_swap :: "sa_union \<Rightarrow> exn + u64" where
  "union_swap u = (case u of
     Union_atomic _ (Some s) \<Rightarrow> Inr s | _ \<Rightarrow> Inl (Undefined_behaviour ''swap_''))"

text \<open>\<open>sa_qp\<close> is the object the weak pointer refers to, \<open>sa_local_mr\<close> what the unique pointer owns.\<close>

record send_awaitable =
  sa_qp :: nat
  sa_local_mr :: "local_mr option"
  sa_local_view :: mr_view
  sa_remote_view :: mr_view
  sa_exception :: "exn option"
  sa_union :: sa_union
  sa_state :: operation_state

definition send_awaitable_mk ::
  "nat \<Rightarrow> local_mr option \<Rightarrow> mr_view \<Rightarrow> mr_view \<Rightarrow> sa_union \<Rightarrow> ibv_wr_opcode \<Rightarrow> send_awaitable" where
  "send_awaitable_mk q owned local remote u opcode =
     \<lparr>sa_qp = q, sa_local_mr = owned, sa_local_view = local, sa_remote_view = remote,
      sa_exception = None, sa_union = u, sa_state = operation_state_send opcode\<rparr>"

text \<open>The five constructors from a view, then the five that register a buffer first.\<close>

definition send_awaitable_view :: "nat \<Rightarrow> mr_view \<Rightarrow> ibv_wr_opcode \<Rightarrow> send_awaitable" where
  "send_awaitable_view q local opcode = send_awaitable_mk q None local mr_view_empty Union_unset opcode"

definition send_awaitable_view_remote ::
  "nat \<Rightarrow> mr_view \<Rightarrow> ibv_wr_opcode \<Rightarrow> mr_view \<Rightarrow> send_awaitable" where
  "send_awaitable_view_remote q local opcode remote = send_awaitable_mk q None local remote Union_unset opcode"

definition send_awaitable_view_imm ::
  "nat \<Rightarrow> mr_view \<Rightarrow> ibv_wr_opcode \<Rightarrow> mr_view \<Rightarrow> u32 \<Rightarrow> send_awaitable" where
  "send_awaitable_view_imm q local opcode remote imm =
     send_awaitable_mk q None local remote (Union_imm imm) opcode"

definition send_awaitable_view_add ::
  "nat \<Rightarrow> mr_view \<Rightarrow> ibv_wr_opcode \<Rightarrow> mr_view \<Rightarrow> u64 \<Rightarrow> send_awaitable" where
  "send_awaitable_view_add q local opcode remote add =
     send_awaitable_mk q None local remote (Union_atomic add None) opcode"

definition send_awaitable_view_cas ::
  "nat \<Rightarrow> mr_view \<Rightarrow> ibv_wr_opcode \<Rightarrow> mr_view \<Rightarrow> u64 \<Rightarrow> u64 \<Rightarrow> send_awaitable" where
  "send_awaitable_view_cas q local opcode remote compare swp =
     send_awaitable_mk q None local remote (Union_atomic compare (Some swp)) opcode"

definition with_buffer ::
  "verbs \<Rightarrow> qp \<Rightarrow> ptr \<times> size_t \<Rightarrow> (local_mr \<Rightarrow> mr_view \<Rightarrow> 'a) \<Rightarrow> (world, 'a) se" where
  "with_buffer V q buffer f =
     bindS (reg_mr V (qp_pd q) (fst buffer) (snd buffer) reg_mr_default_flags) (\<lambda>m.
     bindS (liftS (mr_view_local m 0 whole_length)) (\<lambda>v. returnS (f m v)))"

definition send_awaitable_buffer ::
  "verbs \<Rightarrow> nat \<Rightarrow> qp \<Rightarrow> ptr \<times> size_t \<Rightarrow> ibv_wr_opcode \<Rightarrow> (world, send_awaitable) se" where
  "send_awaitable_buffer V i q buffer opcode = with_buffer V q buffer (\<lambda>m v.
     send_awaitable_mk i (Some m) v mr_view_empty Union_unset opcode)"

definition send_awaitable_buffer_remote ::
  "verbs \<Rightarrow> nat \<Rightarrow> qp \<Rightarrow> ptr \<times> size_t \<Rightarrow> ibv_wr_opcode \<Rightarrow> mr_view \<Rightarrow> (world, send_awaitable) se" where
  "send_awaitable_buffer_remote V i q buffer opcode remote = with_buffer V q buffer (\<lambda>m v.
     send_awaitable_mk i (Some m) v remote Union_unset opcode)"

definition send_awaitable_buffer_imm ::
  "verbs \<Rightarrow> nat \<Rightarrow> qp \<Rightarrow> ptr \<times> size_t \<Rightarrow> ibv_wr_opcode \<Rightarrow> mr_view \<Rightarrow> u32 \<Rightarrow> (world, send_awaitable) se" where
  "send_awaitable_buffer_imm V i q buffer opcode remote imm = with_buffer V q buffer (\<lambda>m v.
     send_awaitable_mk i (Some m) v remote (Union_imm imm) opcode)"

definition send_awaitable_buffer_add ::
  "verbs \<Rightarrow> nat \<Rightarrow> qp \<Rightarrow> ptr \<times> size_t \<Rightarrow> ibv_wr_opcode \<Rightarrow> mr_view \<Rightarrow> u64 \<Rightarrow> (world, send_awaitable) se" where
  "send_awaitable_buffer_add V i q buffer opcode remote add = with_buffer V q buffer (\<lambda>m v.
     send_awaitable_mk i (Some m) v remote (Union_atomic add None) opcode)"

definition send_awaitable_buffer_cas ::
  "verbs \<Rightarrow> nat \<Rightarrow> qp \<Rightarrow> ptr \<times> size_t \<Rightarrow> ibv_wr_opcode \<Rightarrow> mr_view \<Rightarrow> u64 \<Rightarrow> u64 \<Rightarrow>
     (world, send_awaitable) se" where
  "send_awaitable_buffer_cas V i q buffer opcode remote compare swp = with_buffer V q buffer (\<lambda>m v.
     send_awaitable_mk i (Some m) v remote (Union_atomic compare (Some swp)) opcode)"

definition is_rdma :: "send_awaitable \<Rightarrow> bool" where
  "is_rdma a = (op_wr_opcode (sa_state a) = Some IBV_WR_RDMA_READ \<or>
     op_wr_opcode (sa_state a) = Some IBV_WR_RDMA_WRITE \<or>
     op_wr_opcode (sa_state a) = Some IBV_WR_RDMA_WRITE_WITH_IMM)"

definition is_atomic :: "send_awaitable \<Rightarrow> bool" where
  "is_atomic a = (op_wr_opcode (sa_state a) = Some IBV_WR_ATOMIC_CMP_AND_SWP \<or>
     op_wr_opcode (sa_state a) = Some IBV_WR_ATOMIC_FETCH_AND_ADD)"

definition fill_local_sge :: "mr_view \<Rightarrow> ibv_sge" where
  "fill_local_sge v = \<lparr>sge_addr = view_addr v, sge_length = ucast (view_length v),
     sge_lkey = mr_view_lkey v\<rparr>"

text \<open>
  The work request that \<open>suspend\<close> fills in; the remote part and the immediate value are
  read only for the opcodes that use them.
\<close>

definition remote_part :: "send_awaitable \<Rightarrow> exn + ibv_wr_union \<times> u32" where
  "remote_part a =
     (if is_rdma a then
        (if view_addr (sa_remote_view a) = nullptr
         then Inl (Assert_failed ''remote_mr_view_.addr() != nullptr'')
         else let wr = Wr_rdma (view_addr (sa_remote_view a)) (mr_view_rkey (sa_remote_view a)) in
              if op_wr_opcode (sa_state a) = Some IBV_WR_RDMA_WRITE_WITH_IMM
              then bindR (union_imm (sa_union a)) (\<lambda>imm. Inr (wr, imm))
              else Inr (wr, 0))
      else if is_atomic a then
        (if view_addr (sa_remote_view a) = nullptr
         then Inl (Assert_failed ''remote_mr_view_.addr() != nullptr'')
         else bindR (union_compare_add (sa_union a)) (\<lambda>c.
              if op_wr_opcode (sa_state a) = Some IBV_WR_ATOMIC_CMP_AND_SWP
              then bindR (union_swap (sa_union a)) (\<lambda>s.
                   Inr (Wr_atomic (view_addr (sa_remote_view a)) (mr_view_rkey (sa_remote_view a)) c s, 0))
              else Inr (Wr_atomic (view_addr (sa_remote_view a)) (mr_view_rkey (sa_remote_view a)) c 0, 0)))
      else Inr (Wr_zero, 0))"

definition build_send_wr :: "send_awaitable \<Rightarrow> u64 \<Rightarrow> exn + ibv_send_wr" where
  "build_send_wr a wr_id = (case op_wr_opcode (sa_state a) of
     None \<Rightarrow> Inl (Assert_failed ''state_.wr_opcode'')
   | Some opcode \<Rightarrow> bindR (remote_part a) (\<lambda>(wr, imm).
       Inr \<lparr>swr_id = wr_id, swr_sg_list = [fill_local_sge (sa_local_view a)], swr_opcode = opcode,
            swr_send_flags = {IBV_SEND_SIGNALED}, swr_imm_data = imm, swr_wr = wr\<rparr>))"

text \<open>The objects that weak pointers may lock: the queue pairs alive at that moment.\<close>

type_synonym qp_heap = "nat \<Rightarrow> qp option"

definition sa_suspend ::
  "verbs \<Rightarrow> qp_heap \<Rightarrow> u64 \<Rightarrow> send_awaitable \<Rightarrow> (world, bool \<times> send_awaitable) se" where
  "sa_suspend V heap wr_id a =
     bindS (liftS (build_send_wr a wr_id)) (\<lambda>send_wr.
     let a = (if is_rdma a
              then a\<lparr>sa_state := (sa_state a)\<lparr>op_byte_len := ucast (view_length (sa_local_view a))\<rparr>\<rparr>
              else a) in
     case heap (sa_qp a) of
       None \<Rightarrow> returnS (False, a\<lparr>sa_exception := Some (Runtime_error ''post_send: qp expired, use_count=0'')\<rparr>)
     | Some q \<Rightarrow> catchS runtime_error
         (thenS (qp_post_send V q send_wr) (returnS (True, a)))
         (\<lambda>e. returnS (False, a\<lparr>sa_exception := Some e\<rparr>)))"

text \<open>\<open>wr_id()\<close> is the address of the \<open>operation_state\<close>, a parameter here.\<close>

definition sa_await_ready :: "send_awaitable \<Rightarrow> bool" where
  "sa_await_ready a = False"

definition sa_await_suspend ::
  "verbs \<Rightarrow> qp_heap \<Rightarrow> u64 \<Rightarrow> nat \<Rightarrow> send_awaitable \<Rightarrow> (world, bool \<times> send_awaitable) se" where
  "sa_await_suspend V heap state_addr h a =
     sa_suspend V heap state_addr (a\<lparr>sa_state := (sa_state a)\<lparr>op_coro_handle := h\<rparr>\<rparr>)"

definition sa_resume :: "verbs \<Rightarrow> send_awaitable \<Rightarrow> (world, u32) se" where
  "sa_resume V a = thenS (check_wc_status V (op_wc_status (sa_state a)) ''failed to send'')
     (returnS (op_byte_len (sa_state a)))"

definition sa_await_resume :: "verbs \<Rightarrow> send_awaitable \<Rightarrow> (world, u32) se" where
  "sa_await_resume V a = (case sa_exception a of Some e \<Rightarrow> throwS e | None \<Rightarrow> sa_resume V a)"

definition sa_unhandled_exception :: "send_awaitable \<Rightarrow> exn option" where
  "sa_unhandled_exception a = sa_exception a"

section \<open>recv_awaitable\<close>

record recv_awaitable =
  ra_qp :: nat
  ra_local_mr :: "local_mr option"
  ra_local_view :: mr_view
  ra_exception :: "exn option"
  ra_state :: operation_state

definition recv_awaitable_view :: "nat \<Rightarrow> mr_view \<Rightarrow> recv_awaitable" where
  "recv_awaitable_view q local = \<lparr>ra_qp = q, ra_local_mr = None, ra_local_view = local,
     ra_exception = None, ra_state = operation_state_recv\<rparr>"

definition recv_awaitable_buffer ::
  "verbs \<Rightarrow> nat \<Rightarrow> qp \<Rightarrow> ptr \<times> size_t \<Rightarrow> (world, recv_awaitable) se" where
  "recv_awaitable_buffer V i q buffer = with_buffer V q buffer (\<lambda>m v.
     \<lparr>ra_qp = i, ra_local_mr = Some m, ra_local_view = v, ra_exception = None,
      ra_state = operation_state_recv\<rparr>)"

text \<open>A view of address null gives a request without a scatter entry.\<close>

definition build_recv_wr :: "recv_awaitable \<Rightarrow> u64 \<Rightarrow> ibv_recv_wr" where
  "build_recv_wr a wr_id = \<lparr>rwr_id = wr_id,
     rwr_sg_list = (if mr_view_bool (ra_local_view a) then [fill_local_sge (ra_local_view a)] else [])\<rparr>"

definition ra_suspend ::
  "verbs \<Rightarrow> qp_heap \<Rightarrow> u64 \<Rightarrow> recv_awaitable \<Rightarrow> (world, bool \<times> recv_awaitable) se" where
  "ra_suspend V heap wr_id a = (case heap (ra_qp a) of
       None \<Rightarrow> returnS (False, a\<lparr>ra_exception := Some (Runtime_error ''post_recv: qp expired, use_count=0'')\<rparr>)
     | Some q \<Rightarrow> catchS runtime_error
         (thenS (qp_post_recv V q (build_recv_wr a wr_id)) (returnS (True, a)))
         (\<lambda>e. returnS (False, a\<lparr>ra_exception := Some e\<rparr>)))"

definition ra_await_ready :: "recv_awaitable \<Rightarrow> bool" where
  "ra_await_ready a = False"

definition ra_await_suspend ::
  "verbs \<Rightarrow> qp_heap \<Rightarrow> u64 \<Rightarrow> nat \<Rightarrow> recv_awaitable \<Rightarrow> (world, bool \<times> recv_awaitable) se" where
  "ra_await_suspend V heap state_addr h a =
     ra_suspend V heap state_addr (a\<lparr>ra_state := (ra_state a)\<lparr>op_coro_handle := h\<rparr>\<rparr>)"

definition ra_resume :: "verbs \<Rightarrow> recv_awaitable \<Rightarrow> (world, u32 \<times> u32 option) se" where
  "ra_resume V a = thenS (check_wc_status V (op_wc_status (ra_state a)) ''failed to recv'')
     (if op_wc_flags (ra_state a) AND v_wc_with_imm V \<noteq> 0
      then returnS (op_byte_len (ra_state a), Some (op_imm_data (ra_state a)))
      else returnS (op_byte_len (ra_state a), None))"

definition ra_await_resume :: "verbs \<Rightarrow> recv_awaitable \<Rightarrow> (world, u32 \<times> u32 option) se" where
  "ra_await_resume V a = (case ra_exception a of Some e \<Rightarrow> throwS e | None \<Rightarrow> ra_resume V a)"

definition ra_unhandled_exception :: "recv_awaitable \<Rightarrow> exn option" where
  "ra_unhandled_exception a = ra_exception a"

end
