(* ===== verification/Operations.thy ===== *)
theory Operations
  imports Awaitable
begin

text \<open>
  The public operations of \<open>basic_qp\<close> in \<^verbatim>\<open>qp.h\<close> (send, write, read, atomics, recv, over
  a buffer and over a registered region) with the native completion token, what
  \<open>co_await\<close> makes of them, and their properties.
\<close>

section \<open>The factories\<close>

text \<open>
  \<open>make_send_awaitable\<close> and \<open>make_recv_awaitable\<close> are \<open>noexcept\<close>, and they run the
  constructor, which for a buffer registers memory.
\<close>

definition make_send_awaitable :: "(world, send_awaitable) se \<Rightarrow> (world, send_awaitable) se" where
  "make_send_awaitable ctor = noexceptS ''make_send_awaitable'' ctor"

definition make_recv_awaitable :: "(world, recv_awaitable) se \<Rightarrow> (world, recv_awaitable) se" where
  "make_recv_awaitable ctor = noexceptS ''make_recv_awaitable'' ctor"

section \<open>Operations on a buffer\<close>

text \<open>\<open>i\<close> is the identity of the queue pair object \<open>q\<close>, which \<open>shared_from_this\<close> hands on.\<close>

definition op_send_buffer :: "verbs \<Rightarrow> nat \<Rightarrow> qp \<Rightarrow> ptr \<times> size_t \<Rightarrow> (world, send_awaitable) se" where
  "op_send_buffer V i q buffer = make_send_awaitable (send_awaitable_buffer V i q buffer IBV_WR_SEND)"

definition op_write_buffer ::
  "verbs \<Rightarrow> nat \<Rightarrow> qp \<Rightarrow> mr_view \<Rightarrow> ptr \<times> size_t \<Rightarrow> (world, send_awaitable) se" where
  "op_write_buffer V i q remote buffer =
     make_send_awaitable (send_awaitable_buffer_remote V i q buffer IBV_WR_RDMA_WRITE remote)"

definition op_write_with_imm_buffer ::
  "verbs \<Rightarrow> nat \<Rightarrow> qp \<Rightarrow> mr_view \<Rightarrow> ptr \<times> size_t \<Rightarrow> u32 \<Rightarrow> (world, send_awaitable) se" where
  "op_write_with_imm_buffer V i q remote buffer imm =
     make_send_awaitable (send_awaitable_buffer_imm V i q buffer IBV_WR_RDMA_WRITE_WITH_IMM remote imm)"

definition op_read_buffer ::
  "verbs \<Rightarrow> nat \<Rightarrow> qp \<Rightarrow> mr_view \<Rightarrow> ptr \<times> size_t \<Rightarrow> (world, send_awaitable) se" where
  "op_read_buffer V i q remote buffer =
     make_send_awaitable (send_awaitable_buffer_remote V i q buffer IBV_WR_RDMA_READ remote)"

definition op_fetch_and_add_buffer ::
  "verbs \<Rightarrow> nat \<Rightarrow> qp \<Rightarrow> mr_view \<Rightarrow> ptr \<times> size_t \<Rightarrow> u64 \<Rightarrow> (world, send_awaitable) se" where
  "op_fetch_and_add_buffer V i q remote buffer add =
     (if \<not> is_fetch_and_add_supported (pd_device (qp_pd q))
      then throwS (Assert_failed ''pd_->device_ptr()->is_fetch_and_add_supported()'')
      else make_send_awaitable
        (send_awaitable_buffer_add V i q buffer IBV_WR_ATOMIC_FETCH_AND_ADD remote add))"

definition op_compare_and_swap_buffer ::
  "verbs \<Rightarrow> nat \<Rightarrow> qp \<Rightarrow> mr_view \<Rightarrow> ptr \<times> size_t \<Rightarrow> u64 \<Rightarrow> u64 \<Rightarrow> (world, send_awaitable) se" where
  "op_compare_and_swap_buffer V i q remote buffer compare swp =
     (if \<not> is_compare_and_swap_supported (pd_device (qp_pd q))
      then throwS (Assert_failed ''pd_->device_ptr()->is_compare_and_swap_supported()'')
      else make_send_awaitable
        (send_awaitable_buffer_cas V i q buffer IBV_WR_ATOMIC_CMP_AND_SWP remote compare swp))"

definition op_recv_buffer :: "verbs \<Rightarrow> nat \<Rightarrow> qp \<Rightarrow> ptr \<times> size_t \<Rightarrow> (world, recv_awaitable) se" where
  "op_recv_buffer V i q buffer = make_recv_awaitable (recv_awaitable_buffer V i q buffer)"

section \<open>Operations on a registered region\<close>

definition op_send :: "nat \<Rightarrow> mr_view \<Rightarrow> (world, send_awaitable) se" where
  "op_send i local = make_send_awaitable (returnS (send_awaitable_view i local IBV_WR_SEND))"

definition op_write :: "nat \<Rightarrow> mr_view \<Rightarrow> mr_view \<Rightarrow> (world, send_awaitable) se" where
  "op_write i remote local =
     make_send_awaitable (returnS (send_awaitable_view_remote i local IBV_WR_RDMA_WRITE remote))"

definition op_write_with_imm :: "nat \<Rightarrow> mr_view \<Rightarrow> mr_view \<Rightarrow> u32 \<Rightarrow> (world, send_awaitable) se" where
  "op_write_with_imm i remote local imm =
     make_send_awaitable (returnS (send_awaitable_view_imm i local IBV_WR_RDMA_WRITE_WITH_IMM remote imm))"

definition op_read :: "nat \<Rightarrow> mr_view \<Rightarrow> mr_view \<Rightarrow> (world, send_awaitable) se" where
  "op_read i remote local =
     make_send_awaitable (returnS (send_awaitable_view_remote i local IBV_WR_RDMA_READ remote))"

definition op_fetch_and_add ::
  "nat \<Rightarrow> qp \<Rightarrow> mr_view \<Rightarrow> mr_view \<Rightarrow> u64 \<Rightarrow> (world, send_awaitable) se" where
  "op_fetch_and_add i q remote local add =
     (if \<not> is_fetch_and_add_supported (pd_device (qp_pd q))
      then throwS (Assert_failed ''pd_->device_ptr()->is_fetch_and_add_supported()'')
      else make_send_awaitable
        (returnS (send_awaitable_view_add i local IBV_WR_ATOMIC_FETCH_AND_ADD remote add)))"

definition op_compare_and_swap ::
  "nat \<Rightarrow> qp \<Rightarrow> mr_view \<Rightarrow> mr_view \<Rightarrow> u64 \<Rightarrow> u64 \<Rightarrow> (world, send_awaitable) se" where
  "op_compare_and_swap i q remote local compare swp =
     (if \<not> is_compare_and_swap_supported (pd_device (qp_pd q))
      then throwS (Assert_failed ''pd_->device_ptr()->is_compare_and_swap_supported()'')
      else make_send_awaitable
        (returnS (send_awaitable_view_cas i local IBV_WR_ATOMIC_CMP_AND_SWP remote compare swp)))"

definition op_recv :: "nat \<Rightarrow> mr_view \<Rightarrow> (world, recv_awaitable) se" where
  "op_recv i local = make_recv_awaitable (returnS (recv_awaitable_view i local))"

text \<open>\<open>recv()\<close> without a buffer.\<close>

definition op_recv_none :: "nat \<Rightarrow> (world, recv_awaitable) se" where
  "op_recv_none i = make_recv_awaitable (returnS (recv_awaitable_view i mr_view_empty))"

section \<open>Awaiting an operation\<close>

text \<open>
  \<open>co_await\<close> on the native awaitables: a coroutine that stays suspended is resumed by the
  poller after it stored the completion \<open>wc\<close> of the request in the operation state
  (\<open>execute_callback\<close> in the theory on the executor); one that was not suspended goes on at once.
\<close>

definition co_await_send ::
  "verbs \<Rightarrow> qp_heap \<Rightarrow> u64 \<Rightarrow> nat \<Rightarrow> ibv_wc \<Rightarrow> send_awaitable \<Rightarrow> (world, u32) se" where
  "co_await_send V heap addr h wc a =
     (if sa_await_ready a then sa_await_resume V a
      else bindS (sa_await_suspend V heap addr h a) (\<lambda>(suspended, a).
        if suspended then sa_await_resume V (a\<lparr>sa_state := set_from_wc wc (sa_state a)\<rparr>)
        else sa_await_resume V a))"

definition co_await_recv ::
  "verbs \<Rightarrow> qp_heap \<Rightarrow> u64 \<Rightarrow> nat \<Rightarrow> ibv_wc \<Rightarrow> recv_awaitable \<Rightarrow> (world, u32 \<times> u32 option) se" where
  "co_await_recv V heap addr h wc a =
     (if ra_await_ready a then ra_await_resume V a
      else bindS (ra_await_suspend V heap addr h a) (\<lambda>(suspended, a).
        if suspended then ra_await_resume V (a\<lparr>ra_state := set_from_wc wc (ra_state a)\<rparr>)
        else ra_await_resume V a))"

section \<open>What a caller asks for\<close>

text \<open>
  The specification of the send side: a request with its operands, the work request that
  carries it out, when it may be asked for, and the value it should give.
\<close>

datatype request =
    R_send
  | R_write mr_view
  | R_write_with_imm mr_view u32
  | R_read mr_view
  | R_fetch_and_add mr_view u64
  | R_compare_and_swap mr_view u64 u64

fun issue :: "nat \<Rightarrow> qp \<Rightarrow> request \<Rightarrow> mr_view \<Rightarrow> (world, send_awaitable) se" where
  "issue i q R_send v = op_send i v"
| "issue i q (R_write remote) v = op_write i remote v"
| "issue i q (R_write_with_imm remote imm) v = op_write_with_imm i remote v imm"
| "issue i q (R_read remote) v = op_read i remote v"
| "issue i q (R_fetch_and_add remote add) v = op_fetch_and_add i q remote v add"
| "issue i q (R_compare_and_swap remote compare swp) v = op_compare_and_swap i q remote v compare swp"

fun issue_buffer :: "verbs \<Rightarrow> nat \<Rightarrow> qp \<Rightarrow> request \<Rightarrow> ptr \<times> size_t \<Rightarrow> (world, send_awaitable) se" where
  "issue_buffer V i q R_send b = op_send_buffer V i q b"
| "issue_buffer V i q (R_write remote) b = op_write_buffer V i q remote b"
| "issue_buffer V i q (R_write_with_imm remote imm) b = op_write_with_imm_buffer V i q remote b imm"
| "issue_buffer V i q (R_read remote) b = op_read_buffer V i q remote b"
| "issue_buffer V i q (R_fetch_and_add remote add) b = op_fetch_and_add_buffer V i q remote b add"
| "issue_buffer V i q (R_compare_and_swap remote compare swp) b =
     op_compare_and_swap_buffer V i q remote b compare swp"

fun wr_of :: "request \<Rightarrow> ibv_sge \<Rightarrow> u64 \<Rightarrow> ibv_send_wr" where
  "wr_of R_send sge n = \<lparr>swr_id = n, swr_sg_list = [sge], swr_opcode = IBV_WR_SEND,
     swr_send_flags = {IBV_SEND_SIGNALED}, swr_imm_data = 0, swr_wr = Wr_zero\<rparr>"
| "wr_of (R_write r) sge n = \<lparr>swr_id = n, swr_sg_list = [sge], swr_opcode = IBV_WR_RDMA_WRITE,
     swr_send_flags = {IBV_SEND_SIGNALED}, swr_imm_data = 0, swr_wr = Wr_rdma (view_addr r) (view_key r)\<rparr>"
| "wr_of (R_write_with_imm r imm) sge n = \<lparr>swr_id = n, swr_sg_list = [sge],
     swr_opcode = IBV_WR_RDMA_WRITE_WITH_IMM, swr_send_flags = {IBV_SEND_SIGNALED},
     swr_imm_data = imm, swr_wr = Wr_rdma (view_addr r) (view_key r)\<rparr>"
| "wr_of (R_read r) sge n = \<lparr>swr_id = n, swr_sg_list = [sge], swr_opcode = IBV_WR_RDMA_READ,
     swr_send_flags = {IBV_SEND_SIGNALED}, swr_imm_data = 0, swr_wr = Wr_rdma (view_addr r) (view_key r)\<rparr>"
| "wr_of (R_fetch_and_add r x) sge n = \<lparr>swr_id = n, swr_sg_list = [sge],
     swr_opcode = IBV_WR_ATOMIC_FETCH_AND_ADD, swr_send_flags = {IBV_SEND_SIGNALED},
     swr_imm_data = 0, swr_wr = Wr_atomic (view_addr r) (view_key r) x 0\<rparr>"
| "wr_of (R_compare_and_swap r x y) sge n = \<lparr>swr_id = n, swr_sg_list = [sge],
     swr_opcode = IBV_WR_ATOMIC_CMP_AND_SWP, swr_send_flags = {IBV_SEND_SIGNALED},
     swr_imm_data = 0, swr_wr = Wr_atomic (view_addr r) (view_key r) x y\<rparr>"

fun legal :: "qp \<Rightarrow> request \<Rightarrow> bool" where
  "legal q R_send = True"
| "legal q (R_write r) = (view_addr r \<noteq> nullptr)"
| "legal q (R_write_with_imm r _) = (view_addr r \<noteq> nullptr)"
| "legal q (R_read r) = (view_addr r \<noteq> nullptr)"
| "legal q (R_fetch_and_add r _) = (view_addr r \<noteq> nullptr \<and> is_fetch_and_add_supported (pd_device (qp_pd q)))"
| "legal q (R_compare_and_swap r _ _) =
     (view_addr r \<noteq> nullptr \<and> is_compare_and_swap_supported (pd_device (qp_pd q)))"

fun value_of :: "request \<Rightarrow> mr_view \<Rightarrow> ibv_wc \<Rightarrow> u32" where
  "value_of R_send v wc = 0"
| "value_of (R_write _) v wc = ucast (view_length v)"
| "value_of (R_write_with_imm _ _) v wc = ucast (view_length v)"
| "value_of (R_read _) v wc = wc_byte_len wc"
| "value_of (R_fetch_and_add _ _) v wc = wc_byte_len wc"
| "value_of (R_compare_and_swap _ _ _) v wc = wc_byte_len wc"

section \<open>The work request of each operation\<close>

lemmas ctor_defs = send_awaitable_mk_def send_awaitable_view_def send_awaitable_view_remote_def
  send_awaitable_view_imm_def send_awaitable_view_add_def send_awaitable_view_cas_def

lemmas buffer_defs = send_awaitable_buffer_def send_awaitable_buffer_remote_def
  send_awaitable_buffer_imm_def send_awaitable_buffer_add_def send_awaitable_buffer_cas_def

lemmas op_defs = op_send_def op_write_def op_write_with_imm_def op_read_def op_fetch_and_add_def
  op_compare_and_swap_def op_recv_def op_recv_none_def

lemmas op_buffer_defs = op_send_buffer_def op_write_buffer_def op_write_with_imm_buffer_def
  op_read_buffer_def op_fetch_and_add_buffer_def op_compare_and_swap_buffer_def op_recv_buffer_def

fun request_union :: "request \<Rightarrow> sa_union" where
  "request_union (R_write_with_imm _ imm) = Union_imm imm"
| "request_union (R_fetch_and_add _ x) = Union_atomic x None"
| "request_union (R_compare_and_swap _ x y) = Union_atomic x (Some y)"
| "request_union _ = Union_unset"

fun request_remote :: "request \<Rightarrow> mr_view" where
  "request_remote R_send = mr_view_empty"
| "request_remote (R_write r) = r"
| "request_remote (R_write_with_imm r _) = r"
| "request_remote (R_read r) = r"
| "request_remote (R_fetch_and_add r _) = r"
| "request_remote (R_compare_and_swap r _ _) = r"

fun request_opcode :: "request \<Rightarrow> ibv_wr_opcode" where
  "request_opcode R_send = IBV_WR_SEND"
| "request_opcode (R_write _) = IBV_WR_RDMA_WRITE"
| "request_opcode (R_write_with_imm _ _) = IBV_WR_RDMA_WRITE_WITH_IMM"
| "request_opcode (R_read _) = IBV_WR_RDMA_READ"
| "request_opcode (R_fetch_and_add _ _) = IBV_WR_ATOMIC_FETCH_AND_ADD"
| "request_opcode (R_compare_and_swap _ _ _) = IBV_WR_ATOMIC_CMP_AND_SWP"

definition made :: "nat \<Rightarrow> request \<Rightarrow> local_mr option \<Rightarrow> mr_view \<Rightarrow> send_awaitable" where
  "made i r owned v = send_awaitable_mk i owned v (request_remote r) (request_union r) (request_opcode r)"

lemma issue_made: "legal q r \<Longrightarrow> issue i q r v w = (Inr (made i r None v), w)"
  by (cases r) (simp_all add: made_def op_defs ctor_defs make_send_awaitable_def noexceptS_def se_defs)

lemma build_made: "legal q r \<Longrightarrow> build_send_wr ((made i r m v)\<lparr>sa_state := st\<rparr>) n = Inr (wr_of r (fill_local_sge v) n)"
  if "op_wr_opcode st = Some (request_opcode r)" for st
  using that
  by (cases r) (simp_all add: made_def send_awaitable_mk_def operation_state_send_def build_send_wr_def
      remote_part_def is_rdma_def is_atomic_def union_imm_def union_compare_add_def union_swap_def
      mr_view_rkey_def Let_def)

definition posted :: "nat \<Rightarrow> request \<Rightarrow> local_mr option \<Rightarrow> mr_view \<Rightarrow> nat \<Rightarrow> send_awaitable" where
  "posted i r owned v h = (made i r owned v)\<lparr>sa_state := (operation_state_send (request_opcode r))
     \<lparr>op_coro_handle := h, op_byte_len := (case r of R_write _ \<Rightarrow> ucast (view_length v)
        | R_write_with_imm _ _ \<Rightarrow> ucast (view_length v) | R_read _ \<Rightarrow> ucast (view_length v) | _ \<Rightarrow> 0)\<rparr>\<rparr>"

lemma made_state:
  "(made i r m v)\<lparr>sa_state := (sa_state (made i r m v))\<lparr>op_coro_handle := h\<rparr>\<rparr> =
     (made i r m v)\<lparr>sa_state := (operation_state_send (request_opcode r))\<lparr>op_coro_handle := h\<rparr>\<rparr>"
  by (simp add: made_def send_awaitable_mk_def)

lemma suspend_made:
  assumes "legal q r"
  shows "sa_await_suspend V heap addr h (made i r m v) w =
    (case heap i of
       None \<Rightarrow> (Inr (False, (posted i r m v h)
                 \<lparr>sa_exception := Some (Runtime_error ''post_send: qp expired, use_count=0'')\<rparr>), w)
     | Some q' \<Rightarrow>
        (let c = Post_send (qp_qp q') (wr_of r (fill_local_sge v) addr); rc = v_rc V (calls w) c in
         (Inr (if rc = 0 then (True, posted i r m v h)
               else (False, (posted i r m v h)\<lparr>sa_exception :=
                  Some (failure (format_error ''failed to post send'' (v_strerror V rc) ''rc'' rc))\<rparr>)),
          record_call c w)))"
proof -
  let ?a = "(made i r m v)\<lparr>sa_state := (operation_state_send (request_opcode r))\<lparr>op_coro_handle := h\<rparr>\<rparr>"
  have sg: "swr_sg_list (wr_of r (fill_local_sge v) addr) \<noteq> []" by (cases r) simp_all
  have build: "build_send_wr ?a addr = Inr (wr_of r (fill_local_sge v) addr)"
    using assms by (simp add: build_made operation_state_send_def)
  have next_a: "(if is_rdma ?a then ?a\<lparr>sa_state := (sa_state ?a)\<lparr>op_byte_len := ucast (view_length (sa_local_view ?a))\<rparr>\<rparr>
      else ?a) = posted i r m v h"
    by (cases r) (simp_all add: is_rdma_def posted_def made_def send_awaitable_mk_def operation_state_send_def)
  have qp: "sa_qp (posted i r m v h) = i" by (simp add: posted_def made_def send_awaitable_mk_def)
  show ?thesis
    unfolding sa_await_suspend_def made_state sa_suspend_def liftS_def bindS_def build next_a Let_def
    using sg by (simp add: qp se_defs se_simps qp_post_send_def failure_def split: option.split)
qed

lemma issue_illegal:
  "\<not> legal q r \<Longrightarrow> \<exists>t. bindS (issue i q r v) (co_await_send V heap addr h wc) w = (Inl (Assert_failed t), w)"
  by (cases r)
    (auto simp: op_defs ctor_defs make_send_awaitable_def noexceptS_def se_defs co_await_send_def
      sa_await_ready_def sa_await_suspend_def sa_suspend_def build_send_wr_def remote_part_def
      operation_state_send_def is_rdma_def is_atomic_def)

lemma resume_posted [simp]:
  "sa_exception (posted i r m v h) = None"
  "sa_state ((posted i r m v h)\<lparr>sa_state := st\<rparr>) = st"
  by (simp_all add: posted_def made_def send_awaitable_mk_def)

lemma byte_len_posted:
  "op_byte_len (set_from_wc wc (sa_state (posted i r m v h))) = value_of r v wc"
  "op_wc_status (set_from_wc wc (sa_state (posted i r m v h))) = wc_status wc"
  by (cases r; simp add: posted_def made_def send_awaitable_mk_def set_from_wc_def
      operation_state_send_def Let_def)+

lemma co_await_made:
  assumes "legal q r"
  shows "co_await_send V heap addr h wc (made i r m v) w =
    (case heap i of
       None \<Rightarrow> (Inl (Runtime_error ''post_send: qp expired, use_count=0''), w)
     | Some q' \<Rightarrow>
        (let c = Post_send (qp_qp q') (wr_of r (fill_local_sge v) addr); rc = v_rc V (calls w) c in
         (if rc \<noteq> 0 then Inl (failure (format_error ''failed to post send'' (v_strerror V rc) ''rc'' rc))
          else if wc_status wc \<noteq> IBV_WC_SUCCESS
          then Inl (failure (format_error ''failed to send'' (wc_status_name (wc_status wc)) ''status''
                 (v_wc_code V (wc_status wc))))
          else Inr (value_of r v wc), record_call c w)))"
  unfolding co_await_send_def bindS_def suspend_made [OF assms]
  by (simp add: sa_await_ready_def sa_await_resume_def sa_resume_def se_defs se_simps Let_def byte_len_posted
      split: option.split)

section \<open>Properties of the send side\<close>

text \<open>
  C2: an awaited send, write, read or atomic operation, on every branch. An operand the
  code rules out (a null remote view, an atomic on a device without atomics) fails an
  assertion before anything is posted. A queue pair that is gone when the operation
  is awaited gives a runtime error and nothing is posted. Otherwise exactly one request
  is posted, the one its operands describe, signalled, with one scatter entry for the
  local view and its own operation state as id; a failed post or a
  failed completion is a runtime error, and a successful one gives the bytes of the
  local view for a write, the bytes of the completion for a read or an atomic, and 0
  for a send. No branch reads a member of the operand union that was not written.
\<close>

theorem send_operation_outcome:
  "let (r, w') = bindS (issue i q req v) (co_await_send V heap addr h wc) w in
   if \<not> legal q req then (\<exists>t. r = Inl (Assert_failed t)) \<and> w' = w
   else case heap i of
     None \<Rightarrow> r = Inl (Runtime_error ''post_send: qp expired, use_count=0'') \<and> w' = w
   | Some q' \<Rightarrow>
      (let c = Post_send (qp_qp q') (wr_of req \<lparr>sge_addr = view_addr v,
                 sge_length = ucast (view_length v), sge_lkey = view_key v\<rparr> addr) in
       calls w' = calls w @ [c] \<and>
       (if v_rc V (calls w) c = 0 \<and> wc_status wc = IBV_WC_SUCCESS then r = Inr (value_of req v wc)
        else \<exists>t. r = Inl (Runtime_error t)))"
proof (cases "legal q req")
  case False
  with issue_illegal [OF this, of i v V heap addr h wc w] show ?thesis by auto
next
  case True
  have sge: "fill_local_sge v = \<lparr>sge_addr = view_addr v, sge_length = ucast (view_length v),
      sge_lkey = view_key v\<rparr>"
    by (simp add: fill_local_sge_def mr_view_lkey_def)
  have "bindS (issue i q req v) (co_await_send V heap addr h wc) w =
      co_await_send V heap addr h wc (made i req None v) w"
    by (simp add: bindS_def issue_made [OF True])
  then show ?thesis
    using True by (simp add: co_await_made [OF True] sge Let_def failure_def split: option.split)
qed

subsection \<open>Operations on a buffer\<close>

definition whole_view :: "verbs \<Rightarrow> ptr \<times> size_t \<Rightarrow> world \<Rightarrow> mr_view" where
  "whole_view V buffer w = \<lparr>view_addr = fst buffer, view_length = snd buffer, view_key = fst (v_keys V (calls w))\<rparr>"

definition reg_call :: "qp \<Rightarrow> ptr \<times> size_t \<Rightarrow> vcall" where
  "reg_call q buffer = Reg_mr (pd_pd (qp_pd q)) (fst buffer) (snd buffer) reg_mr_default_flags"

definition new_region :: "verbs \<Rightarrow> qp \<Rightarrow> ptr \<times> size_t \<Rightarrow> world \<Rightarrow> local_mr" where
  "new_region V q buffer w = local_mr_ctor (pd_pd (qp_pd q))
     \<lparr>mr_handle = v_ptr V (calls w) (reg_call q buffer), mr_addr = fst buffer, mr_length = snd buffer,
      mr_lkey = fst (v_keys V (calls w)), mr_rkey = snd (v_keys V (calls w))\<rparr>"

lemma with_buffer_apply:
  "\<exists>t. with_buffer V q buffer f w =
     (if v_ptr V (calls w) (reg_call q buffer) = nullptr
      then (Inl (Runtime_error t), record_call (reg_call q buffer) w)
      else (Inr (f (new_region V q buffer w) (whole_view V buffer w)), record_call (reg_call q buffer) w))"
  by (auto simp: with_buffer_def reg_mr_def reg_call_def new_region_def whole_view_def local_mr_ctor_def
      mr_view_local_def local_mr_deref_def se_defs se_simps failure_def Let_def whole_length_def
      min.absorb2 split: prod.split)

lemma issue_buffer_made:
  assumes "legal q r"
  shows "issue_buffer V i q r b w =
    (if v_ptr V (calls w) (reg_call q b) = nullptr
     then (Inl (Terminated ''make_send_awaitable''), record_call (reg_call q b) w)
     else (Inr (made i r (Some (new_region V q b w)) (whole_view V b w)), record_call (reg_call q b) w))"
proof -
  have *: "\<exists>t. with_buffer V q b f w =
     (if v_ptr V (calls w) (reg_call q b) = nullptr
      then (Inl (Runtime_error t), record_call (reg_call q b) w)
      else (Inr (f (new_region V q b w) (whole_view V b w)), record_call (reg_call q b) w))" for f
    by (rule with_buffer_apply)
  have run: "noexceptS ''make_send_awaitable'' (with_buffer V q b f) w =
     (if v_ptr V (calls w) (reg_call q b) = nullptr
      then (Inl (Terminated ''make_send_awaitable''), record_call (reg_call q b) w)
      else (Inr (f (new_region V q b w) (whole_view V b w)), record_call (reg_call q b) w))" for f
    using * [of f] by (auto simp: noexceptS_def se_defs)
  show ?thesis
    using assms
    by (cases r) (simp_all add: op_buffer_defs buffer_defs make_send_awaitable_def run made_def)
qed

text \<open>
  C13: an operation on a buffer is the registration of the buffer followed by the same
  operation on a view of the whole region: the awaitable it makes behaves, whenever it is
  awaited, exactly as the one made from that view, and it owns the region, which its
  destruction deregisters. When registration fails, though, the exception meets the
  \<open>noexcept\<close> of the factory, and the process is terminated.
\<close>

theorem buffer_operation_equiv:
  assumes "legal q req"
  shows "let c = Reg_mr (pd_pd (qp_pd q)) (fst b) (snd b) reg_mr_default_flags; h = v_ptr V (calls w) c;
             (r, w') = issue_buffer V i q req b w in
         calls w' = calls w @ [c] \<and>
         (if h = nullptr then r = Inl (Terminated ''make_send_awaitable'')
          else \<exists>a m. r = Inr a \<and> sa_local_mr a = Some m \<and>
            (\<forall>w2. local_mr_dtor V m w2 = (Inr (), record_call (Dereg_mr h) w2)) \<and>
            (\<forall>heap addr hd wc w2. co_await_send V heap addr hd wc a w2 =
               bindS (issue i q req \<lparr>view_addr = fst b, view_length = snd b, view_key = fst (v_keys V (calls w))\<rparr>)
                 (co_await_send V heap addr hd wc) w2))"
proof -
  have same: "co_await_send V heap addr hd wc (made i req m v) w2 =
      bindS (issue i q req v) (co_await_send V heap addr hd wc) w2" for m v heap addr hd wc w2
    by (simp add: bindS_def issue_made [OF assms] co_await_made [OF assms])
  show ?thesis
    using same [where m = "Some (new_region V q b w)" and v = "whole_view V b w"]
    by (auto simp: Let_def issue_buffer_made [OF assms] reg_call_def whole_view_def made_def
        send_awaitable_mk_def new_region_def local_mr_ctor_def local_mr_dtor_def se_defs se_simps)
qed

definition sample_qp :: qp where
  "sample_qp = blank_qp\<lparr>qp_pd := sample_pd\<lparr>pd_device := blank_device\<lparr>dev_atomic := True\<rparr>\<rparr>\<rparr>"

definition sample_remote :: mr_view where
  "sample_remote = mr_view_ctor 65536 8 9"

theorem buffer_operation_equiv_witness:
  "\<exists>a m. fst (issue_buffer quiet_verbs 0 sample_qp (R_compare_and_swap sample_remote 5 6) (512, 8) fresh_world) = Inr a \<and>
     sa_local_mr a = Some m \<and>
     local_mr_dtor quiet_verbs m fresh_world = (Inr (), record_call (Dereg_mr 4096) fresh_world)"
proof -
  have "legal sample_qp (R_compare_and_swap sample_remote 5 6)"
    by (simp add: sample_qp_def sample_remote_def mr_view_ctor_def is_compare_and_swap_supported_def)
  from buffer_operation_equiv [OF this, where V = quiet_verbs and b = "(512, 8)" and w = fresh_world and i = 0]
  show ?thesis
    by (auto simp: Let_def quiet_verbs_def fresh_world_def split: prod.splits)
qed

section \<open>Properties of the receive side\<close>

text \<open>
  C12: an awaited receive, on every branch. A queue pair that is gone gives a runtime
  error and nothing is posted. Otherwise exactly one request is posted, to the shared
  receive queue if the queue pair uses one, with one scatter entry for the view or none for
  the null view that \<open>recv()\<close> passes; a failed post or completion is a runtime error, and
  a successful one gives the received length, with the immediate value exactly when the
  completion carries one.
\<close>

theorem recv_operation_outcome:
  "let (r, w') = bindS (op_recv i v) (co_await_recv V heap addr h wc) w in
   case heap i of
     None \<Rightarrow> r = Inl (Runtime_error ''post_recv: qp expired, use_count=0'') \<and> w' = w
   | Some q \<Rightarrow>
      (let wr = \<lparr>rwr_id = addr, rwr_sg_list = (if view_addr v = nullptr then []
                  else [\<lparr>sge_addr = view_addr v, sge_length = ucast (view_length v), sge_lkey = view_key v\<rparr>])\<rparr>;
           c = (case qp_post_recv_fn q of Recv_rq \<Rightarrow> Post_recv (qp_qp q) wr
                | Recv_srq \<Rightarrow> Post_srq_recv (qp_raw_srq q) wr) in
       calls w' = calls w @ [c] \<and>
       (if v_rc V (calls w) c = 0 \<and> wc_status wc = IBV_WC_SUCCESS
        then r = Inr (wc_byte_len wc,
               if wc_flags wc AND v_wc_with_imm V = 0 then None else Some (wc_imm_data wc))
        else \<exists>t. r = Inl (Runtime_error t)))"
  by (auto simp: op_recv_def make_recv_awaitable_def noexceptS_def se_defs se_simps co_await_recv_def
      ra_await_ready_def ra_await_suspend_def ra_suspend_def recv_awaitable_view_def build_recv_wr_def
      mr_view_bool_def fill_local_sge_def mr_view_lkey_def qp_post_recv_def qp_post_recv_rq_def
      qp_post_recv_srq_def ra_await_resume_def ra_resume_def set_from_wc_def operation_state_recv_def
      failure_def Let_def split: option.split post_recv_target.split prod.splits)

text \<open>\<open>recv()\<close> without a buffer is \<open>recv\<close> of the null view.\<close>

lemma op_recv_none_eq: "op_recv_none i = op_recv i mr_view_empty"
  by (simp add: op_recv_none_def op_recv_def)

end

