(* ===== verification/Executor.thy ===== *)
theory Executor
  imports Operations
begin

text \<open>
  \<^verbatim>\<open>include/rdmapp/executor.h\<close>, \<^verbatim>\<open>src/executor.cc\<close>: the callbacks a completion is
  delivered to, their allocation and release, and the processing of a batch of completions,
  for both completion tokens. A closure is a value of type \<open>'c\<close>, and \<open>run\<close> is its call operator;
  the log lines of \<open>RDMAPP_BUILD_DEBUG\<close> builds are left out.
\<close>

section \<open>Callbacks\<close>

text \<open>The live \<open>std::function\<close> objects by address, and everything else the closures work on.\<close>

record ('c, 's) exec =
  ex_callbacks :: "u64 \<Rightarrow> 'c option"
  ex_env :: 's

text \<open>
  \<open>new (std::nothrow)\<close> is the parameter \<open>alloc\<close>, applied to the addresses in use; null is
  failure, and so is the address of a live object, which the allocator never returns.
\<close>

definition operator_new :: "((u64 \<Rightarrow> bool) \<Rightarrow> u64) \<Rightarrow> (u64 \<Rightarrow> bool) \<Rightarrow> u64" where
  "operator_new alloc live = (let p = alloc live in if live p then 0 else p)"

definition make_callback :: "((u64 \<Rightarrow> bool) \<Rightarrow> u64) \<Rightarrow> 'c \<Rightarrow> (('c, 's) exec, u64) se" where
  "make_callback alloc cb = bindS getS (\<lambda>s.
     let p = operator_new alloc (\<lambda>a. ex_callbacks s a \<noteq> None) in
     if p = 0 then throwS (Runtime_error ''executor: out of memory for callback'')
     else thenS (modifyS (\<lambda>s. s\<lparr>ex_callbacks := (ex_callbacks s)(p \<mapsto> cb)\<rparr>)) (returnS p))"

text \<open>\<open>delete cb\<close>: nothing for null, undefined behaviour for anything not live.\<close>

definition destroy_callback :: "u64 \<Rightarrow> (('c, 's) exec, unit) se" where
  "destroy_callback cb = bindS getS (\<lambda>s.
     if cb = 0 then returnS ()
     else if ex_callbacks s cb = None then throwS (Undefined_behaviour ''delete of a dead callback'')
     else modifyS (\<lambda>s. s\<lparr>ex_callbacks := (ex_callbacks s)(cb := None)\<rparr>))"

definition execute_callback_asio ::
  "('c \<Rightarrow> ibv_wc \<Rightarrow> (('c, 's) exec, unit) se) \<Rightarrow> ibv_wc \<Rightarrow> (('c, 's) exec, unit) se" where
  "execute_callback_asio run wc = noexceptS ''execute_callback'' (bindS getS (\<lambda>s.
     case ex_callbacks s (wc_wr_id wc) of
       None \<Rightarrow> throwS (Undefined_behaviour ''call of a dead callback'')
     | Some cb \<Rightarrow> thenS (run cb wc) (destroy_callback (wc_wr_id wc))))"

text \<open>
  With the native token the work request id is the address of an operation state, and
  \<open>resume\<close> is \<open>coro_handle.resume()\<close>.
\<close>

record 's native =
  nt_states :: "u64 \<Rightarrow> operation_state option"
  nt_env :: 's

definition execute_callback_native ::
  "(nat \<Rightarrow> ('s native, unit) se) \<Rightarrow> ibv_wc \<Rightarrow> ('s native, unit) se" where
  "execute_callback_native resume wc = noexceptS ''execute_callback'' (bindS getS (\<lambda>s.
     case nt_states s (wc_wr_id wc) of
       None \<Rightarrow> throwS (Undefined_behaviour ''dead operation_state'')
     | Some st \<Rightarrow>
         thenS (modifyS (\<lambda>s. s\<lparr>nt_states := (nt_states s)(wc_wr_id wc \<mapsto> set_from_wc wc st)\<rparr>))
           (resume (op_coro_handle (set_from_wc wc st)))))"

text \<open>The loop of \<open>process_wc\<close>, over \<open>execute_callback\<close> of the token.\<close>

fun process_each :: "(ibv_wc \<Rightarrow> ('s, unit) se) \<Rightarrow> ibv_wc list \<Rightarrow> ('s, unit) se" where
  "process_each exec [] = returnS ()"
| "process_each exec (w # wc) = thenS (exec w) (process_each exec wc)"

definition process_wc :: "(ibv_wc \<Rightarrow> ('s, unit) se) \<Rightarrow> ibv_wc list \<Rightarrow> ('s, unit) se" where
  "process_wc exec wc = noexceptS ''process_wc'' (process_each exec wc)"

section \<open>What a callback promises the executor\<close>

text \<open>
  A closure that is called with a completion it accepts returns, and neither frees nor
  replaces the callbacks that are waiting, its own included; it may allocate new ones.
\<close>

definition keeps_callbacks :: "('c, 's) exec \<Rightarrow> ('c, 's) exec \<Rightarrow> bool" where
  "keeps_callbacks s t \<longleftrightarrow> (\<forall>a. ex_callbacks s a \<noteq> None \<longrightarrow> ex_callbacks t a = ex_callbacks s a)"

lemma keeps_refl [simp]: "keeps_callbacks s s"
  by (simp add: keeps_callbacks_def)

lemma keeps_trans: "keeps_callbacks s t \<Longrightarrow> keeps_callbacks t u \<Longrightarrow> keeps_callbacks s u"
  unfolding keeps_callbacks_def by metis

lemma keepsD: "keeps_callbacks s t \<Longrightarrow> ex_callbacks s a = Some c \<Longrightarrow> ex_callbacks t a = Some c"
  by (metis keeps_callbacks_def option.distinct(1))

lemma keeps_env [simp]: "keeps_callbacks s (s\<lparr>ex_env := e\<rparr>)" "keeps_callbacks s (ex_env_update f s)"
  by (simp_all add: keeps_callbacks_def)

text \<open>
  A batch whose ids are distinct addresses of live closures, each accepting
  its completion: every closure is called with its completion, none twice, and no
  call or release touches a dead callback. Afterwards the callbacks that were
  not in the batch are still waiting.
\<close>

fun batch_ready :: "('c \<Rightarrow> ibv_wc \<Rightarrow> ('c, 's) exec \<Rightarrow> bool) \<Rightarrow> ('c, 's) exec \<Rightarrow> ibv_wc list \<Rightarrow> bool" where
  "batch_ready accepts s [] = True"
| "batch_ready accepts s (w # ws) = (wc_wr_id w \<noteq> 0 \<and> wc_wr_id w \<notin> wc_wr_id ` set ws \<and>
     (case ex_callbacks s (wc_wr_id w) of None \<Rightarrow> False
      | Some cb \<Rightarrow> accepts cb w s) \<and>
     batch_ready accepts s ws)"

locale callback_code =
  fixes run :: "'c \<Rightarrow> ibv_wc \<Rightarrow> (('c, 's) exec, unit) se"
    and accepts :: "'c \<Rightarrow> ibv_wc \<Rightarrow> ('c, 's) exec \<Rightarrow> bool"
  assumes run_returns: "accepts cb wc s \<Longrightarrow> \<exists>t. run cb wc s = (Inr (), t)"
    and run_keeps: "accepts cb wc s \<Longrightarrow> run cb wc s = (Inr (), t) \<Longrightarrow> keeps_callbacks s t"
    and accepts_later: "accepts cb wc s \<Longrightarrow> accepts cb' wc' s \<Longrightarrow> run cb' wc' s = (Inr (), t) \<Longrightarrow>
      accepts cb wc t"
    and accepts_any_heap: "accepts cb wc s \<Longrightarrow> accepts cb wc (s\<lparr>ex_callbacks := H\<rparr>)"
begin

lemma execute_runs:
  assumes "ex_callbacks s (wc_wr_id wc) = Some cb" and "accepts cb wc s" and "wc_wr_id wc \<noteq> 0"
  shows "\<exists>t. run cb wc s = (Inr (), t) \<and> keeps_callbacks s t \<and>
     execute_callback_asio run wc s = (Inr (), t\<lparr>ex_callbacks := (ex_callbacks t)(wc_wr_id wc := None)\<rparr>)"
proof -
  obtain t where t: "run cb wc s = (Inr (), t)" using run_returns assms(2) by blast
  then have k: "keeps_callbacks s t" using run_keeps assms(2) by blast
  then have "ex_callbacks t (wc_wr_id wc) = Some cb" using assms(1) by (rule keepsD)
  with t k assms show ?thesis
    by (simp add: execute_callback_asio_def destroy_callback_def noexceptS_def se_defs)
qed

lemma batch_ready_step:
  assumes "batch_ready accepts s ws" and "run cb w s = (Inr (), t)" and "keeps_callbacks s t"
    and "accepts cb w s" and "i \<notin> wc_wr_id ` set ws"
  shows "batch_ready accepts (t\<lparr>ex_callbacks := (ex_callbacks t)(i := None)\<rparr>) ws"
  using assms(1,5)
proof (induction ws)
  case Nil
  then show ?case by simp
next
  case (Cons x xs)
  obtain cx where cx: "ex_callbacks s (wc_wr_id x) = Some cx" "accepts cx x s"
    using Cons.prems(1) by (auto split: option.splits)
  have live: "\<exists>c. ex_callbacks s (wc_wr_id w') = Some c" if "w' \<in> set xs" for w'
    using Cons.prems(1) that by (induction xs) (auto split: option.splits)
  have same: "ex_callbacks t (wc_wr_id w') = ex_callbacks s (wc_wr_id w')" if "w' \<in> set xs" for w'
    using live [OF that] assms(3) keepsD by fastforce
  have acc: "accepts cx x (t\<lparr>ex_callbacks := H\<rparr>)" for H
    using accepts_later [OF cx(2) assms(4,2)] accepts_any_heap by blast
  have "ex_callbacks t (wc_wr_id x) = Some cx" using assms(3) cx(1) by (rule keepsD)
  then show ?case
    using Cons cx acc same by (auto split: option.splits)
qed

lemma process_batch:
  "batch_ready accepts s ws \<Longrightarrow> \<exists>t. process_each (execute_callback_asio run) ws s = (Inr (), t) \<and>
     (\<forall>a. a \<notin> wc_wr_id ` set ws \<and> ex_callbacks s a \<noteq> None \<longrightarrow> ex_callbacks t a = ex_callbacks s a)"
proof (induction ws arbitrary: s)
  case Nil
  then show ?case by (simp add: returnS_def)
next
  case (Cons w ws)
  obtain cb where cb: "ex_callbacks s (wc_wr_id w) = Some cb" "accepts cb w s" "wc_wr_id w \<noteq> 0"
    using Cons.prems by (auto split: option.splits)
  obtain t where t: "run cb w s = (Inr (), t)" "keeps_callbacks s t"
      "execute_callback_asio run w s = (Inr (), t\<lparr>ex_callbacks := (ex_callbacks t)(wc_wr_id w := None)\<rparr>)"
    using execute_runs [OF cb] by blast
  let ?t = "t\<lparr>ex_callbacks := (ex_callbacks t)(wc_wr_id w := None)\<rparr>"
  have "batch_ready accepts ?t ws"
    using Cons.prems cb(1,2) t(1,2) by (intro batch_ready_step) (auto split: option.splits)
  then obtain u where u: "process_each (execute_callback_asio run) ws ?t = (Inr (), u)"
      "\<And>a. a \<notin> wc_wr_id ` set ws \<Longrightarrow> ex_callbacks ?t a \<noteq> None \<Longrightarrow> ex_callbacks u a = ex_callbacks ?t a"
    using Cons.IH by blast
  have "ex_callbacks u a = ex_callbacks s a"
    if "a \<notin> wc_wr_id ` set (w # ws)" "ex_callbacks s a \<noteq> None" for a
    using u(2) [of a] that t(2) by (auto simp: keeps_callbacks_def)
  with t(3) u(1) show ?case by (auto simp: thenS_def bindS_def)
qed

end

end
