(* ===== verification/Asio_Op.thy ===== *)
theory Asio_Op
  imports Executor
begin

text \<open>
  The operations with the asio completion token (\<open>operator asio::awaitable\<close> of the two
  awaitables and \<open>complete\<close> in \<^verbatim>\<open>qp.cc\<close>, lines 469 to 564): what initiating an
  operation allocates and posts, what its callback does with the completion, and what
  a cancellation signal does. The asio library is not part of the repository: of a composed
  operation the model keeps what the code uses, that \<open>self.complete\<close> hands the result to the
  waiting coroutine and runs it until it suspends again (the parameter \<open>cont\<close>).
\<close>

section \<open>State\<close>

datatype awaitable = Send_aw send_awaitable | Recv_aw recv_awaitable

text \<open>The arguments of \<open>self->complete\<close>.\<close>

datatype completion = Sent "exn option" u32 | Received "exn option" "u32 \<times> u32 option"

text \<open>
  What the closures of one operation share through their shared pointers: the awaitable, the
  flag \<open>complete_called\<close>, and the composed operation \<open>self\<close>, of which the record keeps the
  results it was given. \<open>ao_slot\<close> tells whether the cancellation slot was connected.
\<close>

record asio_op =
  ao_awaitable :: awaitable
  ao_callback :: u64
  ao_complete_called :: bool
  ao_slot :: bool
  ao_completions :: "completion list"

datatype closure = Send_callback nat | Recv_callback nat

record asio =
  as_world :: world
  as_ops :: "asio_op list"

type_synonym asio_exec = "(closure, asio) exec"

type_synonym 'a asio_act = "(asio_exec, 'a) se"

definition op_at :: "asio_exec \<Rightarrow> nat \<Rightarrow> asio_op option" where
  "op_at s k = (let ops = as_ops (ex_env s) in if k < length ops then Some (ops ! k) else None)"

definition update_op :: "nat \<Rightarrow> (asio_op \<Rightarrow> asio_op) \<Rightarrow> asio_exec \<Rightarrow> asio_exec" where
  "update_op k f s = (case op_at s k of None \<Rightarrow> s
     | Some r \<Rightarrow> s\<lparr>ex_env := (ex_env s)\<lparr>as_ops := (as_ops (ex_env s))[k := f r]\<rparr>\<rparr>)"

definition new_op :: "awaitable \<Rightarrow> bool \<Rightarrow> nat asio_act" where
  "new_op a slot s = (Inr (length (as_ops (ex_env s))),
     s\<lparr>ex_env := (ex_env s)\<lparr>as_ops := as_ops (ex_env s) @
        [\<lparr>ao_awaitable = a, ao_callback = 0, ao_complete_called = False, ao_slot = slot,
          ao_completions = []\<rparr>]\<rparr>\<rparr>)"

definition in_world :: "(world, 'a) se \<Rightarrow> 'a asio_act" where
  "in_world m s = (case m (as_world (ex_env s)) of
     (r, w) \<Rightarrow> (r, s\<lparr>ex_env := (ex_env s)\<lparr>as_world := w\<rparr>\<rparr>))"

section \<open>Completing\<close>

definition self_complete :: "(nat \<Rightarrow> unit asio_act) \<Rightarrow> nat \<Rightarrow> completion \<Rightarrow> unit asio_act" where
  "self_complete cont k c =
     thenS (modifyS (update_op k (\<lambda>r. r\<lparr>ao_completions := ao_completions r @ [c]\<rparr>))) (cont k)"

text \<open>\<open>complete\<close> is \<open>noexcept\<close>, and \<open>resume\<close> throws for a failed completion.\<close>

definition complete :: "verbs \<Rightarrow> (nat \<Rightarrow> unit asio_act) \<Rightarrow> nat \<Rightarrow> unit asio_act" where
  "complete V cont k = noexceptS ''complete'' (bindS getS (\<lambda>s. case op_at s k of
     None \<Rightarrow> throwS (Undefined_behaviour ''no such operation'')
   | Some r \<Rightarrow> (case ao_awaitable r of
       Send_aw a \<Rightarrow> bindS (in_world (sa_resume V a)) (\<lambda>n.
         self_complete cont k (Sent (sa_unhandled_exception a) n))
     | Recv_aw a \<Rightarrow> bindS (in_world (ra_resume V a)) (\<lambda>n.
         self_complete cont k (Received (ra_unhandled_exception a) n)))))"

definition store_wc :: "ibv_wc \<Rightarrow> asio_op \<Rightarrow> asio_op" where
  "store_wc wc r = r\<lparr>ao_awaitable := (case ao_awaitable r of
     Send_aw a \<Rightarrow> Send_aw (a\<lparr>sa_state := set_from_wc wc (sa_state a)\<rparr>)
   | Recv_aw a \<Rightarrow> Recv_aw (a\<lparr>ra_state := set_from_wc wc (ra_state a)\<rparr>))\<rparr>"

text \<open>
  The two closures. \<open>complete_called->test_and_set\<close> is atomic; the steps of a receive that other
  threads can interleave with are taken apart in the last section.
\<close>

definition send_callback :: "verbs \<Rightarrow> (nat \<Rightarrow> unit asio_act) \<Rightarrow> nat \<Rightarrow> ibv_wc \<Rightarrow> unit asio_act" where
  "send_callback V cont k wc = thenS (modifyS (update_op k (store_wc wc))) (complete V cont k)"

definition recv_callback :: "verbs \<Rightarrow> (nat \<Rightarrow> unit asio_act) \<Rightarrow> nat \<Rightarrow> ibv_wc \<Rightarrow> unit asio_act" where
  "recv_callback V cont k wc = bindS getS (\<lambda>s. case op_at s k of
     None \<Rightarrow> throwS (Undefined_behaviour ''no such operation'')
   | Some r \<Rightarrow>
       if \<not> ao_complete_called r
       then thenS (modifyS (update_op k (\<lambda>r. r\<lparr>ao_complete_called := True\<rparr>)))
            (thenS (modifyS (update_op k (store_wc wc))) (complete V cont k))
       else returnS ())"

text \<open>The call operator of a closure.\<close>

fun run_closure :: "verbs \<Rightarrow> (nat \<Rightarrow> unit asio_act) \<Rightarrow> closure \<Rightarrow> ibv_wc \<Rightarrow> unit asio_act" where
  "run_closure V cont (Send_callback k) wc = send_callback V cont k wc"
| "run_closure V cont (Recv_callback k) wc = recv_callback V cont k wc"

section \<open>Initiating\<close>

definition initiate_send ::
  "verbs \<Rightarrow> qp_heap \<Rightarrow> ((u64 \<Rightarrow> bool) \<Rightarrow> u64) \<Rightarrow> send_awaitable \<Rightarrow> nat asio_act" where
  "initiate_send V heap alloc a =
     bindS (new_op (Send_aw a) False) (\<lambda>k.
     bindS (make_callback alloc (Send_callback k)) (\<lambda>cb.
     thenS (modifyS (update_op k (\<lambda>r. r\<lparr>ao_callback := cb\<rparr>)))
     (bindS (in_world (sa_suspend V heap cb a)) (\<lambda>(suspended, a).
     thenS (modifyS (update_op k (\<lambda>r. r\<lparr>ao_awaitable := Send_aw a\<rparr>)))
     (thenS (if \<not> suspended then destroy_callback cb else returnS ()) (returnS k))))))"

definition initiate_recv ::
  "verbs \<Rightarrow> qp_heap \<Rightarrow> ((u64 \<Rightarrow> bool) \<Rightarrow> u64) \<Rightarrow> bool \<Rightarrow> recv_awaitable \<Rightarrow> nat asio_act" where
  "initiate_recv V heap alloc slot a =
     bindS (new_op (Recv_aw a) slot) (\<lambda>k.
     bindS (make_callback alloc (Recv_callback k)) (\<lambda>cb.
     thenS (modifyS (update_op k (\<lambda>r. r\<lparr>ao_callback := cb\<rparr>)))
     (bindS (in_world (ra_suspend V heap cb a)) (\<lambda>(suspended, a).
     thenS (modifyS (update_op k (\<lambda>r. r\<lparr>ao_awaitable := Recv_aw a\<rparr>)))
     (thenS (if \<not> suspended then destroy_callback cb else returnS ()) (returnS k))))))"

section \<open>Cancelling a receive\<close>

text \<open>
  Once the initiating function has returned, only the callback holds a shared pointer to
  \<open>self\<close>: the weak pointer of the slot's handler can be locked as long as the callback lives.
\<close>

definition self_alive :: "asio_exec \<Rightarrow> nat \<Rightarrow> bool" where
  "self_alive s k = (case op_at s k of None \<Rightarrow> False
     | Some r \<Rightarrow> ex_callbacks s (ao_callback r) = Some (Recv_callback k))"

definition operation_aborted :: exn where
  "operation_aborted = System_error ''operation_aborted''"

definition recv_cancel :: "(nat \<Rightarrow> unit asio_act) \<Rightarrow> nat \<Rightarrow> bool \<Rightarrow> unit asio_act" where
  "recv_cancel cont k type_none = bindS getS (\<lambda>s. case op_at s k of
     None \<Rightarrow> returnS ()
   | Some r \<Rightarrow>
       if \<not> ao_slot r then returnS ()
       else if type_none then returnS ()
       else if ao_complete_called r then returnS ()
       else thenS (modifyS (update_op k (\<lambda>r. r\<lparr>ao_complete_called := True\<rparr>)))
         (if self_alive s k then self_complete cont k (Received (Some operation_aborted) (0, None))
          else returnS ()))"

section \<open>Evaluation\<close>

lemma op_at_update: "op_at (update_op k f s) j = (if j = k then map_option f (op_at s k) else op_at s j)"
  by (auto simp: op_at_def update_op_def Let_def)

lemma update_callbacks [simp]: "ex_callbacks (update_op k f s) = ex_callbacks s"
  by (simp add: update_op_def split: option.split)

lemma update_world [simp]: "as_world (ex_env (update_op k f s)) = as_world (ex_env s)"
  by (simp add: update_op_def split: option.split)

lemma op_at_callbacks [simp]: "op_at (s\<lparr>ex_callbacks := H\<rparr>) k = op_at s k"
  by (simp add: op_at_def)

lemma op_at_world [simp]: "op_at (s\<lparr>ex_env := (ex_env s)\<lparr>as_world := w\<rparr>\<rparr>) k = op_at s k"
  by (simp add: op_at_def)

lemma op_at_new:
  "op_at (snd (new_op a slot s)) j = (if j = length (as_ops (ex_env s))
     then Some \<lparr>ao_awaitable = a, ao_callback = 0, ao_complete_called = False, ao_slot = slot,
          ao_completions = []\<rparr> else op_at s j)"
  by (auto simp: op_at_def new_op_def nth_append)

lemma in_world_apply [se_simps]:
  "in_world m s = (fst (m (as_world (ex_env s))),
     s\<lparr>ex_env := (ex_env s)\<lparr>as_world := snd (m (as_world (ex_env s)))\<rparr>\<rparr>)"
  by (simp add: in_world_def split: prod.split)

lemma world_same [simp]: "s\<lparr>ex_env := (ex_env s)\<lparr>as_world := as_world (ex_env s)\<rparr>\<rparr> = s" for s :: asio_exec
  by simp

section \<open>The callbacks keep their promise to the executor\<close>

text \<open>What a coroutine may do to other operations: start new ones, and cancel receives.\<close>

definition grows :: "asio_exec \<Rightarrow> asio_exec \<Rightarrow> bool" where
  "grows s t \<longleftrightarrow> keeps_callbacks s t \<and>
     (\<forall>k r. op_at s k = Some r \<longrightarrow> (\<exists>r'. op_at t k = Some r' \<and> ao_awaitable r' = ao_awaitable r \<and>
        (ao_complete_called r \<longrightarrow> ao_complete_called r')))"

lemma grows_refl [simp]: "grows s s"
  by (simp add: grows_def)

lemma grows_trans: "grows s t \<Longrightarrow> grows t u \<Longrightarrow> grows s u"
  unfolding grows_def by (metis keeps_trans)

lemma growsD:
  assumes "grows s t" and "op_at s k = Some r"
  obtains r' where "op_at t k = Some r'" and "ao_awaitable r' = ao_awaitable r"
    and "ao_complete_called r \<Longrightarrow> ao_complete_called r'"
  using assms unfolding grows_def by blast

lemma keeps_same [simp]: "ex_callbacks t = ex_callbacks s \<Longrightarrow> keeps_callbacks s t"
  by (simp add: keeps_callbacks_def)

lemma update_other: "j \<noteq> k \<Longrightarrow> op_at (update_op k f s) j = op_at s j"
  by (simp add: op_at_update)

text \<open>
  A closure accepts a completion if its operation exists, is of its kind, and the completion
  succeeded, or the operation is a receive that was completed already.
\<close>

definition closure_accepts :: "closure \<Rightarrow> ibv_wc \<Rightarrow> asio_exec \<Rightarrow> bool" where
  "closure_accepts cb wc s = (case cb of
     Send_callback k \<Rightarrow> (case op_at s k of None \<Rightarrow> False
       | Some r \<Rightarrow> (case ao_awaitable r of Send_aw _ \<Rightarrow> wc_status wc = IBV_WC_SUCCESS | Recv_aw _ \<Rightarrow> False))
   | Recv_callback k \<Rightarrow> (case op_at s k of None \<Rightarrow> False
       | Some r \<Rightarrow> (case ao_awaitable r of Send_aw _ \<Rightarrow> False
         | Recv_aw a \<Rightarrow> op_wr_opcode (ra_state a) = None \<and>
             (wc_status wc = IBV_WC_SUCCESS \<or> ao_complete_called r))))"

lemma closure_accepts_heap [simp]: "closure_accepts cb wc (s\<lparr>ex_callbacks := H\<rparr>) = closure_accepts cb wc s"
  by (simp add: closure_accepts_def split: closure.split)

lemma closure_accepts_grows: "closure_accepts cb wc s \<Longrightarrow> grows s t \<Longrightarrow> closure_accepts cb wc t"
  by (cases cb; auto simp: closure_accepts_def split: option.splits awaitable.splits elim!: growsD)

definition closure_op :: "closure \<Rightarrow> nat" where
  "closure_op cb = (case cb of Send_callback k \<Rightarrow> k | Recv_callback k \<Rightarrow> k)"

text \<open>The state in which the coroutine of a completed operation goes on.\<close>

definition completed :: "nat \<Rightarrow> ibv_wc \<Rightarrow> completion \<Rightarrow> asio_exec \<Rightarrow> asio_exec" where
  "completed k wc c s = update_op k (\<lambda>r. r\<lparr>ao_completions := ao_completions r @ [c]\<rparr>)
     (update_op k (store_wc wc) s)"

definition flagged :: "nat \<Rightarrow> asio_exec \<Rightarrow> asio_exec" where
  "flagged k s = update_op k (\<lambda>r. r\<lparr>ao_complete_called := True\<rparr>) s"

definition recv_value :: "verbs \<Rightarrow> ibv_wc \<Rightarrow> u32 \<times> u32 option" where
  "recv_value V wc = (wc_byte_len wc, if wc_flags wc AND v_wc_with_imm V = 0 then None else Some (wc_imm_data wc))"

lemma set_from_wc_status [simp]:
  "op_wc_status (set_from_wc wc st) = wc_status wc" "op_wc_flags (set_from_wc wc st) = wc_flags wc"
  "op_wr_opcode (set_from_wc wc st) = op_wr_opcode st"
  by (simp_all add: set_from_wc_def Let_def split: option.split ibv_wr_opcode.split)

lemma in_world_same: "m (as_world (ex_env s)) = (r, as_world (ex_env s)) \<Longrightarrow> in_world m s = (r, s)"
  by (simp add: in_world_def)

lemma in_world_resume:
  "in_world (sa_resume V a) s = (if op_wc_status (sa_state a) = IBV_WC_SUCCESS
     then Inr (op_byte_len (sa_state a))
     else Inl (failure (format_error ''failed to send'' (wc_status_name (op_wc_status (sa_state a)))
       ''status'' (v_wc_code V (op_wc_status (sa_state a))))), s)"
  "in_world (ra_resume V b) s = (if op_wc_status (ra_state b) = IBV_WC_SUCCESS
     then Inr (op_byte_len (ra_state b), if op_wc_flags (ra_state b) AND v_wc_with_imm V = 0 then None
                else Some (op_imm_data (ra_state b)))
     else Inl (failure (format_error ''failed to recv'' (wc_status_name (op_wc_status (ra_state b)))
       ''status'' (v_wc_code V (op_wc_status (ra_state b))))), s)"
  by (rule in_world_same; simp add: sa_resume_def ra_resume_def se_defs se_simps)+

lemma run_send:
  assumes "op_at s k = Some r" and "ao_awaitable r = Send_aw a"
  shows "run_closure V cont (Send_callback k) wc s =
    (if wc_status wc = IBV_WC_SUCCESS
     then noexceptS ''complete'' (cont k)
       (completed k wc (Sent (sa_exception a) (op_byte_len (set_from_wc wc (sa_state a)))) s)
     else (Inl (Terminated ''complete''), update_op k (store_wc wc) s))"
proof -
  have op: "op_at (update_op k (store_wc wc) s) k = Some (store_wc wc r)"
    using assms(1) by (simp add: op_at_update)
  have aw: "ao_awaitable (store_wc wc r) = Send_aw (a\<lparr>sa_state := set_from_wc wc (sa_state a)\<rparr>)"
    using assms(2) by (simp add: store_wc_def)
  show ?thesis
    by (simp add: run_closure.simps send_callback_def recv_callback_def se_defs complete_def op aw in_world_resume completed_def failure_def
        sa_unhandled_exception_def self_complete_def)
qed

lemma run_recv:
  assumes "op_at s k = Some r" and "ao_awaitable r = Recv_aw a" and "op_wr_opcode (ra_state a) = None"
  shows "run_closure V cont (Recv_callback k) wc s =
    (if ao_complete_called r then (Inr (), s)
     else if wc_status wc = IBV_WC_SUCCESS
     then noexceptS ''complete'' (cont k)
       (completed k wc (Received (ra_exception a) (recv_value V wc)) (flagged k s))
     else (Inl (Terminated ''complete''), update_op k (store_wc wc) (flagged k s)))"
proof -
  have op: "op_at (update_op k (store_wc wc) (update_op k (\<lambda>r. r\<lparr>ao_complete_called := True\<rparr>) s)) k =
      Some (store_wc wc (r\<lparr>ao_complete_called := True\<rparr>))"
    using assms(1) by (simp add: op_at_update)
  have aw: "ao_awaitable (store_wc wc (r\<lparr>ao_complete_called := True\<rparr>)) =
      Recv_aw (a\<lparr>ra_state := set_from_wc wc (ra_state a)\<rparr>)"
    using assms(2) by (simp add: store_wc_def)
  have val: "op_byte_len (set_from_wc wc (ra_state a)) = wc_byte_len wc"
      "op_imm_data (set_from_wc wc (ra_state a)) = wc_imm_data wc"
    using assms(3) by (simp_all add: set_from_wc_def)
  show ?thesis
    using assms(1)
    by (simp add: run_closure.simps send_callback_def recv_callback_def se_defs complete_def op aw in_world_resume completed_def flagged_def val failure_def
        recv_value_def ra_unhandled_exception_def self_complete_def)
qed

lemma completed_callbacks [simp]:
  "ex_callbacks (completed k wc c s) = ex_callbacks s" "ex_callbacks (flagged k s) = ex_callbacks s"
  by (simp_all add: completed_def flagged_def)

declare run_closure.simps [simp del]

lemma accepts_store: "closure_accepts cb wc s \<Longrightarrow> closure_accepts cb wc (update_op k (store_wc wc') s)"
  by (cases cb)
    (auto simp: closure_accepts_def op_at_update store_wc_def split: option.splits awaitable.splits)

lemma accepts_update:
  assumes "closure_accepts cb wc s" and "\<And>r. ao_awaitable (f r) = ao_awaitable r"
    and "\<And>r. ao_complete_called r \<Longrightarrow> ao_complete_called (f r)"
  shows "closure_accepts cb wc (update_op k f s)"
  using assms by (cases cb) (auto simp: closure_accepts_def op_at_update split: option.splits awaitable.splits)

lemma accepts_completed [simp]:
  "closure_accepts cb wc s \<Longrightarrow> closure_accepts cb wc (completed k wc' c s)"
  "closure_accepts cb wc s \<Longrightarrow> closure_accepts cb wc (flagged k s)"
  by (auto simp: completed_def flagged_def intro!: accepts_update accepts_store)

locale resumed_code =
  fixes V :: verbs and cont :: "nat \<Rightarrow> unit asio_act"
  assumes cont_returns: "\<exists>t. cont k s = (Inr (), t)"
    and cont_grows: "cont k s = (Inr (), t) \<Longrightarrow> grows s t"
begin

lemma noexcept_cont [simp]: "noexceptS n (cont k) s = cont k s"
  using cont_returns [of k s] by (auto simp: noexceptS_def catchS_def)

text \<open>
  A closure that returns either left everything as it was, or went on in the state with the
  completion stored, and from there in a state that grew.
\<close>

lemma run_cases:
  assumes "run_closure V cont cb wc s = (Inr (), t)" and "closure_accepts cb wc s"
  shows "t = s \<or> (\<exists>c. grows (completed (closure_op cb) wc c s) t) \<or>
     (\<exists>c. grows (completed (closure_op cb) wc c (flagged (closure_op cb) s)) t)"
proof (cases cb)
  case (Send_callback k)
  then obtain r a where "op_at s k = Some r" "ao_awaitable r = Send_aw a" "wc_status wc = IBV_WC_SUCCESS"
    using assms(2) by (auto simp: closure_accepts_def split: option.splits awaitable.splits)
  with Send_callback assms(1) cont_grows show ?thesis
    by (auto simp: run_send closure_op_def)
next
  case (Recv_callback k)
  then obtain r a where r: "op_at s k = Some r" "ao_awaitable r = Recv_aw a" "op_wr_opcode (ra_state a) = None"
      "wc_status wc = IBV_WC_SUCCESS \<or> ao_complete_called r"
    using assms(2) by (auto simp: closure_accepts_def split: option.splits awaitable.splits)
  show ?thesis
  proof (cases "ao_complete_called r")
    case True
    with Recv_callback assms(1) r show ?thesis by (simp add: run_recv)
  next
    case False
    then have "cont k (completed k wc (Received (ra_exception a) (recv_value V wc)) (flagged k s)) = (Inr (), t)"
      using Recv_callback assms(1) r by (simp add: run_recv)
    from cont_grows [OF this] Recv_callback show ?thesis by (auto simp: closure_op_def)
  qed
qed

lemma accepts_returns: "closure_accepts cb wc s \<Longrightarrow> \<exists>t. run_closure V cont cb wc s = (Inr (), t)"
proof (cases cb)
  case (Send_callback k)
  assume "closure_accepts cb wc s"
  with Send_callback obtain r a where "op_at s k = Some r" "ao_awaitable r = Send_aw a" "wc_status wc = IBV_WC_SUCCESS"
    by (auto simp: closure_accepts_def split: option.splits awaitable.splits)
  with Send_callback cont_returns show ?thesis by (simp add: run_send)
next
  case (Recv_callback k)
  assume "closure_accepts cb wc s"
  with Recv_callback obtain r a where "op_at s k = Some r" "ao_awaitable r = Recv_aw a" "op_wr_opcode (ra_state a) = None"
      "wc_status wc = IBV_WC_SUCCESS \<or> ao_complete_called r"
    by (auto simp: closure_accepts_def split: option.splits awaitable.splits)
  with Recv_callback cont_returns show ?thesis by (auto simp: run_recv)
qed

end

sublocale resumed_code \<subseteq> code: callback_code "run_closure V cont" closure_accepts
proof
  fix cb wc and s t :: asio_exec
  assume acc: "closure_accepts cb wc s"
  show "\<exists>t. run_closure V cont cb wc s = (Inr (), t)"
    using acc by (rule accepts_returns)
  show "closure_accepts cb wc (s\<lparr>ex_callbacks := H\<rparr>)" for H
    using acc by simp
  assume "run_closure V cont cb wc s = (Inr (), t)"
  from run_cases [OF this acc] show "keeps_callbacks s t"
    by (auto simp: grows_def keeps_callbacks_def)
next
  fix cb cb' wc wc' and s t :: asio_exec
  assume "closure_accepts cb wc s" "closure_accepts cb' wc' s" "run_closure V cont cb' wc' s = (Inr (), t)"
  with run_cases [of cb' wc' s t] show "closure_accepts cb wc t"
    by (auto intro: closure_accepts_grows [OF _ ] accepts_completed)
qed

section \<open>Initiating, evaluated\<close>

definition waiting_op :: "awaitable \<Rightarrow> bool \<Rightarrow> u64 \<Rightarrow> asio_op" where
  "waiting_op a slot cb = \<lparr>ao_awaitable = a, ao_callback = cb, ao_complete_called = False,
     ao_slot = slot, ao_completions = []\<rparr>"

definition next_op :: "asio_exec \<Rightarrow> nat" where
  "next_op s = length (as_ops (ex_env s))"

definition add_op :: "asio_op \<Rightarrow> world \<Rightarrow> (u64 \<Rightarrow> closure option) \<Rightarrow> asio_exec \<Rightarrow> asio_exec" where
  "add_op r w H s = s\<lparr>ex_callbacks := H, ex_env := (ex_env s)\<lparr>as_ops := as_ops (ex_env s) @ [r], as_world := w\<rparr>\<rparr>"

lemma op_at_add: "op_at (add_op r w H s) j = (if j = next_op s then Some r else op_at s j)"
  by (auto simp: op_at_def add_op_def next_op_def nth_append)

lemma add_op_callbacks [simp]: "ex_callbacks (add_op r w H s) = H"
  by (simp add: add_op_def)

lemma op_at_next [simp]: "op_at s (next_op s) = None"
  by (simp add: op_at_def next_op_def)

definition live :: "asio_exec \<Rightarrow> u64 \<Rightarrow> bool" where
  "live s = (\<lambda>a. ex_callbacks s a \<noteq> None)"

lemma operator_new_fresh: "operator_new alloc (live s) = p \<Longrightarrow> p \<noteq> 0 \<Longrightarrow> ex_callbacks s p = None"
  by (auto simp: operator_new_def live_def Let_def split: if_splits)

definition recv_call :: "qp \<Rightarrow> ibv_recv_wr \<Rightarrow> vcall" where
  "recv_call q wr = (case qp_post_recv_fn q of
     Recv_rq \<Rightarrow> Post_recv (qp_qp q) wr | Recv_srq \<Rightarrow> Post_srq_recv (qp_raw_srq q) wr)"

lemma qp_post_recv_apply:
  "\<exists>t. qp_post_recv V q wr w =
     (if v_rc V (calls w) (recv_call q wr) = 0 then Inr () else Inl (failure t), record_call (recv_call q wr) w)"
  by (auto simp: qp_post_recv_def qp_post_recv_rq_def qp_post_recv_srq_def recv_call_def se_defs se_simps
      split: post_recv_target.split)

text \<open>Suspending a receive never throws: it posted, or it stored an exception and did not.\<close>

lemma ra_suspend_total:
  "\<exists>b a' w'. ra_suspend V heap cb a w = (Inr (b, a'), w') \<and> ra_state a' = ra_state a \<and>
     (if b then a' = a else ra_exception a' \<noteq> None)"
proof (cases "heap (ra_qp a)")
  case None
  then show ?thesis by (auto simp: ra_suspend_def returnS_def)
next
  case (Some q)
  obtain t where "qp_post_recv V q (build_recv_wr a cb) w =
     (if v_rc V (calls w) (recv_call q (build_recv_wr a cb)) = 0 then Inr () else Inl (failure t),
      record_call (recv_call q (build_recv_wr a cb)) w)"
    using qp_post_recv_apply by blast
  with Some show ?thesis by (auto simp: ra_suspend_def se_defs)
qed

lemma new_op_eq: "new_op a slot s = (Inr (next_op s), add_op (waiting_op a slot 0) (as_world (ex_env s)) (ex_callbacks s) s)"
  by (simp add: new_op_def add_op_def next_op_def waiting_op_def)

lemma update_add_op:
  "update_op (next_op s) f (add_op r w H s) = add_op (f r) w H s"
  by (simp add: update_op_def op_at_add) (simp add: add_op_def next_op_def)

lemma initiate_recv_apply:
  assumes "ra_suspend V heap p a (as_world (ex_env s)) = (Inr (b, a'), w)"
    and "operator_new alloc (live s) = p"
  shows "initiate_recv V heap alloc slot a s =
    (if p = 0 then (Inl (Runtime_error ''executor: out of memory for callback''), snd (new_op (Recv_aw a) slot s))
     else (Inr (next_op s), add_op (waiting_op (Recv_aw a') slot p) w
       ((ex_callbacks s)(p := if b then Some (Recv_callback (next_op s)) else None)) s))"
proof -
  have new: "operator_new alloc (\<lambda>a. \<exists>y. ex_callbacks s a = Some y) = p"
    using assms(2) by (simp add: live_def)
  have env: "add_op r w H s\<lparr>ex_callbacks := H'\<rparr> = add_op r w H' s"
    "add_op r w H s\<lparr>ex_env := (ex_env (add_op r w H s))\<lparr>as_world := w'\<rparr>\<rparr> = add_op r w' H s" for r w w' H H'
    by (simp_all add: add_op_def)
  have [simp]: "as_world (ex_env (add_op r w H s)) = w" for r w H
    by (simp add: add_op_def)
  show ?thesis
    using assms(1)
    by (simp add: initiate_recv_def se_defs new_op_eq make_callback_def new Let_def env update_add_op
        in_world_def destroy_callback_def waiting_op_def)
qed

section \<open>Coroutines\<close>

text \<open>
  Two coroutines a completion can resume: one that makes no further operation before it
  suspends elsewhere or ends, and the loop of the examples that posts the next receive and
  ends when that throws.
\<close>

definition ends :: "nat \<Rightarrow> unit asio_act" where
  "ends k = returnS ()"

definition recv_again :: "verbs \<Rightarrow> qp_heap \<Rightarrow> ((u64 \<Rightarrow> bool) \<Rightarrow> u64) \<Rightarrow> nat \<Rightarrow> mr_view \<Rightarrow> nat \<Rightarrow> unit asio_act" where
  "recv_again V heap alloc i v k = catchS std_exception
     (thenS (initiate_recv V heap alloc True (recv_awaitable_view i v)) (returnS ())) (\<lambda>e. returnS ())"

lemma grows_add_op:
  assumes "\<And>a. ex_callbacks s a \<noteq> None \<Longrightarrow> H a = ex_callbacks s a"
  shows "grows s (add_op r w H s)"
proof -
  have "op_at (add_op r w H s) k = Some r'" if "op_at s k = Some r'" for k r'
    using that by (auto simp: op_at_add)
  then show ?thesis using assms by (auto simp: grows_def keeps_callbacks_def)
qed

lemma recv_again_runs: "\<exists>t. recv_again V heap alloc i v k s = (Inr (), t) \<and> grows s t"
proof -
  let ?a = "recv_awaitable_view i v" and ?p = "operator_new alloc (live s)"
  obtain b a' w where sus: "ra_suspend V heap ?p ?a (as_world (ex_env s)) = (Inr (b, a'), w)"
    using ra_suspend_total by blast
  show ?thesis
  proof (cases "?p = 0")
    case True
    then show ?thesis
      using initiate_recv_apply [OF sus refl, of True]
      by (auto simp: recv_again_def se_defs new_op_eq intro: grows_add_op)
  next
    case False
    then have fresh: "ex_callbacks s ?p = None" using operator_new_fresh by blast
    have "grows s (add_op r w ((ex_callbacks s)(?p := c)) s)" for r c
      by (rule grows_add_op) (use fresh in auto)
    with False show ?thesis
      using initiate_recv_apply [OF sus refl, of True] by (auto simp: recv_again_def se_defs)
  qed
qed

interpretation ending: resumed_code V ends for V
  by unfold_locales (auto simp: ends_def returnS_def)

interpretation looping: resumed_code V "recv_again V heap alloc i v" for V heap alloc i v
proof
  fix k and s t :: asio_exec
  obtain u where u: "recv_again V heap alloc i v k s = (Inr (), u)" "grows s u"
    using recv_again_runs by blast
  then show "\<exists>t. recv_again V heap alloc i v k s = (Inr (), t)" by blast
  assume "recv_again V heap alloc i v k s = (Inr (), t)"
  with u show "grows s t" by simp
qed

section \<open>Properties\<close>

text \<open>
  C11: delivering a batch is memory safe: when the ids of a batch are distinct live callbacks
  and their completions succeeded (or their receives were cancelled before), processing
  it never calls or frees a dead callback and never ends the process, although the coroutines
  it resumes allocate and post the next receives meanwhile; and every callback that was
  waiting and is not of the batch is still waiting, with the same closure.
\<close>

theorem asio_batch_safe:
  assumes "batch_ready closure_accepts s wcs"
  shows "\<exists>t. process_wc (execute_callback_asio (run_closure V (recv_again V heap alloc i v))) wcs s = (Inr (), t) \<and>
     (\<forall>a cb. ex_callbacks s a = Some cb \<and> a \<notin> wc_wr_id ` set wcs \<longrightarrow> ex_callbacks t a = Some cb)"
proof -
  obtain t where t: "process_each (execute_callback_asio (run_closure V (recv_again V heap alloc i v))) wcs s = (Inr (), t)"
      "\<forall>a. a \<notin> wc_wr_id ` set wcs \<and> ex_callbacks s a \<noteq> None \<longrightarrow> ex_callbacks t a = ex_callbacks s a"
    using looping.code.process_batch [OF assms] by blast
  then show ?thesis by (auto simp: process_wc_def noexceptS_def se_defs)
qed

definition sample_wc :: ibv_wc where
  "sample_wc = \<lparr>wc_wr_id = 8, wc_status = IBV_WC_SUCCESS, wc_byte_len = 5, wc_imm_data = 0, wc_flags = 0\<rparr>"

definition sample_exec :: asio_exec where
  "sample_exec = \<lparr>ex_callbacks = [8 \<mapsto> Recv_callback 0, 16 \<mapsto> Recv_callback 1],
     ex_env = \<lparr>as_world = fresh_world,
       as_ops = [waiting_op (Recv_aw (recv_awaitable_view 0 mr_view_empty)) True 8,
                 waiting_op (Recv_aw (recv_awaitable_view 0 mr_view_empty)) True 16]\<rparr>\<rparr>"

theorem asio_batch_safe_witness:
  "\<exists>t. process_wc (execute_callback_asio (run_closure quiet_verbs
        (recv_again quiet_verbs (\<lambda>i. Some blank_qp) (\<lambda>l. 24) 0 mr_view_empty))) [sample_wc] sample_exec = (Inr (), t) \<and>
     ex_callbacks t 16 = Some (Recv_callback 1)"
proof -
  have "batch_ready closure_accepts sample_exec [sample_wc]"
    by (simp add: sample_exec_def sample_wc_def closure_accepts_def op_at_def waiting_op_def
        recv_awaitable_view_def operation_state_recv_def)
  from asio_batch_safe [OF this, of quiet_verbs "\<lambda>i. Some blank_qp" "\<lambda>l. 24" 0 mr_view_empty]
  show ?thesis by (auto simp: sample_exec_def sample_wc_def)
qed

text \<open>Whether an operation is of the kind its closure was made for.\<close>

definition closure_fits :: "closure \<Rightarrow> asio_op \<Rightarrow> bool" where
  "closure_fits cb r = (case (cb, ao_awaitable r) of
     (Send_callback _, Send_aw _) \<Rightarrow> True
   | (Recv_callback _, Recv_aw a) \<Rightarrow> op_wr_opcode (ra_state a) = None
   | _ \<Rightarrow> False)"

definition completion_of :: "verbs \<Rightarrow> ibv_wc \<Rightarrow> asio_op \<Rightarrow> completion" where
  "completion_of V wc r = (case ao_awaitable r of
     Send_aw a \<Rightarrow> Sent (sa_exception a) (op_byte_len (set_from_wc wc (sa_state a)))
   | Recv_aw a \<Rightarrow> Received (ra_exception a) (recv_value V wc))"

definition cancelled_before :: "closure \<Rightarrow> asio_op \<Rightarrow> bool" where
  "cancelled_before cb r = (case cb of Send_callback _ \<Rightarrow> False | Recv_callback _ \<Rightarrow> ao_complete_called r)"

lemma ends_apply [simp]: "ends k s = (Inr (), s)" "noexceptS n (ends k) s = (Inr (), s)"
  by (simp_all add: ends_def noexceptS_def se_defs)

text \<open>
  C6: what one completion does to its operation, on every branch. A receive that was cancelled
  before gets nothing more. A successful completion hands the coroutine exactly one result,
  the one of that completion, frees the callback, and touches no other operation. A failed
  completion never reaches the coroutine: the exception of \<open>resume\<close> meets the
  \<open>noexcept\<close> of \<open>complete\<close>, and the process is terminated.
\<close>

theorem asio_completion_outcome:
  assumes "ex_callbacks s (wc_wr_id wc) = Some cb" and "wc_wr_id wc \<noteq> 0"
    and "op_at s (closure_op cb) = Some r" and "closure_fits cb r"
  shows "let (res, t) = execute_callback_asio (run_closure V ends) wc s in
     if cancelled_before cb r
     then res = Inr () \<and> op_at t (closure_op cb) = Some r \<and> ex_callbacks t = (ex_callbacks s)(wc_wr_id wc := None)
     else if wc_status wc \<noteq> IBV_WC_SUCCESS then res = Inl (Terminated ''complete'')
     else res = Inr () \<and> ex_callbacks t = (ex_callbacks s)(wc_wr_id wc := None) \<and>
       (\<exists>r'. op_at t (closure_op cb) = Some r' \<and>
          ao_completions r' = ao_completions r @ [completion_of V wc r]) \<and>
       (\<forall>j. j \<noteq> closure_op cb \<longrightarrow> op_at t j = op_at s j)"
proof (cases cb)
  case (Send_callback k)
  then obtain a where a: "ao_awaitable r = Send_aw a" and op: "op_at s k = Some r"
    using assms(3,4) by (auto simp: closure_fits_def closure_op_def split: awaitable.splits)
  show ?thesis
    using Send_callback assms(1,2) a op
    by (auto simp: execute_callback_asio_def noexceptS_def se_defs run_send [OF op a] destroy_callback_def
        cancelled_before_def closure_op_def completion_of_def completed_def op_at_update store_wc_def)
next
  case (Recv_callback k)
  then obtain a where a: "ao_awaitable r = Recv_aw a" "op_wr_opcode (ra_state a) = None" and op: "op_at s k = Some r"
    using assms(3,4) by (auto simp: closure_fits_def closure_op_def split: awaitable.splits)
  show ?thesis
    using Recv_callback assms(1,2) a op
    by (auto simp: execute_callback_asio_def noexceptS_def se_defs run_recv [OF op a] destroy_callback_def
        cancelled_before_def closure_op_def completion_of_def completed_def flagged_def op_at_update store_wc_def)
qed

theorem asio_completion_outcome_witness:
  "fst (execute_callback_asio (run_closure quiet_verbs ends) (sample_wc\<lparr>wc_status := IBV_WC_WR_FLUSH_ERR\<rparr>) sample_exec) =
     Inl (Terminated ''complete'')"
proof -
  let ?wc = "sample_wc\<lparr>wc_status := IBV_WC_WR_FLUSH_ERR\<rparr>"
  let ?r = "waiting_op (Recv_aw (recv_awaitable_view 0 mr_view_empty)) True 8"
  have "ex_callbacks sample_exec (wc_wr_id ?wc) = Some (Recv_callback 0)" and "wc_wr_id ?wc \<noteq> 0"
    and "op_at sample_exec (closure_op (Recv_callback 0)) = Some ?r" and "closure_fits (Recv_callback 0) ?r"
    by (simp_all add: sample_exec_def sample_wc_def op_at_def closure_op_def closure_fits_def waiting_op_def
        recv_awaitable_view_def operation_state_recv_def)
  from asio_completion_outcome [OF this, of quiet_verbs] show ?thesis
    by (auto simp: cancelled_before_def waiting_op_def sample_wc_def split: prod.splits)
qed

text \<open>
  C28: an asio receive that cannot be posted (the queue pair is gone, or the post fails) is
  never heard of again. Initiating it returns as usual; the exception is stored in the
  awaitable and the callback is freed, so no completion can reach the operation, and a
  cancellation signal does nothing: the coroutine that awaits it gets neither a result nor the exception.
\<close>

theorem asio_failed_post_is_silent:
  assumes "\<forall>j cb. ex_callbacks s j = Some cb \<longrightarrow> closure_op cb < next_op s"
    and "operator_new alloc (live s) = p" and "p \<noteq> 0"
    and "ra_suspend V heap p a (as_world (ex_env s)) = (Inr (False, a'), w)"
  shows "\<exists>t r. initiate_recv V heap alloc slot a s = (Inr (next_op s), t) \<and>
     op_at t (next_op s) = Some r \<and> ao_completions r = [] \<and>
     ao_awaitable r = Recv_aw a' \<and> ra_exception a' \<noteq> None \<and>
     (\<forall>j cb. ex_callbacks t j = Some cb \<longrightarrow> closure_op cb \<noteq> next_op s) \<and>
     (\<exists>u r'. recv_cancel ends (next_op s) type_none t = (Inr (), u) \<and>
        op_at u (next_op s) = Some r' \<and> ao_completions r' = [])"
proof -
  let ?r = "waiting_op (Recv_aw a') slot p"
  let ?t = "add_op ?r w ((ex_callbacks s)(p := None)) s"
  have run: "initiate_recv V heap alloc slot a s = (Inr (next_op s), ?t)"
    using initiate_recv_apply [OF assms(4,2), of slot] assms(3) by simp
  have op: "op_at ?t (next_op s) = Some ?r" by (simp add: op_at_add)
  have exc: "ra_exception a' \<noteq> None"
    using ra_suspend_total [of V heap p a "as_world (ex_env s)"] assms(4) by auto
  have none: "closure_op cb \<noteq> next_op s" if "ex_callbacks ?t j = Some cb" for j cb
    using that assms(1) by (fastforce split: if_splits)
  have dead: "\<not> self_alive ?t (next_op s)"
    using op by (simp add: self_alive_def waiting_op_def)
  have "\<exists>u r'. recv_cancel ends (next_op s) type_none ?t = (Inr (), u) \<and>
      op_at u (next_op s) = Some r' \<and> ao_completions r' = []"
    using op dead by (auto simp: recv_cancel_def se_defs waiting_op_def op_at_update)
  moreover have "ao_completions ?r = []" "ao_awaitable ?r = Recv_aw a'"
    by (simp_all add: waiting_op_def)
  ultimately show ?thesis using run op exc none by blast
qed

definition empty_exec :: asio_exec where
  "empty_exec = \<lparr>ex_callbacks = (\<lambda>a. None), ex_env = \<lparr>as_world = fresh_world, as_ops = []\<rparr>\<rparr>"

theorem asio_failed_post_is_silent_witness:
  "\<exists>t r. initiate_recv quiet_verbs (\<lambda>i. None) (\<lambda>l. 8) True (recv_awaitable_view 0 mr_view_empty) empty_exec = (Inr 0, t) \<and>
     op_at t 0 = Some r \<and> ao_completions r = [] \<and> (\<forall>j. ex_callbacks t j \<noteq> Some (Recv_callback 0))"
proof -
  let ?a = "recv_awaitable_view 0 mr_view_empty"
  let ?a' = "?a\<lparr>ra_exception := Some (Runtime_error ''post_recv: qp expired, use_count=0'')\<rparr>"
  have "\<forall>j cb. ex_callbacks empty_exec j = Some cb \<longrightarrow> closure_op cb < next_op empty_exec"
    and "operator_new (\<lambda>l. 8) (live empty_exec) = 8" and "(8 :: u64) \<noteq> 0"
    and "ra_suspend quiet_verbs (\<lambda>i. None) 8 ?a (as_world (ex_env empty_exec)) = (Inr (False, ?a'), fresh_world)"
    by (simp_all add: empty_exec_def operator_new_def live_def ra_suspend_def returnS_def)
  from asio_failed_post_is_silent [OF this, where slot = True and type_none = False]
  obtain t r where tr: "initiate_recv quiet_verbs (\<lambda>i. None) (\<lambda>l. 8) True ?a empty_exec = (Inr (next_op empty_exec), t)"
    "op_at t (next_op empty_exec) = Some r" "ao_completions r = []"
    "\<forall>j cb. ex_callbacks t j = Some cb \<longrightarrow> closure_op cb \<noteq> next_op empty_exec"
    by blast
  have "next_op empty_exec = 0" by (simp add: next_op_def empty_exec_def)
  moreover have "ex_callbacks t j \<noteq> Some (Recv_callback 0)" for j
    using tr(4) calculation by (force simp: closure_op_def)
  ultimately show ?thesis using tr by auto
qed

end
