(* ===== verification/Recv_Race.thy ===== *)
theory Recv_Race
  imports Asio_Op
begin

text \<open>
  One asio receive with its cancellation slot connected, step by step (\<^verbatim>\<open>qp.cc\<close>,
  \<open>recv_awaitable::operator asio::awaitable\<close>): the poller's thread runs the callback and
  frees it while the thread that emits the cancellation signal runs the handler of the slot.
  The two share the atomic flag \<open>complete_called\<close> and the composed operation, which lives as long as the callback, or a
  shared pointer locked from the handler's weak one, does.
\<close>

section \<open>Steps\<close>

datatype poller_pc = P_wait | P_won | P_lost | P_ran | P_freed

datatype canceller_pc = K_idle | K_won | K_locked

datatype race_result = By_completion | By_cancel

text \<open>\<open>rc_lost\<close> is history: the handler won the flag and then found the operation gone.\<close>

record race =
  rc_flag :: bool
  rc_poller :: poller_pc
  rc_canceller :: canceller_pc
  rc_results :: "race_result list"
  rc_lost :: bool

definition race_init :: race where
  "race_init = \<lparr>rc_flag = False, rc_poller = P_wait, rc_canceller = K_idle, rc_results = [], rc_lost = False\<rparr>"

definition race_start :: "race \<Rightarrow> bool" where
  "race_start s = (s = race_init)"

inductive race_step :: "race \<Rightarrow> race \<Rightarrow> bool" where
  poller_wins: "rc_poller s = P_wait \<Longrightarrow> \<not> rc_flag s \<Longrightarrow>
     race_step s (s\<lparr>rc_flag := True, rc_poller := P_won\<rparr>)"
| poller_loses: "rc_poller s = P_wait \<Longrightarrow> rc_flag s \<Longrightarrow> race_step s (s\<lparr>rc_poller := P_lost\<rparr>)"
| poller_completes: "rc_poller s = P_won \<Longrightarrow>
     race_step s (s\<lparr>rc_results := rc_results s @ [By_completion], rc_poller := P_ran\<rparr>)"
| poller_skips: "rc_poller s = P_lost \<Longrightarrow> race_step s (s\<lparr>rc_poller := P_ran\<rparr>)"
| poller_frees: "rc_poller s = P_ran \<Longrightarrow> race_step s (s\<lparr>rc_poller := P_freed\<rparr>)"
| cancel_returns: "rc_canceller s = K_idle \<Longrightarrow> rc_flag s \<Longrightarrow> race_step s s"
| cancel_wins: "rc_canceller s = K_idle \<Longrightarrow> \<not> rc_flag s \<Longrightarrow>
     race_step s (s\<lparr>rc_flag := True, rc_canceller := K_won\<rparr>)"
| cancel_locks: "rc_canceller s = K_won \<Longrightarrow> rc_poller s \<noteq> P_freed \<Longrightarrow>
     race_step s (s\<lparr>rc_canceller := K_locked\<rparr>)"
| cancel_finds_dead: "rc_canceller s = K_won \<Longrightarrow> rc_poller s = P_freed \<Longrightarrow>
     race_step s (s\<lparr>rc_canceller := K_idle, rc_lost := True\<rparr>)"
| cancel_completes: "rc_canceller s = K_locked \<Longrightarrow>
     race_step s (s\<lparr>rc_results := rc_results s @ [By_cancel], rc_canceller := K_idle\<rparr>)"

inductive_cases race_stepE: "race_step s t"

section \<open>The invariant\<close>

text \<open>
  Whoever set the flag holds the only right to complete, until it has used it or lost it.
\<close>

definition rights :: "race \<Rightarrow> nat" where
  "rights s = (if rc_poller s = P_won then 1 else 0) + (if rc_canceller s = K_idle then 0 else 1) +
     (if rc_lost s then 1 else 0) + length (rc_results s)"

definition race_inv :: "race \<Rightarrow> bool" where
  "race_inv s \<longleftrightarrow> rights s = (if rc_flag s then 1 else 0) \<and> (rc_poller s \<noteq> P_wait \<longrightarrow> rc_flag s)"

lemma race_inv_step: "race_inv s \<Longrightarrow> race_step s t \<Longrightarrow> race_inv t"
  by (erule race_stepE) (auto simp: race_inv_def rights_def split: if_splits)

interpretation race: transition_system race_start race_step race_inv
proof
  show "race_inv s" if "race_start s" for s
    using that by (simp add: race_start_def race_init_def race_inv_def rights_def)
qed (rule race_inv_step)

section \<open>Properties\<close>

text \<open>
  C1: in every interleaving of the poller and any number of cancellation signals, an asio
  receive is completed at most once; and once its callback was freed and no handler is
  running, it was completed exactly once, unless a handler won the flag and then found the operation gone.
\<close>

theorem recv_completed_at_most_once:
  assumes "reach race_start race_step s"
  shows "length (rc_results s) \<le> 1 \<and>
     (rc_poller s = P_freed \<and> rc_canceller s = K_idle \<longrightarrow> length (rc_results s) = (if rc_lost s then 0 else 1))"
  using race.reach_inv [OF assms] by (auto simp: race_inv_def rights_def split: if_splits)

lemma race_start_init: "reach race_start race_step race_init"
  by (rule reach_start) (simp add: race_start_def)

theorem recv_completed_at_most_once_witness:
  "let s = race_init\<lparr>rc_flag := True, rc_poller := P_freed, rc_results := [By_completion]\<rparr> in
   reach race_start race_step s \<and> length (rc_results s) = 1"
proof -
  let ?a = "race_init\<lparr>rc_flag := True, rc_poller := P_won\<rparr>"
  let ?b = "?a\<lparr>rc_results := rc_results ?a @ [By_completion], rc_poller := P_ran\<rparr>"
  let ?c = "?b\<lparr>rc_poller := P_freed\<rparr>"
  have a: "race_step race_init ?a" by (rule poller_wins) (simp_all add: race_init_def)
  have b: "race_step ?a ?b" by (rule poller_completes) simp
  have c: "race_step ?b ?c" by (rule poller_frees) simp
  have r: "reach race_start race_step ?c"
    by (rule reach_step [OF reach_step [OF reach_step [OF race_start_init a] b] c])
  from recv_completed_at_most_once [OF r] r show ?thesis by (simp add: race_init_def)
qed

text \<open>Once lost, nothing completes the operation any more.\<close>

lemma lost_forever:
  assumes "race_step\<^sup>*\<^sup>* s t" and "race_inv s" and "rc_lost s"
  shows "rc_results t = [] \<and> rc_lost t"
  using assms(1)
proof (induction rule: rtranclp_induct)
  case base
  then show ?case using assms(2,3) by (auto simp: race_inv_def rights_def split: if_splits)
next
  case (step t u)
  have "race_inv t" using step(1) assms(2) by (rule race.reach_from)
  with step(2,3) show ?case by (elim race_stepE) (auto simp: race_inv_def rights_def split: if_splits)
qed

text \<open>
  C7: the completion of a receive can be lost. When the handler of the slot has won the flag,
  and before it locks its weak pointer the poller runs the callback (which skips, because the flag is
  set) and frees it, then the handler finds the operation gone and skips too: a state is reachable from
  which no run ever completes the receive, although its completion has been polled.
\<close>

theorem recv_completion_can_be_lost:
  "\<exists>s. reach race_start race_step s \<and> rc_poller s = P_freed \<and>
     {t. race_step\<^sup>*\<^sup>* s t} \<subseteq> {t. rc_results t = []}"
proof -
  let ?a = "race_init\<lparr>rc_flag := True, rc_canceller := K_won\<rparr>"
  let ?b = "?a\<lparr>rc_poller := P_lost\<rparr>"
  let ?c = "?b\<lparr>rc_poller := P_ran\<rparr>"
  let ?d = "?c\<lparr>rc_poller := P_freed\<rparr>"
  let ?e = "?d\<lparr>rc_canceller := K_idle, rc_lost := True\<rparr>"
  have a: "race_step race_init ?a" by (rule cancel_wins) (simp_all add: race_init_def)
  have b: "race_step ?a ?b" by (rule poller_loses) (simp_all add: race_init_def)
  have c: "race_step ?b ?c" by (rule poller_skips) simp
  have d: "race_step ?c ?d" by (rule poller_frees) simp
  have e: "race_step ?d ?e" by (rule cancel_finds_dead) simp_all
  have r: "reach race_start race_step ?e"
    by (rule reach_step [OF reach_step [OF reach_step [OF reach_step [OF reach_step
        [OF race_start_init a] b] c] d] e])
  have "rc_lost ?e" by simp
  then have "rc_results t = []" if "race_step\<^sup>*\<^sup>* ?e t" for t
    using lost_forever [OF that race.reach_inv [OF r]] by blast
  with r show ?thesis by (intro exI [of _ ?e]) (simp add: subset_eq)
qed

section \<open>The operations are runs of the steps\<close>

fun result_of :: "completion \<Rightarrow> race_result" where
  "result_of (Received (Some e) _) = By_cancel"
| "result_of _ = By_completion"

definition race_of :: "nat \<Rightarrow> asio_exec \<Rightarrow> race" where
  "race_of k s = (case op_at s k of None \<Rightarrow> race_init
     | Some r \<Rightarrow> \<lparr>rc_flag = ao_complete_called r, rc_poller = (if self_alive s k then P_wait else P_freed),
         rc_canceller = K_idle, rc_results = map result_of (ao_completions r),
         rc_lost = (ao_complete_called r \<and> ao_completions r = [] \<and> \<not> self_alive s k)\<rparr>)"

lemma race_ext:
  "rc_flag s = rc_flag t \<Longrightarrow> rc_poller s = rc_poller t \<Longrightarrow> rc_canceller s = rc_canceller t \<Longrightarrow>
   rc_results s = rc_results t \<Longrightarrow> rc_lost s = rc_lost t \<Longrightarrow> s = (t :: race)"
  by simp

lemma cancel_run:
  assumes "rc_canceller s = K_idle" and "\<not> rc_flag s" and "rc_poller s \<noteq> P_freed"
  shows "race_step\<^sup>*\<^sup>* s (s\<lparr>rc_flag := True, rc_results := rc_results s @ [By_cancel]\<rparr>)"
proof -
  let ?a = "s\<lparr>rc_flag := True, rc_canceller := K_won\<rparr>"
  let ?b = "?a\<lparr>rc_canceller := K_locked\<rparr>"
  let ?c = "?b\<lparr>rc_results := rc_results ?b @ [By_cancel], rc_canceller := K_idle\<rparr>"
  have "race_step s ?a" using assms(1,2) by (rule cancel_wins)
  moreover have "race_step ?a ?b" by (rule cancel_locks) (simp_all add: assms)
  moreover have "race_step ?b ?c" by (rule cancel_completes) simp
  ultimately have "race_step\<^sup>*\<^sup>* s ?c" by simp
  moreover have "?c = s\<lparr>rc_flag := True, rc_results := rc_results s @ [By_cancel]\<rparr>"
    using assms(1) by simp
  ultimately show ?thesis by simp
qed

lemma deliver_run:
  assumes "rc_poller s = P_wait"
  shows "race_step\<^sup>*\<^sup>* s (if rc_flag s then s\<lparr>rc_poller := P_freed\<rparr>
    else s\<lparr>rc_flag := True, rc_results := rc_results s @ [By_completion], rc_poller := P_freed\<rparr>)"
proof (cases "rc_flag s")
  case True
  let ?a = "s\<lparr>rc_poller := P_lost\<rparr>"
  have "race_step s ?a" using assms True by (rule poller_loses)
  moreover have "race_step ?a (?a\<lparr>rc_poller := P_ran\<rparr>)" by (rule poller_skips) simp
  moreover have "race_step (?a\<lparr>rc_poller := P_ran\<rparr>) (?a\<lparr>rc_poller := P_ran\<rparr>\<lparr>rc_poller := P_freed\<rparr>)"
    by (rule poller_frees) simp
  ultimately have "race_step\<^sup>*\<^sup>* s (?a\<lparr>rc_poller := P_ran\<rparr>\<lparr>rc_poller := P_freed\<rparr>)" by simp
  with True show ?thesis by simp
next
  case False
  let ?a = "s\<lparr>rc_flag := True, rc_poller := P_won\<rparr>"
  let ?b = "?a\<lparr>rc_results := rc_results ?a @ [By_completion], rc_poller := P_ran\<rparr>"
  have "race_step s ?a" using assms False by (rule poller_wins)
  moreover have "race_step ?a ?b" by (rule poller_completes) simp
  moreover have "race_step ?b (?b\<lparr>rc_poller := P_freed\<rparr>)" by (rule poller_frees) simp
  ultimately have "race_step\<^sup>*\<^sup>* s (?b\<lparr>rc_poller := P_freed\<rparr>)" by simp
  with False show ?thesis by simp
qed

text \<open>A receive that waits for its completion, as initiating it leaves it or a cancellation after that.\<close>

definition recv_waits :: "nat \<Rightarrow> u64 \<Rightarrow> asio_exec \<Rightarrow> bool" where
  "recv_waits k cb s = (case op_at s k of None \<Rightarrow> False
     | Some r \<Rightarrow> ao_slot r \<and> ao_callback r = cb \<and> cb \<noteq> 0 \<and> ex_callbacks s cb = Some (Recv_callback k) \<and>
         (case ao_awaitable r of Send_aw _ \<Rightarrow> False
          | Recv_aw a \<Rightarrow> op_wr_opcode (ra_state a) = None \<and> ra_exception a = None) \<and>
         ao_complete_called r = (ao_completions r \<noteq> []))"

lemma recv_waitsE:
  assumes "recv_waits k cb s"
  obtains r a where "op_at s k = Some r" and "ao_slot r" and "ao_callback r = cb" and "cb \<noteq> 0"
    and "ex_callbacks s cb = Some (Recv_callback k)" and "ao_awaitable r = Recv_aw a"
    and "op_wr_opcode (ra_state a) = None" and "ra_exception a = None"
    and "ao_complete_called r = (ao_completions r \<noteq> [])" and "self_alive s k"
  using assms by (auto simp: recv_waits_def self_alive_def split: option.splits awaitable.splits)

lemma recv_cancel_refines:
  assumes "recv_waits k cb s"
  shows "\<exists>t. recv_cancel ends k False s = (Inr (), t) \<and> race_step\<^sup>*\<^sup>* (race_of k s) (race_of k t) \<and> recv_waits k cb t"
proof -
  from assms obtain r a where op: "op_at s k = Some r" and slot: "ao_slot r" and cb: "ao_callback r = cb" "cb \<noteq> 0"
    and live: "ex_callbacks s cb = Some (Recv_callback k)" and aw: "ao_awaitable r = Recv_aw a"
    and a: "op_wr_opcode (ra_state a) = None" "ra_exception a = None"
    and flag: "ao_complete_called r = (ao_completions r \<noteq> [])" and alive: "self_alive s k"
    by (rule recv_waitsE)
  have rs: "race_of k s = \<lparr>rc_flag = ao_complete_called r, rc_poller = P_wait, rc_canceller = K_idle,
      rc_results = map result_of (ao_completions r), rc_lost = False\<rparr>"
    using op alive flag by (simp add: race_of_def)
  show ?thesis
  proof (cases "ao_complete_called r")
    case True
    then have "recv_cancel ends k False s = (Inr (), s)" using op slot by (simp add: recv_cancel_def se_defs)
    then show ?thesis using assms by blast
  next
    case False
    let ?f = "\<lambda>r. r\<lparr>ao_complete_called := True\<rparr>"
    let ?g = "\<lambda>r. r\<lparr>ao_completions := ao_completions r @ [Received (Some operation_aborted) (0, None)]\<rparr>"
    let ?t = "update_op k ?g (update_op k ?f s)"
    have run: "recv_cancel ends k False s = (Inr (), ?t)"
      using op slot alive False by (simp add: recv_cancel_def self_complete_def se_defs)
    have opt: "op_at ?t k = Some (?g (?f r))" using op by (simp add: op_at_update)
    then have alt: "self_alive ?t k" using live cb by (simp add: self_alive_def)
    have "race_of k ?t = (race_of k s)\<lparr>rc_flag := True, rc_results := rc_results (race_of k s) @ [By_cancel]\<rparr>"
      unfolding rs using alt opt by (simp add: race_of_def)
    then have "race_step\<^sup>*\<^sup>* (race_of k s) (race_of k ?t)"
      using cancel_run [of "race_of k s"] False by (simp add: rs)
    moreover have "recv_waits k cb ?t" using opt live cb slot aw a by (simp add: recv_waits_def)
    ultimately show ?thesis using run by blast
  qed
qed

lemma recv_deliver_refines:
  assumes "recv_waits k cb s" and "wc_wr_id wc = cb" and "wc_status wc = IBV_WC_SUCCESS"
  shows "\<exists>u. execute_callback_asio (run_closure V ends) wc s = (Inr (), u) \<and>
      race_step\<^sup>*\<^sup>* (race_of k s) (race_of k u) \<and> rc_poller (race_of k u) = P_freed"
proof -
  from assms(1) obtain r a where op: "op_at s k = Some r" and slot: "ao_slot r" and cb: "ao_callback r = cb" "cb \<noteq> 0"
    and live: "ex_callbacks s cb = Some (Recv_callback k)" and aw: "ao_awaitable r = Recv_aw a"
    and a: "op_wr_opcode (ra_state a) = None" "ra_exception a = None"
    and flag: "ao_complete_called r = (ao_completions r \<noteq> [])" and alive: "self_alive s k"
    by (rule recv_waitsE)
  have rs: "race_of k s = \<lparr>rc_flag = ao_complete_called r, rc_poller = P_wait, rc_canceller = K_idle,
      rc_results = map result_of (ao_completions r), rc_lost = False\<rparr>"
    using op alive flag by (simp add: race_of_def)
  show ?thesis
  proof (cases "ao_complete_called r")
    case True
    let ?u = "s\<lparr>ex_callbacks := (ex_callbacks s)(cb := None)\<rparr>"
    have run: "execute_callback_asio (run_closure V ends) wc s = (Inr (), ?u)"
      using live cb assms(2) True
      by (simp add: execute_callback_asio_def noexceptS_def se_defs run_recv [OF op aw a(1)] destroy_callback_def)
    have "\<not> self_alive ?u k" using op cb by (simp add: self_alive_def)
    then have "race_of k ?u = (race_of k s)\<lparr>rc_poller := P_freed\<rparr>"
      unfolding rs using op True flag by (simp add: race_of_def)
    with run deliver_run [of "race_of k s"] True show ?thesis by (auto simp: rs)
  next
    case False
    let ?w = "completed k wc (Received (ra_exception a) (recv_value V wc)) (flagged k s)"
    let ?u = "?w\<lparr>ex_callbacks := (ex_callbacks s)(cb := None)\<rparr>"
    have run: "execute_callback_asio (run_closure V ends) wc s = (Inr (), ?u)"
      using live cb assms(2,3) False
      by (simp add: execute_callback_asio_def noexceptS_def se_defs run_recv [OF op aw a(1)] destroy_callback_def)
    obtain r' where r': "op_at ?u k = Some r'" "ao_callback r' = cb" "ao_complete_called r'"
        "ao_completions r' = ao_completions r @ [Received None (recv_value V wc)]"
      using op cb a(2) by (simp add: completed_def flagged_def op_at_update store_wc_def)
    then have "\<not> self_alive ?u k" by (simp add: self_alive_def)
    then have "race_of k ?u = (race_of k s)\<lparr>rc_flag := True, rc_poller := P_freed,
        rc_results := rc_results (race_of k s) @ [By_completion]\<rparr>"
      unfolding rs using r' by (simp add: race_of_def)
    with run deliver_run [of "race_of k s"] False show ?thesis by (auto simp: rs)
  qed
qed

text \<open>
  C8: the code's cancellation handler and its callback, each run without interruption, are
  runs of the steps above: whatever the steps cannot do, the handler and the delivery of a successful
  completion cannot do to a waiting receive, and the receive waits on after a cancellation
  until its callback was freed.
\<close>

theorem recv_operations_refine_steps:
  assumes "recv_waits k cb s" and "wc_wr_id wc = cb" and "wc_status wc = IBV_WC_SUCCESS"
  shows "\<exists>t u. recv_cancel ends k False s = (Inr (), t) \<and>
           race_step\<^sup>*\<^sup>* (race_of k s) (race_of k t) \<and> recv_waits k cb t \<and>
         execute_callback_asio (run_closure V ends) wc s = (Inr (), u) \<and>
           race_step\<^sup>*\<^sup>* (race_of k s) (race_of k u) \<and> rc_poller (race_of k u) = P_freed"
  using recv_cancel_refines [OF assms(1)] recv_deliver_refines [OF assms] by blast

theorem recv_operations_refine_steps_witness:
  "\<exists>t. recv_cancel ends 0 False sample_exec = (Inr (), t) \<and>
     race_step\<^sup>*\<^sup>* (race_of 0 sample_exec) (race_of 0 t) \<and> recv_waits 0 8 t"
proof -
  have "recv_waits 0 8 sample_exec" and "wc_wr_id sample_wc = 8" and "wc_status sample_wc = IBV_WC_SUCCESS"
    by (simp_all add: recv_waits_def sample_exec_def sample_wc_def op_at_def waiting_op_def
        recv_awaitable_view_def operation_state_recv_def)
  from recv_operations_refine_steps [OF this, of quiet_verbs] show ?thesis by blast
qed

end
