(* ===== verification/Cq_Poller.thy ===== *)
theory Cq_Poller
  imports Executor
begin

text \<open>
  \<^verbatim>\<open>include/rdmapp/cq_poller.h\<close>, \<^verbatim>\<open>src/cq_poller.cc\<close>: the thread that polls a
  completion queue and hands what it got to the executor. The loop may run for ever, so it
  is a partial function: \<open>None\<close> is not returning. \<open>stop i\<close> is the answer of the stop token when it
  is asked for the \<open>i\<close>-th time.
\<close>

section \<open>The loop\<close>

record cq_poller =
  cp_wc_vec :: "ibv_wc list"
  cp_cq :: cq

definition zero_wc :: ibv_wc where
  "zero_wc = \<lparr>wc_wr_id = 0, wc_status = IBV_WC_SUCCESS, wc_byte_len = 0, wc_imm_data = 0, wc_flags = 0\<rparr>"

definition cq_poller_ctor :: "cq \<Rightarrow> nat \<Rightarrow> cq_poller" where
  "cq_poller_ctor q batch_size = \<lparr>cp_wc_vec = replicate batch_size zero_wc, cp_cq = q\<rparr>"

text \<open>One round after the stop token said no: \<open>Inl\<close> ends the loop, \<open>Inr\<close> goes round again.\<close>

definition worker_round ::
  "verbs \<Rightarrow> (ibv_wc \<Rightarrow> ('s, unit) se) \<Rightarrow> cq \<Rightarrow> ibv_wc list \<Rightarrow> world \<times> 's \<Rightarrow>
     ((exn + unit) + ibv_wc list) \<times> world \<times> 's" where
  "worker_round V exec q wc_vec s = (case s of (w, e) \<Rightarrow>
     (case cq_poll_vec V q wc_vec w of
        (Inl ex, w') \<Rightarrow> (Inl (if runtime_error ex then Inr () else Inl ex), w', e)
      | (Inr (nr_wc, wc_vec), w') \<Rightarrow>
          if nr_wc = 0 then (Inr wc_vec, w', e)
          else if length wc_vec < unat nr_wc
          then (Inl (Inl (Undefined_behaviour ''span beyond wc_vec_'')), w', e)
          else (case process_wc exec (take (unat nr_wc) wc_vec) e of
              (Inl ex, e') \<Rightarrow> (Inl (if runtime_error ex then Inr () else Inl ex), w', e')
            | (Inr _, e') \<Rightarrow> (Inr wc_vec, w', e'))))"

partial_function (option) worker ::
  "verbs \<Rightarrow> (ibv_wc \<Rightarrow> ('s, unit) se) \<Rightarrow> cq \<Rightarrow> (nat \<Rightarrow> bool) \<Rightarrow> nat \<Rightarrow> ibv_wc list \<Rightarrow> world \<times> 's \<Rightarrow>
     ((exn + unit) \<times> world \<times> 's) option" where
  "worker V exec q stop i wc_vec s =
     (if stop i then Some (Inr (), s)
      else (case worker_round V exec q wc_vec s of
          (Inl r, s') \<Rightarrow> Some (r, s')
        | (Inr wc_vec, s') \<Rightarrow> worker V exec q stop (Suc i) wc_vec s'))"

definition run_poller ::
  "verbs \<Rightarrow> (ibv_wc \<Rightarrow> ('s, unit) se) \<Rightarrow> (nat \<Rightarrow> bool) \<Rightarrow> cq_poller \<Rightarrow> world \<times> 's \<Rightarrow>
     ((exn + unit) \<times> world \<times> 's) option" where
  "run_poller V exec stop p s = worker V exec (cp_cq p) stop 0 (cp_wc_vec p) s"

section \<open>Termination\<close>

lemma worker_stops: "stop (i + k) \<Longrightarrow> \<exists>r. worker V exec q stop i wc_vec s = Some r"
proof (induction k arbitrary: i wc_vec s)
  case 0
  then show ?case by (simp add: worker.simps)
next
  case (Suc k)
  have again: "\<exists>r. worker V exec q stop (Suc i) buf t = Some r" for buf t
    using Suc.IH [of "Suc i" buf t] Suc.prems by simp
  show ?case
    using again by (subst worker.simps) (auto split: sum.split prod.split)
qed

section \<open>What is processed\<close>

lemma process_each_append:
  "process_each exec (xs @ ys) e = (case process_each exec xs e of
     (Inl ex, e') \<Rightarrow> (Inl ex, e') | (Inr _, e') \<Rightarrow> process_each exec ys e')"
  by (induction xs arbitrary: e) (simp_all add: se_defs split: prod.split sum.split)

lemma process_wc_ok: "process_each exec xs e = (Inr (), e') \<Longrightarrow> process_wc exec xs e = (Inr (), e')"
  by (simp add: process_wc_def noexceptS_def se_defs)

text \<open>The \<open>j\<close>-th poll of a queue that only the poller uses, and its answer.\<close>

definition poll_hist :: "cq \<Rightarrow> nat \<Rightarrow> history \<Rightarrow> nat \<Rightarrow> history" where
  "poll_hist q n h j = h @ replicate j (Poll_cq (cq_cq q) (int n))"

definition poll_rc :: "verbs \<Rightarrow> cq \<Rightarrow> nat \<Rightarrow> history \<Rightarrow> nat \<Rightarrow> int" where
  "poll_rc V q n h j = v_rc V (poll_hist q n h j) (Poll_cq (cq_cq q) (int n))"

definition poll_wcs :: "verbs \<Rightarrow> cq \<Rightarrow> nat \<Rightarrow> history \<Rightarrow> nat \<Rightarrow> ibv_wc list" where
  "poll_wcs V q n h j = v_polled V (poll_hist q n h j) (Poll_cq (cq_cq q) (int n))"

text \<open>\<open>ibv_poll_cq(3)\<close>: the number of completions returned is the result, at most the size given.\<close>

definition poll_documented :: "verbs \<Rightarrow> cq \<Rightarrow> nat \<Rightarrow> history \<Rightarrow> nat \<Rightarrow> bool" where
  "poll_documented V q n h j \<longleftrightarrow> 0 \<le> poll_rc V q n h j \<and> poll_rc V q n h j \<le> int n \<and>
     length (poll_wcs V q n h j) = nat (poll_rc V q n h j)"

lemma unat_of_rc: "0 \<le> rc \<Longrightarrow> rc \<le> int n \<Longrightarrow> n < 2 ^ 31 \<Longrightarrow> unat (word_of_int rc :: size_t) = nat rc"
  by (simp add: unsigned_of_int take_bit_int_eq_self)

lemma overwrite_length: "length new \<le> length old \<Longrightarrow> length (overwrite new old) = length old"
  by (simp add: overwrite_def)

lemma round_ok:
  assumes "poll_documented V q n h 0" and "length wc_vec = n" and "0 < n" and "n < 2 ^ 31" and "calls w = h"
    and "process_each exec (poll_wcs V q n h 0) e = (Inr (), e')"
  shows "\<exists>wc_vec'. length wc_vec' = n \<and>
     worker_round V exec q wc_vec (w, e) = (Inr wc_vec', record_call (Poll_cq (cq_cq q) (int n)) w, e')"
proof -
  let ?c = "Poll_cq (cq_cq q) (int n)"
  let ?rc = "v_rc V (calls w) ?c" and ?new = "v_polled V (calls w) ?c"
  have doc: "0 \<le> ?rc" "?rc \<le> int n" "length ?new = nat ?rc"
    using assms(1,5) by (simp_all add: poll_documented_def poll_rc_def poll_wcs_def poll_hist_def)
  have run: "process_each exec ?new e = (Inr (), e')"
    using assms(5,6) by (simp add: poll_wcs_def poll_hist_def)
  have poll: "cq_poll_vec V q wc_vec w =
      (Inr (word_of_int ?rc, overwrite ?new wc_vec), record_call ?c w)"
    using assms(2,3) doc(1) by (auto simp: cq_poll_vec_def cq_poll_it_def poll_call_def se_defs Let_def)
  have len: "length (overwrite ?new wc_vec) = n"
    using doc assms(2) by (simp add: overwrite_length)
  have nr: "unat (word_of_int ?rc :: size_t) = nat ?rc"
    using doc(1,2) assms(4) by (rule unat_of_rc)
  have taken: "take (nat ?rc) (overwrite ?new wc_vec) = ?new"
    using doc(3) by (simp add: overwrite_def)
  show ?thesis
  proof (cases "?rc = 0")
    case True
    then have "?new = []" using doc(3) by simp
    then have "e' = e" using run by (simp add: returnS_def)
    with True poll len show ?thesis by (simp add: worker_round_def)
  next
    case False
    then have nz: "(word_of_int ?rc :: size_t) \<noteq> 0"
      using nr doc(1) by (metis nat_0_iff order_antisym unat_0)
    have "nat ?rc \<le> n" using doc(2) by simp
    with nz poll len nr taken process_wc_ok [OF run] show ?thesis
      by (simp add: worker_round_def)
  qed
qed

lemma hist_shift: "poll_hist q n (h @ [Poll_cq (cq_cq q) (int n)]) j = poll_hist q n h (Suc j)"
  by (simp add: poll_hist_def replicate_append_same)

lemma poll_shift:
  "poll_rc V q n (h @ [Poll_cq (cq_cq q) (int n)]) j = poll_rc V q n h (Suc j)"
  "poll_wcs V q n (h @ [Poll_cq (cq_cq q) (int n)]) j = poll_wcs V q n h (Suc j)"
  "poll_documented V q n (h @ [Poll_cq (cq_cq q) (int n)]) j = poll_documented V q n h (Suc j)"
  by (simp_all add: poll_rc_def poll_wcs_def poll_documented_def hist_shift)

lemma worker_rounds:
  assumes "\<And>j. j < m \<Longrightarrow> \<not> stop (i + j) \<and> poll_documented V q n (calls w) j"
    and "length wc_vec = n" and "0 < n" and "n < 2 ^ 31"
    and "process_each exec (concat (map (poll_wcs V q n (calls w)) [0..<m])) e = (Inr (), e')"
  shows "\<exists>wc_vec' w'. length wc_vec' = n \<and> calls w' = poll_hist q n (calls w) m \<and>
     worker V exec q stop i wc_vec (w, e) = worker V exec q stop (i + m) wc_vec' (w', e')"
  using assms
proof (induction m arbitrary: i wc_vec w e)
  case 0
  then show ?case by (intro exI [of _ wc_vec] exI [of _ w]) (simp add: poll_hist_def returnS_def)
next
  case (Suc m)
  let ?c = "Poll_cq (cq_cq q) (int n)"
  have split: "[0..<Suc m] = 0 # map Suc [0..<m]" by (simp add: map_Suc_upt upt_conv_Cons)
  obtain e1 where e1: "process_each exec (poll_wcs V q n (calls w) 0) e = (Inr (), e1)"
      "process_each exec (concat (map (poll_wcs V q n (calls w)) (map Suc [0..<m]))) e1 = (Inr (), e')"
    using Suc.prems(5) unfolding split
    by (auto simp: process_each_append split: prod.splits sum.splits)
  have "poll_documented V q n (calls w) 0" and ns: "\<not> stop i" using Suc.prems(1) [of 0] by simp_all
  from round_ok [OF this(1) Suc.prems(2,3,4) refl e1(1)] obtain wc_vec1 where
    r: "length wc_vec1 = n" "worker_round V exec q wc_vec (w, e) = (Inr wc_vec1, record_call ?c w, e1)"
    by blast
  have step: "worker V exec q stop i wc_vec (w, e) = worker V exec q stop (Suc i) wc_vec1 (record_call ?c w, e1)"
    by (subst worker.simps) (simp add: ns r(2))
  have "\<not> stop (Suc i + j) \<and> poll_documented V q n (calls (record_call ?c w)) j" if "j < m" for j
    using Suc.prems(1) [of "Suc j"] that by (simp add: poll_shift)
  moreover have "process_each exec (concat (map (poll_wcs V q n (calls (record_call ?c w))) [0..<m])) e1 = (Inr (), e')"
    using e1(2) by (simp add: poll_shift(2) [abs_def] comp_def)
  ultimately obtain wc_vec' w' where "length wc_vec' = n" "calls w' = poll_hist q n (calls w) (Suc m)"
      "worker V exec q stop (Suc i) wc_vec1 (record_call ?c w, e1) = worker V exec q stop (Suc i + m) wc_vec' (w', e')"
    using Suc.IH [of "Suc i" "record_call ?c w" wc_vec1 e1] r(1) Suc.prems(3,4) by (auto simp: hist_shift)
  with step show ?case by auto
qed

section \<open>Properties\<close>

text \<open>
  The poller ends: when the stop token says yes at some round, the thread's function
  returns, whatever libibverbs answered and the callbacks did before.
\<close>

theorem poller_stops:
  assumes "stop k"
  shows "\<exists>r. run_poller V exec stop p s = Some r"
  using worker_stops [of stop 0 k] assms by (simp add: run_poller_def)

theorem poller_stops_witness:
  "\<exists>r. run_poller quiet_verbs (\<lambda>w. returnS ()) (\<lambda>i. i = 3) (cq_poller_ctor sample_cq 16) (fresh_world, ()) = Some r"
  by (rule poller_stops [of "\<lambda>i. i = 3" 3]) simp

text \<open>
  C16: what the poller processes: as long as libibverbs polls as documented, every completion it
  returns is executed exactly once and in the order it was polled, over all batches; the thread ends when it
  is told to stop after \<open>m\<close> rounds, and also, without an error for anyone, when the
  \<open>m\<close>-th poll fails: then completions that arrive later are never looked at, however
  long the stop is in coming.
\<close>

theorem poller_processes_in_order:
  assumes "\<forall>j < m. \<not> stop j \<and> poll_documented V q n (calls w) j" and "0 < n" and "n < 2 ^ 31"
    and "process_each exec (concat (map (poll_wcs V q n (calls w)) [0..<m])) e = (Inr (), e')"
    and "stop m \<or> poll_rc V q n (calls w) m < 0"
  shows "\<exists>w'. run_poller V exec stop (cq_poller_ctor q n) (w, e) = Some (Inr (), (w', e')) \<and>
     calls w' = poll_hist q n (calls w) (if stop m then m else Suc m)"
proof -
  let ?c = "Poll_cq (cq_cq q) (int n)"
  have rounds: "\<not> stop (0 + j) \<and> poll_documented V q n (calls w) j" if "j < m" for j
    using assms(1) that by simp
  have len: "length (replicate n zero_wc) = n" by simp
  obtain wc_vec w' where w': "length wc_vec = n" "calls w' = poll_hist q n (calls w) m"
      "worker V exec q stop 0 (replicate n zero_wc) (w, e) = worker V exec q stop (0 + m) wc_vec (w', e')"
    using worker_rounds [where i = 0, OF rounds len assms(2,3,4)] by auto
  show ?thesis
  proof (cases "stop m")
    case True
    with w' show ?thesis by (simp add: run_poller_def cq_poller_ctor_def worker.simps)
  next
    case False
    then have "v_rc V (calls w') ?c < 0" using assms(5) w'(2) by (simp add: poll_rc_def)
    then have "worker_round V exec q wc_vec (w', e') = (Inl (Inr ()), record_call ?c w', e')"
      using w'(1) assms(2)
      by (auto simp: worker_round_def cq_poll_vec_def cq_poll_it_def poll_call_def se_defs se_simps Let_def)
    then have "worker V exec q stop m wc_vec (w', e') = Some (Inr (), record_call ?c w', e')"
      using False by (subst worker.simps) simp
    with w' False show ?thesis
      by (simp add: run_poller_def cq_poller_ctor_def poll_hist_def replicate_append_same)
  qed
qed

definition one_then_error :: verbs where
  "one_then_error = quiet_verbs\<lparr>v_rc := (\<lambda>h c. if h = [] then 1 else - 5),
     v_polled := (\<lambda>h c. if h = [] then [zero_wc\<lparr>wc_wr_id := 7\<rparr>] else [])\<rparr>"

theorem poller_processes_in_order_witness:
  "\<exists>w'. run_poller one_then_error (\<lambda>w. modifyS (\<lambda>ids. ids @ [wc_wr_id w])) (\<lambda>i. False)
     (cq_poller_ctor sample_cq 16) (fresh_world, []) = Some (Inr (), (w', [7]))"
proof -
  have "\<forall>j < 1. \<not> False \<and> poll_documented one_then_error sample_cq 16 (calls fresh_world) j"
    by (simp add: poll_documented_def poll_rc_def poll_wcs_def poll_hist_def one_then_error_def fresh_world_def)
  moreover have "process_each (\<lambda>w. modifyS (\<lambda>ids. ids @ [wc_wr_id w]))
      (concat (map (poll_wcs one_then_error sample_cq 16 (calls fresh_world)) [0..<1])) [] = (Inr (), [7])"
    by (simp add: poll_wcs_def poll_hist_def one_then_error_def fresh_world_def se_defs)
  moreover have "False \<or> poll_rc one_then_error sample_cq 16 (calls fresh_world) 1 < 0"
    by (simp add: poll_rc_def poll_hist_def one_then_error_def fresh_world_def)
  ultimately show ?thesis
    using poller_processes_in_order [of 1 "\<lambda>i. False" one_then_error sample_cq 16 fresh_world] by fastforce
qed

text \<open>A poller made with batch size 0 reads \<open>wc_vec_[0]\<close> of an empty vector in its first round.\<close>

lemma poller_of_nothing:
  "\<not> stop 0 \<Longrightarrow> run_poller V exec stop (cq_poller_ctor q 0) s =
     Some (Inl (Undefined_behaviour ''wc_vec[0] of an empty vector''), s)"
  by (cases s) (simp add: run_poller_def cq_poller_ctor_def worker.simps worker_round_def cq_poll_vec_def se_defs)

end

