(* ===== verification/Blocking_Queue.thy ===== *)
theory Blocking_Queue
  imports Rdmapp_Prelude
begin

text \<open>
  \<^verbatim>\<open>include/rdmapp/detail/blocking_queue.h\<close>: a mutex, a condition variable, a queue and
  a flag. Each critical section is one atomic step; what a thread does between two of
  them (sleeping in \<open>cv_.wait\<close>, being woken, getting the mutex back) is part of the state.
\<close>

section \<open>The critical sections\<close>

record 'a blocking_queue =
  bq_queue :: "'a list"
  bq_closed :: bool

text \<open>The class has no constructor: \<open>closed_\<close> starts with whatever is in memory.\<close>

definition blocking_queue_ctor :: "bool \<Rightarrow> 'a blocking_queue" where
  "blocking_queue_ctor mem = \<lparr>bq_queue = [], bq_closed = mem\<rparr>"

datatype notification = Notify_none | Notify_one | Notify_all

definition bq_push :: "'a \<Rightarrow> ('a blocking_queue, notification) se" where
  "bq_push item = bindS getS (\<lambda>b.
     if bq_closed b then throwS Queue_closed_error
     else thenS (modifyS (\<lambda>b. b\<lparr>bq_queue := bq_queue b @ [item]\<rparr>)) (returnS Notify_one))"

text \<open>\<open>pop\<close> from where it holds the mutex: \<open>None\<close> is \<open>cv_.wait\<close> going to sleep.\<close>

definition bq_pop :: "('a blocking_queue, 'a option) se" where
  "bq_pop = bindS getS (\<lambda>b.
     if \<not> (bq_queue b \<noteq> [] \<or> bq_closed b) then returnS None
     else if bq_queue b = [] then throwS Queue_closed_error
     else thenS (modifyS (\<lambda>b. b\<lparr>bq_queue := tl (bq_queue b)\<rparr>)) (returnS (Some (hd (bq_queue b)))))"

definition bq_close :: "('a blocking_queue, notification) se" where
  "bq_close = thenS (modifyS (\<lambda>b. b\<lparr>bq_closed := True\<rparr>)) (returnS Notify_all)"

section \<open>Threads\<close>

text \<open>
  Threads sleep in \<open>cv_.wait\<close> or were woken and wait for the mutex to look at the predicate
  again. \<open>sy_pushed\<close> and \<open>sy_popped\<close> are history: the items that went in and came out, in order.
\<close>

record 'a system =
  sy_bq :: "'a blocking_queue"
  sy_sleeping :: "nat set"
  sy_woken :: "nat set"
  sy_pushed :: "'a list"
  sy_popped :: "'a list"

definition sy_start :: "'a system \<Rightarrow> bool" where
  "sy_start s \<longleftrightarrow> (\<exists>mem. s = \<lparr>sy_bq = blocking_queue_ctor mem, sy_sleeping = {}, sy_woken = {},
     sy_pushed = [], sy_popped = []\<rparr>)"

text \<open>
  A popping thread \<open>t\<close> is outside (it calls \<open>pop\<close>) or woken (it goes on in \<open>wait\<close>); both run
  \<open>bq_pop\<close>. \<open>notify_one\<close> wakes one sleeper if there is one, and a sleeper may wake by itself.
\<close>

inductive sy_step :: "'a system \<Rightarrow> 'a system \<Rightarrow> bool" where
  push_nobody: "bq_push x (sy_bq s) = (Inr Notify_one, b) \<Longrightarrow> sy_sleeping s = {} \<Longrightarrow>
     sy_step s (s\<lparr>sy_bq := b, sy_pushed := sy_pushed s @ [x]\<rparr>)"
| push_wakes: "bq_push x (sy_bq s) = (Inr Notify_one, b) \<Longrightarrow> t \<in> sy_sleeping s \<Longrightarrow>
     sy_step s (s\<lparr>sy_bq := b, sy_pushed := sy_pushed s @ [x],
       sy_sleeping := sy_sleeping s - {t}, sy_woken := insert t (sy_woken s)\<rparr>)"
| push_throws: "bq_push x (sy_bq s) = (Inl e, b) \<Longrightarrow> sy_step s (s\<lparr>sy_bq := b\<rparr>)"
| pop_item: "bq_pop (sy_bq s) = (Inr (Some x), b) \<Longrightarrow> t \<notin> sy_sleeping s \<Longrightarrow>
     sy_step s (s\<lparr>sy_bq := b, sy_popped := sy_popped s @ [x], sy_woken := sy_woken s - {t}\<rparr>)"
| pop_sleeps: "bq_pop (sy_bq s) = (Inr None, b) \<Longrightarrow> t \<notin> sy_sleeping s \<Longrightarrow>
     sy_step s (s\<lparr>sy_bq := b, sy_sleeping := insert t (sy_sleeping s), sy_woken := sy_woken s - {t}\<rparr>)"
| pop_throws: "bq_pop (sy_bq s) = (Inl e, b) \<Longrightarrow> t \<notin> sy_sleeping s \<Longrightarrow>
     sy_step s (s\<lparr>sy_bq := b, sy_woken := sy_woken s - {t}\<rparr>)"
| close_all: "bq_close (sy_bq s) = (Inr Notify_all, b) \<Longrightarrow>
     sy_step s (s\<lparr>sy_bq := b, sy_woken := sy_woken s \<union> sy_sleeping s, sy_sleeping := {}\<rparr>)"
| spurious: "t \<in> sy_sleeping s \<Longrightarrow>
     sy_step s (s\<lparr>sy_sleeping := sy_sleeping s - {t}, sy_woken := insert t (sy_woken s)\<rparr>)"

inductive_cases sy_stepE: "sy_step s t"

lemma bq_push_cases:
  "bq_push x b = (if bq_closed b then (Inl Queue_closed_error, b)
     else (Inr Notify_one, b\<lparr>bq_queue := bq_queue b @ [x]\<rparr>))"
  by (simp add: bq_push_def se_defs)

lemma bq_pop_cases:
  "bq_pop b = (case bq_queue b of
     [] \<Rightarrow> if bq_closed b then (Inl Queue_closed_error, b) else (Inr None, b)
   | x # xs \<Rightarrow> (Inr (Some x), b\<lparr>bq_queue := xs\<rparr>))"
  by (simp add: bq_pop_def se_defs split: list.split)

lemma bq_close_eq: "bq_close b = (Inr Notify_all, b\<lparr>bq_closed := True\<rparr>)"
  by (simp add: bq_close_def se_defs)

section \<open>The invariant\<close>

text \<open>
  Nothing is lost, doubled or reordered; and a sleeper sleeps for a reason: the queue
  is open, and every item in it has a woken thread on its way to take it.
\<close>

definition sy_inv :: "'a system \<Rightarrow> bool" where
  "sy_inv s \<longleftrightarrow> sy_pushed s = sy_popped s @ bq_queue (sy_bq s) \<and>
     finite (sy_sleeping s) \<and> finite (sy_woken s) \<and> sy_sleeping s \<inter> sy_woken s = {} \<and>
     (sy_sleeping s = {} \<or> (\<not> bq_closed (sy_bq s) \<and> length (bq_queue (sy_bq s)) \<le> card (sy_woken s)))"

lemma card_Diff_le: "finite A \<Longrightarrow> card A \<le> Suc (card (A - {t}))"
  by (cases "t \<in> A") (simp_all add: card_Diff_singleton_if)

lemma sy_inv_step:
  assumes "sy_inv s" and "sy_step s u"
  shows "sy_inv u"
  using assms(2,1)
proof cases
  case (push_wakes x b t)
  then have "t \<notin> sy_woken s" using assms(1) by (auto simp: sy_inv_def)
  with push_wakes assms(1) show ?thesis
    by (auto simp: sy_inv_def bq_push_cases split: if_splits)
next
  case (pop_item x b t)
  have "finite (sy_woken s)" using assms(1) by (simp add: sy_inv_def)
  from card_Diff_le [OF this, of t] pop_item assms(1) show ?thesis
    by (auto simp: sy_inv_def bq_pop_cases split: list.splits if_splits)
next
  case (spurious t)
  then have "t \<notin> sy_woken s" using assms(1) by (auto simp: sy_inv_def)
  with spurious assms(1) show ?thesis by (auto simp: sy_inv_def)
qed (auto simp: sy_inv_def bq_push_cases bq_pop_cases bq_close_eq split: list.splits if_splits)

interpretation bq: transition_system sy_start sy_step sy_inv
proof
  show "sy_inv s" if "sy_start s" for s :: "'a system"
    using that by (auto simp: sy_start_def sy_inv_def blocking_queue_ctor_def)
qed (rule sy_inv_step)

lemma sy_reach: "reach sy_start sy_step s \<Longrightarrow> sy_step s t \<Longrightarrow> reach sy_start sy_step t"
  by (erule reach.reach_step)

section \<open>Properties\<close>

text \<open>
  C18: in every interleaving of any number of threads that push, pop and close, the items that
  were popped are those that were pushed, in order, none twice, and the rest are in
  the queue; and no wake-up is lost: threads sleep only while the queue is open and at least one
  thread is on its way for each item, so a closed queue, or one with an item nobody was woken for, has no sleeper.
\<close>

theorem blocking_queue_fifo:
  assumes "reach sy_start sy_step s"
  shows "sy_pushed s = sy_popped s @ bq_queue (sy_bq s) \<and>
     (sy_sleeping s = {} \<or> (\<not> bq_closed (sy_bq s) \<and> length (bq_queue (sy_bq s)) \<le> card (sy_woken s)))"
  using bq.reach_inv [OF assms] by (simp add: sy_inv_def)

theorem blocking_queue_fifo_witness:
  "\<exists>s. reach sy_start sy_step s \<and> sy_pushed s = [1 :: nat] \<and> sy_sleeping s = {} \<and> sy_woken s = {7} \<and>
     sy_pushed s = sy_popped s @ bq_queue (sy_bq s)"
proof -
  let ?a = "\<lparr>sy_bq = blocking_queue_ctor False, sy_sleeping = {}, sy_woken = {}, sy_pushed = [], sy_popped = []\<rparr>
      :: nat system"
  let ?b = "?a\<lparr>sy_bq := sy_bq ?a, sy_sleeping := insert 7 (sy_sleeping ?a), sy_woken := sy_woken ?a - {7}\<rparr>"
  let ?q = "(sy_bq ?b)\<lparr>bq_queue := bq_queue (sy_bq ?b) @ [1]\<rparr>"
  let ?c = "?b\<lparr>sy_bq := ?q, sy_pushed := sy_pushed ?b @ [1], sy_sleeping := sy_sleeping ?b - {7},
      sy_woken := insert 7 (sy_woken ?b)\<rparr>"
  have start: "reach sy_start sy_step ?a" by (rule reach_start) (auto simp: sy_start_def)
  have sleep: "sy_step ?a ?b"
    by (rule pop_sleeps) (simp_all add: bq_pop_cases blocking_queue_ctor_def)
  have push: "sy_step ?b ?c"
    by (rule push_wakes) (simp_all add: bq_push_cases blocking_queue_ctor_def)
  have "reach sy_start sy_step ?b" using start sleep by (rule sy_reach)
  then have r: "reach sy_start sy_step ?c" using push by (rule sy_reach)
  from blocking_queue_fifo [OF r] r show ?thesis by (intro exI [of _ ?c]) auto
qed

text \<open>
  A fresh queue may be closed: \<open>closed_\<close> is never initialised, and with a nonzero byte in its
  place every push throws and every pop throws, from the first call on and for ever.
\<close>

theorem blocking_queue_uninitialised:
  "bq_push x (blocking_queue_ctor True) = (Inl Queue_closed_error, blocking_queue_ctor True) \<and>
   bq_pop (blocking_queue_ctor True) = (Inl Queue_closed_error, blocking_queue_ctor True) \<and>
   bq_push x (blocking_queue_ctor False) = (Inr Notify_one, \<lparr>bq_queue = [x], bq_closed = False\<rparr>)"
  by (simp add: bq_push_cases bq_pop_cases blocking_queue_ctor_def)

end
