(* ===== verification/Logger.thy ===== *)
theory Logger
  imports Rdmapp_Prelude
begin

text \<open>
  \<^verbatim>\<open>include/rdmapp/log.h\<close>, \<^verbatim>\<open>include/rdmapp/detail/logger.h\<close>, \<^verbatim>\<open>src/logger.cc\<close>: the
  level filter and the lines it lets through. A message is the text \<open>std::format\<close> made of its
  arguments. The other theories leave log lines out.
\<close>

section \<open>Levels\<close>

datatype level = Trace | Debug | Info | Warn | Error | Critical | Off

fun level_value :: "level \<Rightarrow> nat" where
  "level_value Trace = 0"
| "level_value Debug = 1"
| "level_value Info = 2"
| "level_value Warn = 3"
| "level_value Error = 4"
| "level_value Critical = 5"
| "level_value Off = 6"

lemma level_value_inject: "level_value a = level_value b \<Longrightarrow> a = b"
  by (cases a; cases b) simp_all

text \<open>The order of the enumerators, as the comparison in \<open>log\<close> uses it.\<close>

instantiation level :: linorder
begin

definition less_eq_level :: "level \<Rightarrow> level \<Rightarrow> bool" where
  "less_eq_level a b = (level_value a \<le> level_value b)"

definition less_level :: "level \<Rightarrow> level \<Rightarrow> bool" where
  "less_level a b = (level_value a < level_value b)"

instance
  by standard (auto simp: less_eq_level_def less_level_def level_value_inject)

end

section \<open>The logger\<close>

record logger =
  lg_level :: level
  lg_output :: "string list"

definition logger_instance :: logger where
  "logger_instance = \<lparr>lg_level = Info, lg_output = []\<rparr>"

definition logger_set_level :: "level \<Rightarrow> (logger, unit) se" where
  "logger_set_level lvl = modifyS (\<lambda>g. g\<lparr>lg_level := lvl\<rparr>)"

text \<open>\<open>printf("%s", s.c_str())\<close> prints up to the first zero character.\<close>

definition c_str :: "string \<Rightarrow> string" where
  "c_str s = takeWhile (\<lambda>c. c \<noteq> CHR 0x00) s"

definition logger_log :: "level \<Rightarrow> string \<Rightarrow> string \<Rightarrow> (logger, unit) se" where
  "logger_log lvl level_str message = bindS getS (\<lambda>g.
     if lg_level g \<le> lvl
     then modifyS (\<lambda>g. g\<lparr>lg_output := lg_output g @
            [c_str (''[rdmapp] ['' @ level_str @ ''] '' @ message @ [CHR 0x0A])]\<rparr>)
     else returnS ())"

definition log_trace :: "string \<Rightarrow> (logger, unit) se" where
  "log_trace message = logger_log Trace ''TRACE'' message"

definition log_debug :: "string \<Rightarrow> (logger, unit) se" where
  "log_debug message = logger_log Debug ''DEBUG'' message"

definition log_info :: "string \<Rightarrow> (logger, unit) se" where
  "log_info message = logger_log Info ''INFO '' message"

definition log_warn :: "string \<Rightarrow> (logger, unit) se" where
  "log_warn message = logger_log Warn ''WARN '' message"

definition log_error :: "string \<Rightarrow> (logger, unit) se" where
  "log_error message = logger_log Error ''ERROR'' message"

definition log_critical :: "string \<Rightarrow> (logger, unit) se" where
  "log_critical message = logger_log Critical ''CRIT '' message"

text \<open>\<open>setup\<close> has an empty branch for the log path.\<close>

definition logger_setup :: "level \<Rightarrow> string \<Rightarrow> (logger, unit) se" where
  "logger_setup lvl log_path = thenS (logger_set_level lvl) (if log_path \<noteq> [] then returnS () else returnS ())"

definition setup_log :: "level \<Rightarrow> string \<Rightarrow> (logger, unit) se" where
  "setup_log lvl log_path = logger_setup lvl log_path"

section \<open>Properties\<close>

text \<open>The six calls a client can make, with their severity.\<close>

definition log_calls :: "(level \<times> (string \<Rightarrow> (logger, unit) se)) list" where
  "log_calls = [(Trace, log_trace), (Debug, log_debug), (Info, log_info), (Warn, log_warn),
     (Error, log_error), (Critical, log_critical)]"

fun level_tag :: "level \<Rightarrow> string" where
  "level_tag Trace = ''TRACE''"
| "level_tag Debug = ''DEBUG''"
| "level_tag Info = ''INFO ''"
| "level_tag Warn = ''WARN ''"
| "level_tag Error = ''ERROR''"
| "level_tag Critical = ''CRIT ''"
| "level_tag Off = []"

lemma level_le [simp]: "a \<le> b \<longleftrightarrow> level_value a \<le> level_value b" for a b :: level
  by (simp add: less_eq_level_def)

text \<open>
  After \<open>setup(level, path)\<close>, whatever the path, exactly the calls of that severity or more
  print: each prints one line, and \<open>off\<close> silences all six; no call changes the level.
\<close>

theorem log_filter:
  "map (\<lambda>(sev, f). snd (thenS (setup_log lvl path) (f msg) g)) log_calls =
   map (\<lambda>(sev, f). if lvl \<le> sev
          then g\<lparr>lg_level := lvl, lg_output := lg_output g @
                 [takeWhile (\<lambda>c. c \<noteq> CHR 0x00) (''[rdmapp] ['' @ level_tag sev @ ''] '' @ msg @ [CHR 0x0A])]\<rparr>
          else g\<lparr>lg_level := lvl\<rparr>) log_calls \<and>
   (lvl = Off \<longleftrightarrow> filter (\<lambda>(sev, f). lvl \<le> sev) log_calls = [])"
  by (cases lvl) (simp_all add: c_str_def log_calls_def log_trace_def log_debug_def log_info_def log_warn_def
      log_error_def log_critical_def logger_log_def setup_log_def logger_setup_def logger_set_level_def se_defs)

end
