(* ===== verification/Mr_Ownership.thy ===== *)
theory Mr_Ownership
  imports Qp "HOL-Library.Multiset"
begin

text \<open>
  The life of \<open>local_mr\<close> objects (\<^verbatim>\<open>src/mr.cc\<close>): registration, move construction, move
  assignment and destruction, over a store of objects, and who deregisters what.
\<close>

section \<open>The operations on two objects\<close>

text \<open>A moved-from shared pointer is null (0).\<close>

definition local_mr_move_ctor :: "local_mr \<Rightarrow> local_mr \<times> local_mr" where
  "local_mr_move_ctor other =
     (\<lparr>lmr_mr = lmr_mr other, lmr_pd = lmr_pd other\<rparr>, other\<lparr>lmr_mr := None, lmr_pd := nullptr\<rparr>)"

text \<open>The objects of a program; \<open>None\<close> is an object whose lifetime has ended.\<close>

type_synonym mr_store = "local_mr option list"

text \<open>
  Move assignment on the store, since the two objects may be one: the handle is copied, the shared pointer is
  moved (onto itself it stays as it is), and then the other's handle is cleared.
\<close>

definition local_mr_move_assign :: "nat \<Rightarrow> nat \<Rightarrow> mr_store \<Rightarrow> mr_store option" where
  "local_mr_move_assign this other st =
     (if this < length st \<and> other < length st then
        (case (st ! this, st ! other) of
           (Some t, Some r) \<Rightarrow>
             (let st = st[this := Some (t\<lparr>lmr_mr := lmr_mr r\<rparr>)];
                  st = (if this = other then st
                        else st[this := Some \<lparr>lmr_mr = lmr_mr r, lmr_pd = lmr_pd r\<rparr>,
                                other := Some (r\<lparr>lmr_pd := nullptr\<rparr>)]) in
              Some (st[other := map_option (\<lambda>r. r\<lparr>lmr_mr := None\<rparr>) (st ! other)]))
         | _ \<Rightarrow> None)
      else None)"

section \<open>Programs\<close>

text \<open>
  What a program does with regions; using an object outside its lifetime is not a program
  (\<open>None\<close>). \<open>ow_regs\<close> and \<open>ow_lost\<close> are history: the handles registration gave, and those that an
  assignment overwrote or cleared while no object took them over.
\<close>

datatype mr_op = Register ptr size_t | Move_construct nat | Move_assign nat nat | Destroy nat

record ownership =
  ow_store :: mr_store
  ow_world :: world
  ow_regs :: "ptr multiset"
  ow_lost :: "ptr multiset"

definition handle_of :: "local_mr option \<Rightarrow> ptr multiset" where
  "handle_of obj = (case obj of None \<Rightarrow> {#} | Some m \<Rightarrow>
     (case lmr_mr m of None \<Rightarrow> {#} | Some mr \<Rightarrow> {#mr_handle mr#}))"

definition owned :: "mr_store \<Rightarrow> ptr multiset" where
  "owned st = sum_list (map handle_of st)"

fun mr_step :: "verbs \<Rightarrow> pd \<Rightarrow> mr_op \<Rightarrow> ownership \<Rightarrow> ownership option" where
  "mr_step V p (Register b n) s = (case reg_mr V p b n reg_mr_default_flags (ow_world s) of
     (Inl e, w) \<Rightarrow> Some (s\<lparr>ow_world := w\<rparr>)
   | (Inr m, w) \<Rightarrow> Some (s\<lparr>ow_store := ow_store s @ [Some m], ow_world := w,
                       ow_regs := ow_regs s + handle_of (Some m)\<rparr>))"
| "mr_step V p (Move_construct i) s =
     (if i < length (ow_store s) then (case ow_store s ! i of None \<Rightarrow> None
        | Some other \<Rightarrow> (case local_mr_move_ctor other of
            (m, other') \<Rightarrow> Some (s\<lparr>ow_store := (ow_store s)[i := Some other'] @ [Some m]\<rparr>)))
      else None)"
| "mr_step V p (Move_assign i j) s = (case local_mr_move_assign i j (ow_store s) of None \<Rightarrow> None
     | Some st \<Rightarrow> Some (s\<lparr>ow_store := st, ow_lost := ow_lost s + handle_of (ow_store s ! i)\<rparr>))"
| "mr_step V p (Destroy i) s =
     (if i < length (ow_store s) then (case ow_store s ! i of None \<Rightarrow> None
        | Some m \<Rightarrow> Some (s\<lparr>ow_store := (ow_store s)[i := None], ow_world := snd (local_mr_dtor V m (ow_world s))\<rparr>))
      else None)"

fun mr_run :: "verbs \<Rightarrow> pd \<Rightarrow> mr_op list \<Rightarrow> ownership \<Rightarrow> ownership option" where
  "mr_run V p [] s = Some s"
| "mr_run V p (x # xs) s = Option.bind (mr_step V p x s) (mr_run V p xs)"

definition ownership_init :: "world \<Rightarrow> ownership" where
  "ownership_init w = \<lparr>ow_store = [], ow_world = w, ow_regs = {#}, ow_lost = {#}\<rparr>"

text \<open>The handles deregistered, from the calls made.\<close>

fun dereg_of :: "vcall \<Rightarrow> ptr multiset" where
  "dereg_of (Dereg_mr h) = {#h#}"
| "dereg_of _ = {#}"

definition deregs :: "history \<Rightarrow> ptr multiset" where
  "deregs h = sum_list (map dereg_of h)"

section \<open>Accounting\<close>

lemma owned_append [simp]: "owned (xs @ ys) = owned xs + owned ys"
  by (simp add: owned_def)

lemma owned_single [simp]: "owned [x] = handle_of x"
  by (simp add: owned_def)

lemma deregs_append [simp]: "deregs (xs @ ys) = deregs xs + deregs ys"
  by (simp add: deregs_def)

lemma handle_of_None [simp]: "handle_of None = {#}"
  by (simp add: handle_of_def)

lemma owned_update:
  "i < length st \<Longrightarrow> owned (st[i := x]) + handle_of (st ! i) = owned st + handle_of x"
proof (induction st arbitrary: i)
  case (Cons y st)
  then show ?case by (cases i) (auto simp: owned_def add_ac)
qed simp

text \<open>Every registered handle is deregistered, owned by a live object, or lost, exactly once each time it was registered.\<close>

definition accounted :: "history \<Rightarrow> ownership \<Rightarrow> bool" where
  "accounted h0 s \<longleftrightarrow> deregs (calls (ow_world s)) + owned (ow_store s) + ow_lost s = deregs h0 + ow_regs s"

lemma move_assign_owned:
  assumes "local_mr_move_assign i j st = Some st'"
  shows "owned st' + handle_of (st ! i) = owned st"
proof -
  from assms obtain t r where *: "i < length st" "j < length st" "st ! i = Some t" "st ! j = Some r"
    by (auto simp: local_mr_move_assign_def split: if_splits option.splits)
  have none: "handle_of (Some (m\<lparr>lmr_mr := None\<rparr>)) = {#}" for m by (simp add: handle_of_def)
  show ?thesis
  proof (cases "i = j")
    case True
    with * assms have "st' = st[i := Some (t\<lparr>lmr_mr := None\<rparr>)]"
      by (auto simp: local_mr_move_assign_def Let_def)
    with owned_update [of i st "Some (t\<lparr>lmr_mr := None\<rparr>)"] * none show ?thesis by simp
  next
    case False
    let ?a = "Some \<lparr>lmr_mr = lmr_mr r, lmr_pd = lmr_pd r\<rparr>"
    let ?b = "Some (r\<lparr>lmr_pd := nullptr\<rparr>\<lparr>lmr_mr := None\<rparr>)"
    have st': "st' = st[i := ?a, j := ?b]"
      using * assms False by (auto simp: local_mr_move_assign_def Let_def)
    have "handle_of ?a = handle_of (st ! j)" using * by (simp add: handle_of_def)
    then have a: "owned (st[i := ?a]) + handle_of (st ! i) = owned st + handle_of (st ! j)"
      using owned_update [of i st ?a] * by simp
    have "owned st' + handle_of (st ! j) = owned (st[i := ?a])"
      using owned_update [of j "st[i := ?a]" ?b] * False none by (simp add: st')
    moreover have "(owned st' + handle_of (st ! i)) + handle_of (st ! j) =
        (owned st' + handle_of (st ! j)) + handle_of (st ! i)" by (simp add: add_ac)
    ultimately have "(owned st' + handle_of (st ! i)) + handle_of (st ! j) = owned st + handle_of (st ! j)"
      using a by simp
    then show ?thesis by simp
  qed
qed

lemma reg_mr_accounted:
  assumes "reg_mr V p b n fl w = (r, w')"
  shows "deregs (calls w') = deregs (calls w)"
  using assms
  by (auto simp: reg_mr_def se_defs se_simps Let_def deregs_def split: prod.splits if_splits)

lemma local_mr_dtor_accounted: "deregs (calls (snd (local_mr_dtor V m w))) = deregs (calls w) + handle_of (Some m)"
  by (auto simp: local_mr_dtor_def se_defs se_simps handle_of_def deregs_def split: option.split)

lemma mr_step_accounted:
  assumes "accounted h0 s" and "mr_step V p x s = Some t"
  shows "accounted h0 t"
proof (cases x)
  case (Register b n)
  with assms show ?thesis
    by (auto simp: accounted_def add_ac dest!: reg_mr_accounted split: prod.splits sum.splits)
next
  case (Move_construct i)
  with assms(2) obtain m where m: "i < length (ow_store s)" "ow_store s ! i = Some m"
      "t = s\<lparr>ow_store := (ow_store s)[i := Some (m\<lparr>lmr_mr := None, lmr_pd := nullptr\<rparr>)] @
         [Some \<lparr>lmr_mr = lmr_mr m, lmr_pd = lmr_pd m\<rparr>]\<rparr>"
    by (auto simp: local_mr_move_ctor_def split: if_splits option.splits)
  have "handle_of (Some (m\<lparr>lmr_mr := None, lmr_pd := nullptr\<rparr>)) = {#}"
    "handle_of (Some \<lparr>lmr_mr = lmr_mr m, lmr_pd = lmr_pd m\<rparr>) = handle_of (Some m)"
    by (simp_all add: handle_of_def)
  with owned_update [of i "ow_store s" "Some (m\<lparr>lmr_mr := None, lmr_pd := nullptr\<rparr>)"] m assms(1)
  show ?thesis by (simp add: accounted_def add.assoc)
next
  case (Move_assign i j)
  with assms(2) obtain st where st: "local_mr_move_assign i j (ow_store s) = Some st"
      "t = s\<lparr>ow_store := st, ow_lost := ow_lost s + handle_of (ow_store s ! i)\<rparr>"
    by (auto split: option.splits)
  from move_assign_owned [OF st(1)] have "owned (ow_store s) = owned st + handle_of (ow_store s ! i)" by simp
  with assms(1) st(2) show ?thesis by (simp add: accounted_def add_ac)
next
  case (Destroy i)
  with assms(2) obtain m where m: "i < length (ow_store s)" "ow_store s ! i = Some m"
      "t = s\<lparr>ow_store := (ow_store s)[i := None], ow_world := snd (local_mr_dtor V m (ow_world s))\<rparr>"
    by (auto split: if_splits option.splits)
  then have "owned (ow_store s) = owned ((ow_store s)[i := None]) + handle_of (Some m)"
    using owned_update [of i "ow_store s" None] by simp
  with assms(1) m local_mr_dtor_accounted [of V m "ow_world s"]
  show ?thesis by (simp add: accounted_def add_ac)
qed

lemma mr_run_accounted: "mr_run V p xs s = Some t \<Longrightarrow> accounted h0 s \<Longrightarrow> accounted h0 t"
  by (induction xs arbitrary: s) (auto split: bind_splits intro: mr_step_accounted)

section \<open>Properties\<close>

lemma accounted_init: "accounted (calls w) (ownership_init w)"
  by (simp add: accounted_def ownership_init_def owned_def)

fun is_assign :: "mr_op \<Rightarrow> bool" where
  "is_assign (Move_assign _ _) = True"
| "is_assign _ = False"

lemma mr_step_lost:
  "mr_step V p x s = Some t \<Longrightarrow> \<not> is_assign x \<Longrightarrow> ow_lost t = ow_lost s"
  by (cases x) (auto split: prod.splits sum.splits if_splits option.splits)

lemma mr_step_lost_mono: "mr_step V p x s = Some t \<Longrightarrow> ow_lost s \<subseteq># ow_lost t"
proof (cases "is_assign x")
  case True
  moreover assume "mr_step V p x s = Some t"
  ultimately show ?thesis by (cases x) (auto split: option.splits)
next
  case False
  moreover assume "mr_step V p x s = Some t"
  ultimately show ?thesis using mr_step_lost by fastforce
qed

lemma mr_run_lost: "mr_run V p xs s = Some t \<Longrightarrow> \<not> list_ex is_assign xs \<Longrightarrow> ow_lost t = ow_lost s"
  by (induction xs arbitrary: s) (auto split: bind_splits dest: mr_step_lost)

lemma mr_run_lost_mono: "mr_run V p xs s = Some t \<Longrightarrow> ow_lost s \<subseteq># ow_lost t"
proof (induction xs arbitrary: s)
  case (Cons x xs)
  then obtain u where "mr_step V p x s = Some u" "mr_run V p xs u = Some t"
    by (auto split: bind_splits)
  with Cons.IH [of u] mr_step_lost_mono [of V p x s u] show ?case by (metis subset_mset.order_trans)
qed simp

lemma mr_run_append: "mr_run V p (xs @ ys) s = Option.bind (mr_run V p xs s) (mr_run V p ys)"
  by (induction xs arbitrary: s) (auto split: bind_split)

text \<open>
  C17: the account of every program over \<open>local_mr\<close> objects: the handles deregistered, those that
  live objects own and those an assignment lost are together exactly those registration gave.
  So no region is ever deregistered twice or owned by two objects, moves included; and a program
  without move assignment loses nothing: when its objects are gone every region is deregistered.
\<close>

theorem mr_ownership_account:
  assumes "mr_run V p prog (ownership_init w) = Some s" and "deregs (calls w) = {#}"
  shows "deregs (calls (ow_world s)) + owned (ow_store s) + ow_lost s = ow_regs s \<and>
     (list_ex is_assign prog \<or> ow_lost s = {#})"
  using mr_run_accounted [OF assms(1) accounted_init] mr_run_lost [OF assms(1)] assms(2)
  by (auto simp: accounted_def ownership_init_def)

definition sample_moves :: "mr_op list" where
  "sample_moves = [Register 4096 64, Move_construct 0, Destroy 0, Destroy 1]"

lemma sample_run:
  "\<exists>s. mr_run quiet_verbs sample_pd sample_moves (ownership_init fresh_world) = Some s \<and>
     owned (ow_store s) = {#} \<and> ow_regs s = {#4096#}"
  by (simp add: sample_moves_def ownership_init_def fresh_world_def quiet_verbs_def sample_pd_def reg_mr_def
      local_mr_ctor_def local_mr_move_ctor_def local_mr_dtor_def se_defs se_simps Let_def handle_of_def owned_def)

theorem mr_ownership_account_witness:
  "\<exists>s. mr_run quiet_verbs sample_pd sample_moves (ownership_init fresh_world) = Some s \<and>
     deregs (calls (ow_world s)) = {#4096#}"
proof -
  obtain s where s: "mr_run quiet_verbs sample_pd sample_moves (ownership_init fresh_world) = Some s"
      "owned (ow_store s) = {#}" "ow_regs s = {#4096#}"
    using sample_run by blast
  have "deregs (calls fresh_world) = {#}" by (simp add: fresh_world_def deregs_def)
  from mr_ownership_account [OF s(1) this] s show ?thesis
    by (auto simp: sample_moves_def)
qed

text \<open>
  Move assignment onto an object that owns a region, and onto itself, leaks: it drops the
  handle the object had without deregistering it, so when libibverbs does not hand out that handle again, no
  later operation deregisters it and no object owns it.
\<close>

theorem mr_move_assign_leaks:
  assumes "mr_run V p before (ownership_init w) = Some s1"
    and "mr_run V p (before @ Move_assign i j # after) (ownership_init w) = Some s"
    and "handle_of (ow_store s1 ! i) = {#h#}" and "count (ow_regs s) h = 1" and "deregs (calls w) = {#}"
  shows "h \<notin># deregs (calls (ow_world s)) \<and> h \<notin># owned (ow_store s)"
proof -
  obtain s2 where s2: "mr_step V p (Move_assign i j) s1 = Some s2" "mr_run V p after s2 = Some s"
    using assms(1,2) by (auto simp: mr_run_append split: bind_splits)
  then have "h \<in># ow_lost s2" using assms(3) by (auto split: option.splits)
  then have "h \<in># ow_lost s" using mr_run_lost_mono [OF s2(2)] by (rule mset_subset_eqD [rotated])
  then have lost: "1 \<le> count (ow_lost s) h" by (simp add: Suc_le_eq)
  have "deregs (calls (ow_world s)) + owned (ow_store s) + ow_lost s = ow_regs s"
    using mr_run_accounted [OF assms(2) accounted_init] assms(5) by (simp add: accounted_def ownership_init_def)
  then have "count (deregs (calls (ow_world s))) h + count (owned (ow_store s)) h + count (ow_lost s) h = 1"
    using assms(4) by (metis count_union)
  with lost show ?thesis unfolding not_in_iff by linarith
qed

definition sample_assign :: "mr_op list" where
  "sample_assign = [Register 4096 64, Register 8192 64]"

lemma sample_assign_runs:
  "\<exists>s1. mr_run quiet_verbs sample_pd sample_assign (ownership_init fresh_world) = Some s1 \<and>
     handle_of (ow_store s1 ! 0) = {#4096#} \<and>
     (\<exists>s. mr_run quiet_verbs sample_pd (sample_assign @ Move_assign 0 1 # [Destroy 0, Destroy 1])
        (ownership_init fresh_world) = Some s \<and> count (ow_regs s) 4096 = 1)"
  by (simp add: sample_assign_def ownership_init_def fresh_world_def quiet_verbs_def sample_pd_def reg_mr_def
      local_mr_ctor_def local_mr_move_assign_def local_mr_dtor_def se_defs se_simps Let_def handle_of_def)

theorem mr_move_assign_leaks_witness:
  "\<exists>s. mr_run quiet_verbs sample_pd (sample_assign @ Move_assign 0 1 # [Destroy 0, Destroy 1])
      (ownership_init fresh_world) = Some s \<and> (4096 :: ptr) \<notin># deregs (calls (ow_world s))"
proof -
  obtain s1 s where r: "mr_run quiet_verbs sample_pd sample_assign (ownership_init fresh_world) = Some s1"
      "mr_run quiet_verbs sample_pd (sample_assign @ Move_assign 0 1 # [Destroy 0, Destroy 1])
         (ownership_init fresh_world) = Some s"
      "handle_of (ow_store s1 ! 0) = {#4096#}" "count (ow_regs s) 4096 = 1"
    using sample_assign_runs by blast
  have "deregs (calls fresh_world) = {#}" by (simp add: fresh_world_def deregs_def)
  from mr_move_assign_leaks [OF r this] r(2) show ?thesis by blast
qed

end
