(* ===== verification/Handshake.thy ===== *)
theory Handshake
  imports Qp
begin

text \<open>
  How the examples connect two queue pairs over a TCP connection: \<^verbatim>\<open>qp_transmission.cc\<close>,
  \<^verbatim>\<open>qp_acceptor.cc\<close>, \<^verbatim>\<open>qp_connector.cc\<close> under \<^verbatim>\<open>examples/\<close>. The socket belongs to asio, which is
  not part of the repository; the model keeps what the code relies on: \<open>async_read\<close> fills its whole
  buffer or throws, \<open>async_write\<close> sends its whole buffer or throws.
\<close>

section \<open>A connection\<close>

text \<open>
  One end of a connection: the bytes that will arrive on it, those sent so far, whether
  accepting or connecting and writing work, the completion queues whose pollers were started, and the host's world.
\<close>

record conn =
  cn_in :: bytes
  cn_out :: bytes
  cn_open :: bool
  cn_writable :: bool
  cn_pollers :: "cq list"
  cn_world :: world

type_synonym 'a conn_act = "(conn, 'a) se"

definition conn_world :: "(world, 'a) se \<Rightarrow> 'a conn_act" where
  "conn_world m c = (case m (cn_world c) of (r, w) \<Rightarrow> (r, c\<lparr>cn_world := w\<rparr>))"

definition async_write :: "bytes \<Rightarrow> unit conn_act" where
  "async_write data c = (if cn_writable c then (Inr (), c\<lparr>cn_out := cn_out c @ data\<rparr>)
     else (Inl (System_error ''Broken pipe''), c))"

definition async_read :: "nat \<Rightarrow> bytes conn_act" where
  "async_read n c = (if length (cn_in c) < n then (Inl (System_error ''End of file''), c\<lparr>cn_in := []\<rparr>)
     else (Inr (take n (cn_in c)), c\<lparr>cn_in := drop n (cn_in c)\<rparr>))"

section \<open>Transmission\<close>

definition send_qp :: "verbs \<Rightarrow> endian \<Rightarrow> qp \<Rightarrow> unit conn_act" where
  "send_qp V e q = bindS (liftS (qp_serialize V e q)) (\<lambda>local_qp_data.
     if local_qp_data = [] then throwS (Assert_failed ''local_qp_data.size() != 0'')
     else async_write local_qp_data)"

definition recv_qp :: "endian \<Rightarrow> deserialized_qp conn_act" where
  "recv_qp e = bindS (async_read qp_header_kSerializedSize) (\<lambda>header.
     case deserialized_qp_deserialize e header of
       None \<Rightarrow> throwS (Undefined_behaviour ''read past the header'')
     | Some remote_qp \<Rightarrow>
         let len = unat (hdr_user_data_size (dqp_header remote_qp)) in
         if len > 0 then bindS (async_read len) (\<lambda>data. returnS (remote_qp\<lparr>dqp_user_data := data\<rparr>))
         else returnS (remote_qp\<lparr>dqp_user_data := []\<rparr>))"

definition alloc_cq :: "verbs \<Rightarrow> pd \<Rightarrow> size_t \<Rightarrow> cq conn_act" where
  "alloc_cq V p nr_cqe = bindS (conn_world (cq_ctor V (pd_device p) nr_cqe)) (\<lambda>q.
     thenS (modifyS (\<lambda>c. c\<lparr>cn_pollers := cn_pollers c @ [q]\<rparr>)) (returnS q))"

section \<open>A queue pair in the hands of a coroutine\<close>

text \<open>The object and the connection; when an exception leaves the coroutine the object is destroyed.\<close>

definition this_qp :: "(qp \<times> conn, qp) se" where
  "this_qp s = (Inr (fst s), s)"

definition set_user_data :: "bytes \<Rightarrow> (qp \<times> conn, unit) se" where
  "set_user_data data s = (Inr (), ((fst s)\<lparr>qp_user_data := data\<rparr>, snd s))"

definition on_qp :: "'a qp_act \<Rightarrow> (qp \<times> conn, 'a) se" where
  "on_qp m s = (case m (fst s, cn_world (snd s)) of
     (r, (q, w)) \<Rightarrow> (r, (q, (snd s)\<lparr>cn_world := w\<rparr>)))"

definition with_qp :: "verbs \<Rightarrow> qp \<Rightarrow> (qp \<times> conn, unit) se \<Rightarrow> qp conn_act" where
  "with_qp V q body c = (case body (q, c) of
     (Inr _, (q, c)) \<Rightarrow> (Inr q, c)
   | (Inl e, (q, c)) \<Rightarrow>
       if cxx_exception e then thenS (conn_world (qp_dtor V q)) (throwS e) c else (Inl e, c))"

section \<open>The two sides\<close>

definition accept :: "verbs \<Rightarrow> endian \<Rightarrow> qp \<Rightarrow> pd \<Rightarrow> srq option \<Rightarrow> qp option conn_act" where
  "accept V e mem p s = catchS std_exception
     (thenS (bindS getS (\<lambda>c. if cn_open c then returnS () else throwS (System_error ''accept'')))
     (bindS (recv_qp e) (\<lambda>remote_qp.
      bindS (alloc_cq V p 256) (\<lambda>send_cq.
      bindS (alloc_cq V p 256) (\<lambda>recv_cq.
      bindS (conn_world (qp_ctor_connected V mem (hdr_lid (dqp_header remote_qp))
               (hdr_qp_num (dqp_header remote_qp)) (hdr_sq_psn (dqp_header remote_qp))
               (hdr_gid (dqp_header remote_qp)) p recv_cq send_cq s
               \<lparr>max_send_wr = 2048, max_recv_wr = 2048\<rparr>)) (\<lambda>local_qp.
      bindS (with_qp V local_qp
               (thenS (set_user_data (dqp_user_data remote_qp))
                 (bindS this_qp (\<lambda>q. on_snd (send_qp V e q))))) (\<lambda>local_qp.
      returnS (Some local_qp))))))))
     (\<lambda>ex. returnS None)"

text \<open>\<open>from_socket\<close> once it has its queue pair.\<close>

definition exchange_and_connect :: "verbs \<Rightarrow> endian \<Rightarrow> (qp \<times> conn, unit) se" where
  "exchange_and_connect V e =
     thenS (bindS this_qp (\<lambda>q. on_snd (send_qp V e q)))
     (bindS (on_snd (recv_qp e)) (\<lambda>remote_qp.
      thenS (on_qp (qp_rtr V (hdr_lid (dqp_header remote_qp)) (hdr_qp_num (dqp_header remote_qp))
               (hdr_sq_psn (dqp_header remote_qp)) (hdr_gid (dqp_header remote_qp))))
     (thenS (set_user_data (dqp_user_data remote_qp))
      (on_qp (qp_rts V)))))"

definition from_socket :: "verbs \<Rightarrow> endian \<Rightarrow> qp \<Rightarrow> pd \<Rightarrow> srq option \<Rightarrow> qp conn_act" where
  "from_socket V e mem p s =
     bindS (alloc_cq V p 512) (\<lambda>send_cq.
     bindS (conn_world (qp_ctor V mem p send_cq send_cq s \<lparr>max_send_wr = 512, max_recv_wr = 512\<rparr>)) (\<lambda>q.
     with_qp V q (exchange_and_connect V e)))"

text \<open>\<open>nr_endpoints\<close> is the number of addresses the resolver found.\<close>

definition connect :: "verbs \<Rightarrow> endian \<Rightarrow> qp \<Rightarrow> pd \<Rightarrow> srq option \<Rightarrow> nat \<Rightarrow> qp conn_act" where
  "connect V e mem p s nr_endpoints =
     (if nr_endpoints = 0 then throwS (Terminated ''connector: failed to resolve'')
      else thenS (bindS getS (\<lambda>c. if cn_open c then returnS () else throwS (System_error ''connect'')))
        (from_socket V e mem p s))"

section \<open>What each side does\<close>

text \<open>The data a peer needs, and what it makes of them.\<close>

lemma read_own_header:
  assumes "cn_in c = qp_header_write e1 h @ data" and "hdr_user_data_size h = word_of_nat (length data)"
    and "length data < 2 ^ 32"
  shows "recv_qp e2 c = (Inr \<lparr>dqp_header = h, dqp_user_data = data\<rparr>, c\<lparr>cn_in := []\<rparr>)"
proof -
  have len: "length (qp_header_write e1 h) = 30" by (rule qp_header_codec.enc_width)
  have size: "unat (hdr_user_data_size h) = length data"
    using assms(2,3) by (simp add: unsigned_of_nat take_bit_nat_eq_self)
  have read: "qp_header_read e2 (qp_header_write e1 h) = Some (h, [])"
    using qp_header_codec.dec_enc [of e2 e1 h "[]"] by simp
  show ?thesis
    using assms(1) len size
    by (cases data)
      (simp_all add: recv_qp_def se_defs async_read_def qp_header_kSerializedSize_def
        deserialized_qp_deserialize_def read Let_def)
qed

lemma conn_world_ok:
  assumes "conn_world m c = (Inr x, c')"
  shows "m (cn_world c) = (Inr x, cn_world c')" and "cn_in c' = cn_in c" and "cn_out c' = cn_out c"
  using assms by (auto simp: conn_world_def split: prod.splits)

lemma alloc_cq_ok:
  assumes "alloc_cq V p n c = (Inr q, c')"
  shows "cn_in c' = cn_in c" and "cn_out c' = cn_out c"
  using assms by (auto simp: alloc_cq_def se_defs conn_world_def split: prod.splits sum.splits)

lemma send_qp_ok:
  assumes "send_qp V e q c = (Inr x, c')" and "qp_qp q \<noteq> nullptr"
  shows "cn_out c' = cn_out c @ qp_header_write e (qp_header_of V q) @ qp_user_data q"
    and "cn_in c' = cn_in c" and "cn_world c' = cn_world c"
  using assms
  by (auto simp: send_qp_def se_defs async_write_def qp_serialize_eq split: if_splits)

lemma recv_qp_ok:
  assumes "recv_qp e c = (Inr dq, c')"
  shows "cn_out c' = cn_out c" and "cn_world c' = cn_world c"
  using assms
  by (auto simp: recv_qp_def se_defs async_read_def Let_def split: if_splits option.splits)

lemma qp_ctor_ok:
  assumes "qp_ctor V mem p rc sc s cf w = (Inr q, w')"
  shows "qp_qp q \<noteq> nullptr" and "qp_pd q = p" and "qp_user_data q = []" and "qp_sq_psn q = next_sq_psn w"
  using qp_ctor_apply [of V mem p rc sc s cf w] assms by (auto simp: Let_def split: if_splits)

lemma qp_ctor_connected_ok:
  assumes "qp_ctor_connected V mem lid qpn psn g p rc sc s cf w = (Inr q, w')"
  shows "qp_qp q \<noteq> nullptr" and "qp_pd q = p" and "qp_user_data q = []"
    and "Modify_qp (qp_qp q) (rtr_attr q lid qpn psn g) rtr_mask \<in> set (calls w')"
    and "last (calls w') = Modify_qp (qp_qp q) (rts_attr q) rts_mask"
  using qp_ctor_connected_apply [of V mem lid qpn psn g p rc sc s cf w] assms
  by (auto simp: Let_def split: if_splits)

lemma with_qp_ok:
  assumes "with_qp V q body c = (Inr q', c')"
  obtains x where "body (q, c) = (Inr x, (q', c'))"
  using assms by (auto simp: with_qp_def se_defs split: prod.splits sum.splits if_splits)

lemma rtr_ok:
  assumes "on_qp (qp_rtr V lid qpn psn g) (q, c) = (Inr x, (q', c'))"
  shows "q' = q" and "c' = c\<lparr>cn_world := record_call (Modify_qp (qp_qp q) (rtr_attr q lid qpn psn g) rtr_mask) (cn_world c)\<rparr>"
  using assms by (auto simp: on_qp_def qp_rtr_def bindS_def se_simps Let_def split: if_splits)

lemma rts_ok:
  assumes "on_qp (qp_rts V) (q, c) = (Inr x, (q', c'))"
  shows "q' = q" and "c' = c\<lparr>cn_world := record_call (Modify_qp (qp_qp q) (rts_attr q) rts_mask) (cn_world c)\<rparr>"
  using assms by (auto simp: on_qp_def qp_rts_def bindS_def se_simps Let_def split: if_splits)

lemma attr_user_data [simp]:
  "rtr_attr (q\<lparr>qp_user_data := d\<rparr>) l n s g = rtr_attr q l n s g" "rts_attr (q\<lparr>qp_user_data := d\<rparr>) = rts_attr q"
  by (simp_all add: rtr_attr_def rts_attr_def)

text \<open>The call that connects \<open>q\<close> to the peer the header describes.\<close>

definition rtr_call :: "qp \<Rightarrow> qp_header \<Rightarrow> vcall" where
  "rtr_call q h = Modify_qp (qp_qp q) (rtr_attr q (hdr_lid h) (hdr_qp_num h) (hdr_sq_psn h) (hdr_gid h)) rtr_mask"

definition rts_call :: "qp \<Rightarrow> vcall" where
  "rts_call q = Modify_qp (qp_qp q) (rts_attr q) rts_mask"

lemma exchange_ok:
  assumes "exchange_and_connect V e (q0, c) = (Inr x, (q, c'))" and "qp_qp q0 \<noteq> nullptr"
  shows "\<exists>c1 dq c2. recv_qp e c1 = (Inr dq, c2) \<and> cn_in c1 = cn_in c \<and>
     cn_out c' = cn_out c @ qp_header_write e (qp_header_of V q0) @ qp_user_data q0 \<and>
     q = q0\<lparr>qp_user_data := dqp_user_data dq\<rparr> \<and>
     calls (cn_world c') = calls (cn_world c) @ [rtr_call q (dqp_header dq), rts_call q]"
proof -
  obtain y c1 dq c2 where s: "send_qp V e q0 c = (Inr y, c1)" and r: "recv_qp e c1 = (Inr dq, c2)"
    and rest: "thenS (on_qp (qp_rtr V (hdr_lid (dqp_header dq)) (hdr_qp_num (dqp_header dq))
                 (hdr_sq_psn (dqp_header dq)) (hdr_gid (dqp_header dq))))
           (thenS (set_user_data (dqp_user_data dq)) (on_qp (qp_rts V))) (q0, c2) = (Inr x, (q, c'))"
    using assms(1) unfolding exchange_and_connect_def
    by (auto simp: thenS_def bindS_def this_qp_def on_snd_def split: prod.splits sum.splits)
  from rest obtain z q3 c3 where t: "on_qp (qp_rtr V (hdr_lid (dqp_header dq)) (hdr_qp_num (dqp_header dq))
        (hdr_sq_psn (dqp_header dq)) (hdr_gid (dqp_header dq))) (q0, c2) = (Inr z, (q3, c3))"
    and u: "on_qp (qp_rts V) (q3\<lparr>qp_user_data := dqp_user_data dq\<rparr>, c3) = (Inr x, (q, c'))"
    by (auto simp: thenS_def bindS_def set_user_data_def split: prod.splits sum.splits)
  have "recv_qp e c1 = (Inr dq, c2) \<and> cn_in c1 = cn_in c \<and>
     cn_out c' = cn_out c @ qp_header_write e (qp_header_of V q0) @ qp_user_data q0 \<and>
     q = q0\<lparr>qp_user_data := dqp_user_data dq\<rparr> \<and>
     calls (cn_world c') = calls (cn_world c) @ [rtr_call q (dqp_header dq), rts_call q]"
    using r rtr_ok [OF t] rts_ok [OF u] send_qp_ok [OF s assms(2)] recv_qp_ok [OF r]
    by (auto simp: rtr_call_def rts_call_def)
  then show ?thesis by blast
qed

lemma from_socket_ok:
  assumes "from_socket V e mem p s c = (Inr q, c')"
  shows "\<exists>c1 dq c2. recv_qp e c1 = (Inr dq, c2) \<and> cn_in c1 = cn_in c \<and>
     cn_out c' = cn_out c @ qp_header_write e (qp_header_of V (q\<lparr>qp_user_data := []\<rparr>)) \<and>
     qp_qp q \<noteq> nullptr \<and> qp_pd q = p \<and> qp_user_data q = dqp_user_data dq \<and>
     (\<exists>old. calls (cn_world c') = old @ [rtr_call q (dqp_header dq), rts_call q])"
proof -
  obtain ca scq where a: "alloc_cq V p 512 c = (Inr scq, ca)"
      "bindS (conn_world (qp_ctor V mem p scq scq s \<lparr>max_send_wr = 512, max_recv_wr = 512\<rparr>))
        (\<lambda>q. with_qp V q (exchange_and_connect V e)) ca = (Inr q, c')"
    using assms unfolding from_socket_def by (rule bindS_okE)
  from a(2) obtain q0 cb where
      b: "conn_world (qp_ctor V mem p scq scq s \<lparr>max_send_wr = 512, max_recv_wr = 512\<rparr>) ca = (Inr q0, cb)"
      "with_qp V q0 (exchange_and_connect V e) cb = (Inr q, c')"
    by (rule bindS_okE)
  note q0 = qp_ctor_ok [OF conn_world_ok(1) [OF b(1)]]
  from with_qp_ok [OF b(2)] obtain x where "exchange_and_connect V e (q0, cb) = (Inr x, (q, c'))" .
  from exchange_ok [OF this q0(1)] obtain c1 dq c2 where x: "recv_qp e c1 = (Inr dq, c2)" "cn_in c1 = cn_in cb"
     "cn_out c' = cn_out cb @ qp_header_write e (qp_header_of V q0) @ qp_user_data q0"
     "q = q0\<lparr>qp_user_data := dqp_user_data dq\<rparr>"
     "calls (cn_world c') = calls (cn_world cb) @ [rtr_call q (dqp_header dq), rts_call q]"
    by blast
  have rev: "q\<lparr>qp_user_data := []\<rparr> = q0" using x(4) q0(3) by simp
  have "cn_in c1 = cn_in c" "cn_out cb = cn_out c"
    using x(2) conn_world_ok(2,3) [OF b(1)] alloc_cq_ok [OF a(1)] by simp_all
  moreover have "qp_qp q \<noteq> nullptr" "qp_pd q = p" "qp_user_data q = dqp_user_data dq"
    using x(4) q0 by simp_all
  ultimately show ?thesis using x(1,3,5) q0(3) unfolding rev by auto
qed

lemma catch_None_ok: "catchS p m (\<lambda>e. returnS None) c = (Inr (Some x), c') \<Longrightarrow> m c = (Inr (Some x), c')"
  by (auto simp: catchS_def returnS_def split: prod.splits sum.splits if_splits)

lemma accept_ok:
  assumes "accept V e mem p s c = (Inr (Some q), c')"
  shows "\<exists>dq c1. recv_qp e c = (Inr dq, c1) \<and>
     cn_out c' = cn_out c @ qp_header_write e (qp_header_of V q) @ qp_user_data q \<and>
     qp_qp q \<noteq> nullptr \<and> qp_pd q = p \<and> qp_user_data q = dqp_user_data dq \<and>
     rtr_call q (dqp_header dq) \<in> set (calls (cn_world c')) \<and> last (calls (cn_world c')) = rts_call q"
proof -
  from catch_None_ok [OF assms [unfolded accept_def]]
  obtain dq c1 sq c2 rq c3 q0 c4 where r: "recv_qp e c = (Inr dq, c1)" and a: "alloc_cq V p 256 c1 = (Inr sq, c2)"
    "alloc_cq V p 256 c2 = (Inr rq, c3)"
    and k: "conn_world (qp_ctor_connected V mem (hdr_lid (dqp_header dq)) (hdr_qp_num (dqp_header dq))
        (hdr_sq_psn (dqp_header dq)) (hdr_gid (dqp_header dq)) p rq sq s \<lparr>max_send_wr = 2048, max_recv_wr = 2048\<rparr>) c3
        = (Inr q0, c4)"
    and w: "with_qp V q0 (thenS (set_user_data (dqp_user_data dq)) (bindS this_qp (\<lambda>q. on_snd (send_qp V e q)))) c4
        = (Inr q, c')"
    by (auto simp: thenS_def bindS_def getS_def returnS_def throwS_def split: prod.splits sum.splits if_splits)
  note q0 = qp_ctor_connected_ok [OF conn_world_ok(1) [OF k]]
  from with_qp_ok [OF w] obtain x where "thenS (set_user_data (dqp_user_data dq))
      (bindS this_qp (\<lambda>q. on_snd (send_qp V e q))) (q0, c4) = (Inr x, (q, c'))" .
  then have q: "q = q0\<lparr>qp_user_data := dqp_user_data dq\<rparr>" and sent: "send_qp V e q c4 = (Inr x, c')"
    by (auto simp: thenS_def bindS_def this_qp_def set_user_data_def on_snd_def split: prod.splits sum.splits)
  have "qp_qp q \<noteq> nullptr" using q q0(1) by simp
  note out = send_qp_ok [OF sent this]
  have "cn_out c4 = cn_out c"
    using recv_qp_ok [OF r] alloc_cq_ok [OF a(1)] alloc_cq_ok [OF a(2)] conn_world_ok(3) [OF k] by simp
  then have "recv_qp e c = (Inr dq, c1) \<and>
     cn_out c' = cn_out c @ qp_header_write e (qp_header_of V q) @ qp_user_data q \<and>
     qp_qp q \<noteq> nullptr \<and> qp_pd q = p \<and> qp_user_data q = dqp_user_data dq \<and>
     rtr_call q (dqp_header dq) \<in> set (calls (cn_world c')) \<and> last (calls (cn_world c')) = rts_call q"
    using r out q q0 by (simp add: rtr_call_def rts_call_def)
  then show ?thesis by blast
qed

section \<open>Properties\<close>

text \<open>
  C4: both ends agree. Whenever an acceptor returns a queue pair and a connector returns one,
  each having read what the other wrote, on hosts of any byte order, then each queue pair was moved to RTR
  with the LID, queue pair number, starting PSN and GID of the other one, and its last
  transition is the one to RTS.
\<close>

theorem connection_agreement:
  assumes "from_socket VA eA memA pA sA cA = (Inr a, cA')" and "accept VB eB memB pB sB cB = (Inr (Some b), cB')"
    and "cn_out cA = []" and "cn_out cB = []" and "cn_in cA = cn_out cB'" and "cn_in cB = cn_out cA'"
  shows "rtr_call a (qp_header_of VB b) \<in> set (calls (cn_world cA')) \<and>
         rtr_call b (qp_header_of VA a) \<in> set (calls (cn_world cB')) \<and>
         last (calls (cn_world cA')) = rts_call a \<and> last (calls (cn_world cB')) = rts_call b \<and>
         qp_user_data a = [] \<and> qp_user_data b = []"
proof -
  obtain c1 da c2 where A: "recv_qp eA c1 = (Inr da, c2)" "cn_in c1 = cn_in cA"
     "cn_out cA' = qp_header_write eA (qp_header_of VA (a\<lparr>qp_user_data := []\<rparr>))"
     "qp_user_data a = dqp_user_data da" "\<exists>old. calls (cn_world cA') = old @ [rtr_call a (dqp_header da), rts_call a]"
    using from_socket_ok [OF assms(1)] assms(3) by auto
  obtain db c3 where B: "recv_qp eB cB = (Inr db, c3)"
     "cn_out cB' = qp_header_write eB (qp_header_of VB b) @ qp_user_data b" "qp_user_data b = dqp_user_data db"
     "rtr_call b (dqp_header db) \<in> set (calls (cn_world cB'))" "last (calls (cn_world cB')) = rts_call b"
    using accept_ok [OF assms(2)] assms(4) by auto
  have db: "db = \<lparr>dqp_header = qp_header_of VA (a\<lparr>qp_user_data := []\<rparr>), dqp_user_data = []\<rparr>"
    using read_own_header [of cB eA "qp_header_of VA (a\<lparr>qp_user_data := []\<rparr>)" "[]" eB] A(3) assms(6) B(1)
    by (simp add: qp_header_of_def)
  then have ub: "qp_user_data b = []" using B(3) by simp
  have da: "da = \<lparr>dqp_header = qp_header_of VB b, dqp_user_data = []\<rparr>"
    using read_own_header [of c1 eB "qp_header_of VB b" "[]" eA] A(1,2) B(2) ub assms(5)
    by (simp add: qp_header_of_def)
  then have ua: "qp_user_data a = []" using A(4) by simp
  have "a\<lparr>qp_user_data := []\<rparr> = a" using ua by simp
  then have "db = \<lparr>dqp_header = qp_header_of VA a, dqp_user_data = []\<rparr>" using db by (simp only:)
  then show ?thesis using A(5) B(4,5) da ua ub by auto
qed

text \<open>Two hosts where every call succeeds.\<close>

definition fresh_conn :: "bytes \<Rightarrow> conn" where
  "fresh_conn arriving = \<lparr>cn_in = arriving, cn_out = [], cn_open = True, cn_writable = True, cn_pollers = [],
     cn_world = fresh_world\<rparr>"

definition qp_a :: qp where
  "qp_a = new_qp blank_qp sample_pd \<lparr>cq_device = pd_device sample_pd, cq_cq = 4096\<rparr>
     \<lparr>cq_device = pd_device sample_pd, cq_cq = 4096\<rparr> None \<lparr>max_send_wr = 512, max_recv_wr = 512\<rparr> 4097 1"

definition qp_b :: qp where
  "qp_b = new_qp blank_qp sample_pd \<lparr>cq_device = pd_device sample_pd, cq_cq = 4097\<rparr>
     \<lparr>cq_device = pd_device sample_pd, cq_cq = 4096\<rparr> None \<lparr>max_send_wr = 2048, max_recv_wr = 2048\<rparr> 4098 1"

lemma quiet_rc [simp]: "v_rc quiet_verbs h c = 0" "v_ptr quiet_verbs h c = 4096 + word_of_nat (length h)"
  by (simp_all add: quiet_verbs_def)

lemma quiet_ctor:
  assumes "(4096 :: ptr) + word_of_nat (length (calls w)) \<noteq> 0"
  shows "\<exists>w'. qp_ctor quiet_verbs mem p rc sc s cf w =
    (Inr (new_qp mem p rc sc s cf (4096 + word_of_nat (length (calls w))) (next_sq_psn w)), w')"
  using qp_ctor_apply [of quiet_verbs mem p rc sc s cf w] assms by (auto simp: Let_def)

lemma quiet_ctor_connected:
  assumes "(4096 :: ptr) + word_of_nat (length (calls w)) \<noteq> 0"
  shows "\<exists>w'. qp_ctor_connected quiet_verbs mem l n k g p rc sc s cf w =
    (Inr (new_qp mem p rc sc s cf (4096 + word_of_nat (length (calls w))) (next_sq_psn w)), w')"
  using qp_ctor_connected_apply [of quiet_verbs mem l n k g p rc sc s cf w] assms by (auto simp: Let_def)

lemma read_empty_header:
  assumes "cn_in c = qp_header_write e1 (qp_header_of V q)" and "qp_user_data q = []"
  shows "recv_qp e2 c = (Inr \<lparr>dqp_header = qp_header_of V q, dqp_user_data = []\<rparr>, c\<lparr>cn_in := []\<rparr>)"
  using read_own_header [of c e1 "qp_header_of V q" "[]" e2] assms by (simp add: qp_header_of_def)

lemma header_not_empty: "qp_header_write e h \<noteq> []"
  using qp_header_codec.enc_width [of e h] by auto

lemma quiet_connector:
  "\<exists>c'. from_socket quiet_verbs Little blank_qp sample_pd None
      (fresh_conn (qp_header_write Big (qp_header_of quiet_verbs qp_b))) = (Inr qp_a, c') \<and>
     cn_out c' = qp_header_write Little (qp_header_of quiet_verbs qp_a)"
proof -
  let ?dev = "pd_device sample_pd" and ?c = "Create_cq (dev_ctx (pd_device sample_pd)) (int_of_size 512)"
  let ?q = "\<lparr>cq_device = ?dev, cq_cq = 4096\<rparr>"
  obtain w' where k: "qp_ctor quiet_verbs blank_qp sample_pd ?q ?q None \<lparr>max_send_wr = 512, max_recv_wr = 512\<rparr>
      (record_call ?c fresh_world) = (Inr qp_a, w')"
    using quiet_ctor [of "record_call ?c fresh_world" blank_qp sample_pd ?q ?q None
        "\<lparr>max_send_wr = 512, max_recv_wr = 512\<rparr>"]
    by (auto simp: fresh_world_def record_call_def qp_a_def)
  have ctor: "cq_ctor quiet_verbs ?dev 512 fresh_world = (Inr ?q, record_call ?c fresh_world)"
    by (simp add: cq_ctor_def se_defs se_simps fresh_world_def)
  have a: "qp_qp qp_a \<noteq> nullptr" "qp_user_data qp_a = []" by (simp_all add: qp_a_def)
  have b: "qp_user_data qp_b = []" by (simp add: qp_b_def)
  show ?thesis
    using a
    by (simp add: from_socket_def alloc_cq_def conn_world_def se_defs ctor k fresh_conn_def with_qp_def
        exchange_and_connect_def this_qp_def send_qp_def qp_serialize_eq async_write_def
        read_empty_header [OF _ b, where ?e1.0 = Big] on_qp_def qp_rtr_def qp_rts_def se_simps
        set_user_data_def Let_def header_not_empty)
qed

lemma quiet_acceptor:
  "\<exists>c'. accept quiet_verbs Big blank_qp sample_pd None
      (fresh_conn (qp_header_write Little (qp_header_of quiet_verbs qp_a))) = (Inr (Some qp_b), c') \<and>
     cn_out c' = qp_header_write Big (qp_header_of quiet_verbs qp_b)"
proof -
  let ?dev = "pd_device sample_pd" and ?c = "Create_cq (dev_ctx (pd_device sample_pd)) (int_of_size 256)"
  let ?q1 = "\<lparr>cq_device = ?dev, cq_cq = 4096\<rparr>" and ?q2 = "\<lparr>cq_device = ?dev, cq_cq = 4097\<rparr>"
  let ?w1 = "record_call ?c fresh_world" let ?w2 = "record_call ?c ?w1"
  let ?h = "qp_header_of quiet_verbs qp_a"
  obtain w' where k: "qp_ctor_connected quiet_verbs blank_qp (hdr_lid ?h) (hdr_qp_num ?h) (hdr_sq_psn ?h) (hdr_gid ?h)
      sample_pd ?q2 ?q1 None \<lparr>max_send_wr = 2048, max_recv_wr = 2048\<rparr> ?w2 = (Inr qp_b, w')"
    using quiet_ctor_connected [of ?w2 blank_qp "hdr_lid ?h" "hdr_qp_num ?h" "hdr_sq_psn ?h" "hdr_gid ?h" sample_pd
        ?q2 ?q1 None "\<lparr>max_send_wr = 2048, max_recv_wr = 2048\<rparr>"]
    by (auto simp: fresh_world_def record_call_def qp_b_def)
  have ctor: "cq_ctor quiet_verbs ?dev 256 fresh_world = (Inr ?q1, ?w1)"
    "cq_ctor quiet_verbs ?dev 256 ?w1 = (Inr ?q2, ?w2)"
    by (simp_all add: cq_ctor_def se_defs se_simps fresh_world_def)
  have a: "qp_user_data qp_a = []" by (simp add: qp_a_def)
  have b: "qp_qp qp_b \<noteq> nullptr" "qp_user_data qp_b = []" "qp_b\<lparr>qp_user_data := []\<rparr> = qp_b"
    by (simp_all add: qp_b_def new_qp_def)
  show ?thesis
    using b
    by (simp add: accept_def alloc_cq_def conn_world_def se_defs ctor k fresh_conn_def with_qp_def
        this_qp_def send_qp_def qp_serialize_eq async_write_def read_empty_header [OF _ a, where ?e1.0 = Little]
        set_user_data_def Let_def header_not_empty b(3))
qed

theorem connection_agreement_witness:
  "\<exists>ca cb. from_socket quiet_verbs Little blank_qp sample_pd None
        (fresh_conn (qp_header_write Big (qp_header_of quiet_verbs qp_b))) = (Inr qp_a, ca) \<and>
     accept quiet_verbs Big blank_qp sample_pd None
        (fresh_conn (qp_header_write Little (qp_header_of quiet_verbs qp_a))) = (Inr (Some qp_b), cb) \<and>
     rtr_call qp_a (qp_header_of quiet_verbs qp_b) \<in> set (calls (cn_world ca)) \<and>
     rtr_call qp_b (qp_header_of quiet_verbs qp_a) \<in> set (calls (cn_world cb))"
proof -
  obtain ca where a: "from_socket quiet_verbs Little blank_qp sample_pd None
        (fresh_conn (qp_header_write Big (qp_header_of quiet_verbs qp_b))) = (Inr qp_a, ca)"
      "cn_out ca = qp_header_write Little (qp_header_of quiet_verbs qp_a)"
    using quiet_connector by blast
  obtain cb where b: "accept quiet_verbs Big blank_qp sample_pd None
        (fresh_conn (qp_header_write Little (qp_header_of quiet_verbs qp_a))) = (Inr (Some qp_b), cb)"
      "cn_out cb = qp_header_write Big (qp_header_of quiet_verbs qp_b)"
    using quiet_acceptor by blast
  from connection_agreement [OF a(1) b(1)] a b show ?thesis by (simp add: fresh_conn_def)
qed

end
