(* ===== verification/Rpc_Wire.thy ===== *)
theory Rpc_Wire
  imports Mr
begin

text \<open>
  What both sides of \<^verbatim>\<open>examples/include/coro_rpc.hpp\<close> share: the message layout, the request
  identifier, and buffer pools cut into one slice per slot or worker.
\<close>

section \<open>Sizes and identifiers\<close>

definition kSendMsgSize :: size_t where "kSendMsgSize = 256"

definition kRecvMsgSize :: size_t where "kRecvMsgSize = 4096"

text \<open>\<open>RpcHeader\<close>: 8 bytes of identifier, 4 of length, 4 of padding.\<close>

definition sizeof_RpcHeader :: size_t where "sizeof_RpcHeader = 16"

definition kSendBufferSize :: size_t where "kSendBufferSize = kSendMsgSize + sizeof_RpcHeader"

definition kRecvBufferSize :: size_t where "kRecvBufferSize = kRecvMsgSize + sizeof_RpcHeader"

lemmas rpc_sizes = kSendBufferSize_def kRecvBufferSize_def kSendMsgSize_def kRecvMsgSize_def sizeof_RpcHeader_def

definition encode_req_id :: "u64 \<Rightarrow> u32 \<Rightarrow> u64" where
  "encode_req_id seq slot_idx = push_bit 32 seq OR ucast slot_idx"

definition decode_slot_idx :: "u64 \<Rightarrow> u32" where
  "decode_slot_idx recv_id = ucast (recv_id AND 0xFFFFFFFF)"

lemma low_mask: "(0xFFFFFFFF :: u64) = mask 32"
  by (simp add: mask_eq_exp_minus_1)

lemma decode_slot_eq: "decode_slot_idx i = ucast i"
  by (rule bit_word_eqI) (auto simp: decode_slot_idx_def low_mask bit_simps)

lemma decode_encode [simp]: "decode_slot_idx (encode_req_id seq i) = i"
  by (rule bit_word_eqI) (auto simp: decode_slot_eq encode_req_id_def bit_simps bit_imp_le_length)

lemma encode_seq: "drop_bit 32 (encode_req_id seq i) = take_bit 32 seq"
  by (rule bit_word_eqI) (auto simp: encode_req_id_def bit_simps dest: bit_imp_le_length)

lemma unat_seq: "unat (take_bit 32 (s :: u64)) = unat s mod 2 ^ 32"
  by (subst unsigned_take_bit_eq) (simp only: take_bit_eq_mod)

lemma push_seq: "push_bit 32 (s :: u64) = push_bit 32 (take_bit 32 s)"
  by (rule bit_word_eqI) (auto simp: bit_simps)

lemma encode_inject:
  "encode_req_id s i = encode_req_id t j \<longleftrightarrow> i = j \<and> unat s mod 2 ^ 32 = unat t mod 2 ^ 32"
proof
  assume eq: "encode_req_id s i = encode_req_id t j"
  then have "take_bit 32 s = take_bit 32 t" by (metis encode_seq)
  with arg_cong [OF eq, of decode_slot_idx] show "i = j \<and> unat s mod 2 ^ 32 = unat t mod 2 ^ 32"
    by (metis decode_encode unat_seq)
next
  assume "i = j \<and> unat s mod 2 ^ 32 = unat t mod 2 ^ 32"
  then have "i = j" and "take_bit 32 s = take_bit 32 t"
    by (simp_all only: word_unat_eq_iff unat_seq)
  then show "encode_req_id s i = encode_req_id t j"
    using push_seq [of s] push_seq [of t] by (simp add: encode_req_id_def)
qed

section \<open>Memory of a buffer\<close>

text \<open>
  A \<open>std::vector<std::byte>\<close> is its first address and its bytes. An access through a
  pointer into it is undefined once it leaves the vector; inside it, it is whatever bytes lie there, whoever uses them.
\<close>

definition write_at :: "nat \<Rightarrow> bytes \<Rightarrow> bytes \<Rightarrow> bytes" where
  "write_at off bs mem = take off mem @ bs @ drop (off + length bs) mem"

definition bytes_at :: "nat \<Rightarrow> nat \<Rightarrow> bytes \<Rightarrow> bytes" where
  "bytes_at off n mem = take n (drop off mem)"

definition mem_write :: "ptr \<Rightarrow> ptr \<Rightarrow> bytes \<Rightarrow> bytes \<Rightarrow> exn + bytes" where
  "mem_write base a bs mem =
     (if unat (a - base) + length bs \<le> length mem then Inr (write_at (unat (a - base)) bs mem)
      else Inl (Undefined_behaviour ''write outside the buffer''))"

definition mem_read :: "ptr \<Rightarrow> ptr \<Rightarrow> nat \<Rightarrow> bytes \<Rightarrow> exn + bytes" where
  "mem_read base a n mem =
     (if unat (a - base) + n \<le> length mem then Inr (bytes_at (unat (a - base)) n mem)
      else Inl (Undefined_behaviour ''read outside the buffer''))"

text \<open>
  The fields of \<open>RpcHeader\<close> behind \<open>reinterpret_cast\<close>: the representation of the
  host, no conversion. The padding is never written.
\<close>

definition write_header :: "endian \<Rightarrow> ptr \<Rightarrow> ptr \<Rightarrow> u64 \<Rightarrow> u32 \<Rightarrow> bytes \<Rightarrow> exn + bytes" where
  "write_header e base a req_id payload_len mem =
     bindR (mem_write base a (to_memory e req_id) mem)
       (mem_write base (a + 8) (to_memory e payload_len))"

definition header_req_id :: "endian \<Rightarrow> ptr \<Rightarrow> ptr \<Rightarrow> bytes \<Rightarrow> exn + u64" where
  "header_req_id e base a mem = map_sum id (of_memory e) (mem_read base a 8 mem)"

definition header_payload_len :: "endian \<Rightarrow> ptr \<Rightarrow> ptr \<Rightarrow> bytes \<Rightarrow> exn + u32" where
  "header_payload_len e base a mem = map_sum id (of_memory e) (mem_read base (a + 8) 4 mem)"

lemma write_at_length [simp]: "off + length bs \<le> length mem \<Longrightarrow> length (write_at off bs mem) = length mem"
  by (simp add: write_at_def)

lemma bytes_at_length [simp]: "off + n \<le> length mem \<Longrightarrow> length (bytes_at off n mem) = n"
  by (simp add: bytes_at_def)

lemma bytes_at_bytes_at: "a + n \<le> m \<Longrightarrow> bytes_at a n (bytes_at off m mem) = bytes_at (off + a) n mem"
  by (simp add: bytes_at_def take_drop add.commute min_def)

lemma bytes_at_write_at_same [simp]: "off + length bs \<le> length mem \<Longrightarrow> bytes_at off (length bs) (write_at off bs mem) = bs"
  by (simp add: bytes_at_def write_at_def)

lemma nth_write_at:
  assumes "off + length bs \<le> length mem" and "i < length mem"
  shows "write_at off bs mem ! i = (if off \<le> i \<and> i < off + length bs then bs ! (i - off) else mem ! i)"
  using assms by (auto simp: write_at_def nth_append)

lemma nth_bytes_at: "off + n \<le> length mem \<Longrightarrow> i < n \<Longrightarrow> bytes_at off n mem ! i = mem ! (off + i)"
  by (simp add: bytes_at_def)

lemma bytes_at_write_at_other:
  assumes "off + length bs \<le> length mem" and "a + n \<le> length mem" and "a + n \<le> off \<or> off + length bs \<le> a"
  shows "bytes_at a n (write_at off bs mem) = bytes_at a n mem"
  using assms by (intro nth_equalityI) (auto simp: nth_bytes_at nth_write_at)

lemma bytes_at_write_at_inner:
  assumes "a + n \<le> length mem" and "off + length bs \<le> n"
  shows "bytes_at a n (write_at (a + off) bs mem) = write_at off bs (bytes_at a n mem)"
  using assms by (intro nth_equalityI) (auto simp: nth_bytes_at nth_write_at)

lemma bytes_at_write_at_part:
  assumes "off + length bs \<le> length mem" and "a + n \<le> length bs"
  shows "bytes_at (off + a) n (write_at off bs mem) = bytes_at a n bs"
  using assms by (intro nth_equalityI) (auto simp: nth_bytes_at nth_write_at)

section \<open>Messages\<close>

definition rpc_message :: "endian \<Rightarrow> u64 \<Rightarrow> u32 \<Rightarrow> bytes \<Rightarrow> bytes \<Rightarrow> bytes" where
  "rpc_message e req_id payload_len pad payload =
     to_memory e req_id @ to_memory e payload_len @ pad @ payload"

definition msg_id :: "endian \<Rightarrow> bytes \<Rightarrow> u64" where
  "msg_id e m = of_memory e (bytes_at 0 8 m)"

definition msg_len :: "endian \<Rightarrow> bytes \<Rightarrow> u32" where
  "msg_len e m = of_memory e (bytes_at 8 4 m)"

definition msg_payload :: "bytes \<Rightarrow> bytes" where
  "msg_payload m = drop 16 m"

lemma message_id [simp]: "msg_id e (rpc_message e i n pad d) = i"
  by (simp add: msg_id_def rpc_message_def bytes_at_def of_to_memory)

lemma message_len [simp]: "msg_len e (rpc_message e i n pad d) = n"
  by (simp add: msg_len_def rpc_message_def bytes_at_def of_to_memory)

lemma message_payload [simp]: "length pad = 4 \<Longrightarrow> msg_payload (rpc_message e i n pad d) = d"
  by (simp add: msg_payload_def rpc_message_def)

lemma message_length [simp]: "length pad = 4 \<Longrightarrow> length (rpc_message e i n pad d) = 16 + length d"
  by (simp add: rpc_message_def)

lemma write_header_message:
  assumes "16 + length d \<le> length mem"
  shows "write_at 16 d (write_at 8 (to_memory e (n :: u32)) (write_at 0 (to_memory e (i :: u64)) mem)) =
     rpc_message e i n (bytes_at 12 4 mem) d @ drop (16 + length d) mem"
  using assms by (simp add: write_at_def rpc_message_def bytes_at_def min_def take_drop)

section \<open>Pools of slices\<close>

text \<open>
  Client and server each cut one vector into as many slices as there are slots or
  workers. What they need from it: writing inside one slice changes that slice and no other.
\<close>

locale slice_pool =
  fixes width :: nat
    and part :: "nat \<Rightarrow> bytes \<Rightarrow> bytes"
    and patch :: "nat \<Rightarrow> nat \<Rightarrow> bytes \<Rightarrow> bytes \<Rightarrow> bytes"
    and within :: "nat \<Rightarrow> bytes \<Rightarrow> bool"
  assumes part_length: "within i p \<Longrightarrow> length (part i p) = width"
    and part_patch: "within i p \<Longrightarrow> off + length bs \<le> width \<Longrightarrow> part i (patch i off bs p) = write_at off bs (part i p)"
    and part_other: "within i p \<Longrightarrow> within j p \<Longrightarrow> off + length bs \<le> width \<Longrightarrow> i \<noteq> j \<Longrightarrow> part j (patch i off bs p) = part j p"
    and within_patch: "within i p \<Longrightarrow> off + length bs \<le> width \<Longrightarrow> within j (patch i off bs p) = within j p"
begin

definition put_message :: "endian \<Rightarrow> nat \<Rightarrow> u64 \<Rightarrow> u32 \<Rightarrow> bytes \<Rightarrow> bytes \<Rightarrow> bytes" where
  "put_message e i req_id n d p = patch i 16 d (patch i 8 (to_memory e n) (patch i 0 (to_memory e req_id) p))"

lemma put_message_part:
  assumes "within i p" and "16 + length d \<le> width"
  shows "part i (put_message e i r n d p) =
     rpc_message e r n (bytes_at 12 4 (part i p)) d @ drop (16 + length d) (part i p)"
  using assms write_header_message [of d "part i p" e n r]
  by (simp add: put_message_def part_patch within_patch part_length)

lemma put_message_slice:
  assumes "within i p" and "16 + length d \<le> width"
  shows "\<exists>pad. length pad = 4 \<and> bytes_at 0 (16 + length d) (part i (put_message e i r n d p)) = rpc_message e r n pad d"
proof -
  have "length (bytes_at 12 4 (part i p)) = 4" using assms by (simp add: part_length)
  then show ?thesis
    using assms by (intro exI [of _ "bytes_at 12 4 (part i p)"]) (simp add: put_message_part bytes_at_def)
qed

lemma put_message_other:
  "within i p \<Longrightarrow> within j p \<Longrightarrow> 16 + length d \<le> width \<Longrightarrow> i \<noteq> j \<Longrightarrow> part j (put_message e i r n d p) = part j p"
  by (simp add: put_message_def part_other within_patch)

lemma put_message_within:
  "within i p \<Longrightarrow> 16 + length d \<le> width \<Longrightarrow> within j (put_message e i r n d p) = within j p"
  by (simp add: put_message_def within_patch)

end

definition pool_part :: "nat \<Rightarrow> nat \<Rightarrow> bytes \<Rightarrow> bytes" where
  "pool_part w i p = bytes_at (i * w) w p"

definition pool_patch :: "nat \<Rightarrow> nat \<Rightarrow> nat \<Rightarrow> bytes \<Rightarrow> bytes \<Rightarrow> bytes" where
  "pool_patch w i off bs p = write_at (i * w + off) bs p"

definition pool_within :: "nat \<Rightarrow> nat \<Rightarrow> bytes \<Rightarrow> bool" where
  "pool_within w i p \<longleftrightarrow> Suc i * w \<le> length p"

lemma slices_apart: "i \<noteq> j \<Longrightarrow> Suc i * w \<le> j * w \<or> Suc j * w \<le> i * (w :: nat)"
  by (metis Suc_leI less_linear mult_le_mono1)

interpretation pool: slice_pool w "pool_part w" "pool_patch w" "pool_within w" for w
proof
  fix i j off :: nat and p bs :: bytes
  assume i: "pool_within w i p"
  show "length (pool_part w i p) = w" using i by (simp add: pool_part_def pool_within_def)
  assume bs: "off + length bs \<le> w"
  show "pool_part w i (pool_patch w i off bs p) = write_at off bs (pool_part w i p)"
    using i bs by (simp add: pool_part_def pool_patch_def pool_within_def bytes_at_write_at_inner)
  show "pool_within w j (pool_patch w i off bs p) = pool_within w j p"
    using i bs by (simp add: pool_patch_def pool_within_def)
  assume j: "pool_within w j p" and "i \<noteq> j"
  then show "pool_part w j (pool_patch w i off bs p) = pool_part w j p"
    using slices_apart [of i j w] i bs
    by (auto simp: pool_part_def pool_patch_def pool_within_def intro!: bytes_at_write_at_other)
qed

section \<open>Addresses of slices\<close>

lemma unat_scale:
  assumes "unat (i :: u64) * n < 2 ^ 64"
  shows "unat (i * of_nat n) = unat i * n"
proof -
  have "unat (of_nat n :: u64) = n mod 2 ^ 64" by (simp add: unat_of_nat)
  then have "unat (i * of_nat n) = unat i * (n mod 2 ^ 64) mod 2 ^ 64" by (simp add: unat_word_ariths)
  also have "\<dots> = unat i * n mod 2 ^ 64" by (simp add: mod_mult_right_eq)
  finally show ?thesis using assms by simp
qed

lemma unat_ucast32 [simp]: "unat (ucast (i :: u32) :: u64) = unat i"
proof -
  have "unat i < 2 ^ 32" using unsigned_less [of i] by simp
  then show ?thesis by (simp add: unsigned_ucast_eq take_bit_nat_eq_self)
qed

lemma unat_slot_offset:
  "unat (ucast (i :: u32) * kSendBufferSize) = unat i * 272"
  "unat (w :: u64) < 2 ^ 32 \<Longrightarrow> unat (w * kRecvBufferSize) = unat w * 4112"
proof -
  have "unat i < 2 ^ 32" using unsigned_less [of i] by simp
  then show "unat (ucast i * kSendBufferSize) = unat i * 272"
    using unat_scale [of "ucast i" 272] by (simp add: rpc_sizes)
  show "unat w < 2 ^ 32 \<Longrightarrow> unat (w * kRecvBufferSize) = unat w * 4112"
    using unat_scale [of w 4112] by (simp add: rpc_sizes)
qed

lemma unat_offset_add:
  assumes "unat (o1 :: u64) + n < 2 ^ 64"
  shows "unat (base + o1 + of_nat n - base) = unat o1 + n"
  using assms by (simp add: unat_word_ariths unat_of_nat)

lemma slice_view:
  assumes "lmr_mr l = Some mr" and "mr_addr mr = base" and "unat (mr_length mr) = w * m"
    and "unat off = i * w" and "i < m" and "unat n \<le> w"
  shows "mr_view_local l off n = Inr \<lparr>view_addr = base + off, view_length = n, view_key = mr_lkey mr\<rparr>"
proof -
  have "Suc i * w \<le> w * m" using assms(5) by (metis Suc_leI mult.commute mult_le_mono1)
  then have "unat off + unat n \<le> unat (mr_length mr)" using assms by simp
  then have "n \<le> mr_length mr - off" by (simp add: word_le_nat_alt unat_sub)
  then show ?thesis using assms by (simp add: mr_view_local_def)
qed

lemma pool_inside:
  assumes "length mem = N * w" and "i < N" and "d + n \<le> w"
  shows "i * w + d + n \<le> length mem"
proof -
  have "Suc i * w \<le> N * w" using assms(2) by (metis Suc_leI mult_le_mono1)
  with assms show ?thesis by simp
qed

lemma pool_read:
  assumes "length mem = N * w" and "N * w < 2 ^ 64" and "i < N" and "unat off = i * w" and "d + n \<le> w"
  shows "mem_read base (base + off + of_nat d) n mem = Inr (bytes_at d n (pool_part w i mem))"
proof -
  have fits: "i * w + d + n \<le> length mem" using assms by (intro pool_inside)
  then have "unat off + d < 2 ^ 64" using assms by linarith
  then have "unat (base + off + of_nat d - base) = i * w + d"
    using unat_offset_add [of off d base] assms(4) by simp
  then show ?thesis using fits assms(5) by (simp add: mem_read_def pool_part_def bytes_at_bytes_at)
qed

lemma slice_read:
  assumes "length mem = N * w" and "N * w < 2 ^ 64" and "i < N" and "unat off = i * w"
    and "length m \<le> w" and "bytes_at 0 (length m) (pool_part w i mem) = m" and "d + n \<le> length m"
  shows "mem_read base (base + off + of_nat d) n mem = Inr (bytes_at d n m)"
proof -
  have "mem_read base (base + off + of_nat d) n mem = Inr (bytes_at d n (pool_part w i mem))"
    by (rule pool_read) (use assms in simp_all)
  also have "bytes_at d n (pool_part w i mem) = bytes_at d n m"
    using bytes_at_bytes_at [OF assms(7), of 0 "pool_part w i mem"] assms(6) by simp
  finally show ?thesis .
qed

lemma pool_write:
  assumes "length mem = N * w" and "N * w < 2 ^ 64" and "i < N" and "unat off = i * w" and "d + length bs \<le> w"
  shows "mem_write base (base + off + of_nat d) bs mem = Inr (pool_patch w i d bs mem)"
proof -
  have fits: "i * w + d + length bs \<le> length mem" using assms by (intro pool_inside)
  then have "unat off + d < 2 ^ 64" using assms by linarith
  then have "unat (base + off + of_nat d - base) = i * w + d"
    using unat_offset_add [of off d base] assms(4) by simp
  then show ?thesis using fits by (simp add: mem_write_def pool_patch_def)
qed

section \<open>Identifiers in flight\<close>

text \<open>
  A request identifier gives back its slot and the low half of its sequence number; two calls
  carry the same identifier exactly when they use the same slot and their sequence numbers agree
  modulo \<open>2\<^sup>3\<^sup>2\<close>, since the shift drops the upper half.
\<close>

theorem rpc_req_id_roundtrip:
  "decode_slot_idx (encode_req_id s i) = i \<and>
   unat (drop_bit 32 (encode_req_id s i)) = unat s mod 2 ^ 32 \<and>
   (encode_req_id s i = encode_req_id t j \<longleftrightarrow> i = j \<and> unat s mod 2 ^ 32 = unat t mod 2 ^ 32)"
  using encode_inject [of s i t j] unat_seq [of s] by (simp add: encode_seq)

end
