(* ===== verification/Rpc_Client.thy ===== *)
theory Rpc_Client
  imports Rpc_Wire Resources "HOL-Library.Multiset"
begin

text \<open>
  \<open>RpcClient\<close> and \<open>RpcClientMux\<close> of \<^verbatim>\<open>examples/include/coro_rpc.hpp\<close>: the slots of the calls in
  flight, the two buffer pools, the sections of \<open>call\<close> between two suspensions, and what a
  receive worker does with one message. How callers and workers interleave is in \<open>Rpc_Steps\<close>.
\<close>

section \<open>State\<close>

text \<open>
  A caller's coroutine handle and the response buffer it passes in are the number of the
  caller; \<open>slot_waiter\<close> is 0 (\<open>None\<close>) until the coroutine has suspended.
\<close>

record rpc_slot =
  slot_waiter :: "nat option"
  slot_buffer :: nat
  slot_buffer_size :: size_t
  slot_actual_len :: size_t
  slot_expected_req_id :: u64

definition rpc_slot_init :: rpc_slot where
  "rpc_slot_init = \<lparr>slot_waiter = None, slot_buffer = 0, slot_buffer_size = 0, slot_actual_len = 0,
     slot_expected_req_id = 0\<rparr>"

text \<open>The concurrent queue of free slots promises no order between producers: a multiset.\<close>

record rpc_client =
  cl_max_inflight :: size_t
  cl_send_base :: ptr
  cl_send_pool :: bytes
  cl_send_mr :: local_mr
  cl_recv_base :: ptr
  cl_recv_pool :: bytes
  cl_recv_mr :: local_mr
  cl_slots :: "rpc_slot list"
  cl_free_slots :: "u32 multiset"
  cl_global_seq :: u64

section \<open>Construction\<close>

text \<open>
  \<open>for (uint32_t i = 0; i < max_inflight_; ++i)\<close>: with \<open>2\<^sup>3\<^sup>2\<close> slots or more the index wraps around
  and the loop does not end (\<open>None\<close>).
\<close>

definition all_slots :: "size_t \<Rightarrow> u32 multiset option" where
  "all_slots n = (if unat n < 2 ^ 32 then Some (mset (map of_nat [0..<unat n])) else None)"

text \<open>\<open>sbase\<close> and \<open>rbase\<close> are where the allocator puts the two vectors.\<close>

definition rpc_client_ctor :: "verbs \<Rightarrow> pd \<Rightarrow> size_t \<Rightarrow> ptr \<Rightarrow> ptr \<Rightarrow> (world, rpc_client option) se" where
  "rpc_client_ctor V p recv_depth sbase rbase =
     (let ssize = recv_depth * kSendBufferSize; rsize = recv_depth * kRecvBufferSize in
      bindS (reg_mr V p sbase ssize reg_mr_default_flags) (\<lambda>smr.
      bindS (unwindS (reg_mr V p rbase rsize reg_mr_default_flags) (local_mr_dtor V smr)) (\<lambda>rmr.
      returnS (map_option (\<lambda>free.
        \<lparr>cl_max_inflight = recv_depth,
         cl_send_base = sbase, cl_send_pool = replicate (unat ssize) 0, cl_send_mr = smr,
         cl_recv_base = rbase, cl_recv_pool = replicate (unat rsize) 0, cl_recv_mr = rmr,
         cl_slots = replicate (unat recv_depth) rpc_slot_init, cl_free_slots = free,
         cl_global_seq = 0\<rparr>) (all_slots recv_depth)))))"

section \<open>A call\<close>

definition try_dequeue :: "u32 \<Rightarrow> rpc_client \<Rightarrow> rpc_client option" where
  "try_dequeue i c = (if i \<in># cl_free_slots c
     then Some (c\<lparr>cl_free_slots := cl_free_slots c - {#i#}\<rparr>) else None)"

definition update_slot :: "u32 \<Rightarrow> (rpc_slot \<Rightarrow> rpc_slot) \<Rightarrow> rpc_client \<Rightarrow> rpc_client" where
  "update_slot i f c = c\<lparr>cl_slots := (cl_slots c)[unat i := f (cl_slots c ! unat i)]\<rparr>"

definition on_send_pool :: "(bytes \<Rightarrow> exn + bytes) \<Rightarrow> (rpc_client, unit) se" where
  "on_send_pool f c = (case f (cl_send_pool c) of
     Inl ex \<Rightarrow> (Inl ex, c) | Inr p \<Rightarrow> (Inr (), c\<lparr>cl_send_pool := p\<rparr>))"

text \<open>
  From the identifier to the filled message, for caller \<open>k\<close> with a response buffer of \<open>n\<close>
  bytes. The view is cut at the end of the pool; the copy behind the header is not.
\<close>

definition call_prepare :: "endian \<Rightarrow> nat \<Rightarrow> size_t \<Rightarrow> bytes \<Rightarrow> u32 \<Rightarrow> (rpc_client, mr_view) se" where
  "call_prepare e k n req_data slot_idx = bindS getS (\<lambda>c.
     let req_id = encode_req_id (cl_global_seq c) slot_idx;
         send_offset = ucast slot_idx * kSendBufferSize;
         base = cl_send_base c
     in if length (cl_slots c) \<le> unat slot_idx then throwS (Undefined_behaviour ''slots_[slot_idx]'')
     else
       thenS (modifyS (\<lambda>c. update_slot slot_idx (\<lambda>s. s\<lparr>slot_waiter := None, slot_buffer := k,
           slot_buffer_size := n, slot_expected_req_id := req_id\<rparr>)
           (c\<lparr>cl_global_seq := cl_global_seq c + 1\<rparr>)))
       (bindS (liftS (mr_view_local (cl_send_mr c) send_offset (sizeof_RpcHeader + of_nat (length req_data)))) (\<lambda>v.
        thenS (on_send_pool (write_header e base (fst (mr_view_span v)) req_id (of_nat (length req_data))))
        (thenS (on_send_pool (mem_write base (fst (mr_view_span v) + sizeof_RpcHeader) req_data))
          (returnS v)))))"

text \<open>\<open>RpcResponseAwaitable\<close>: \<open>await_ready\<close> is false, so the caller always stores its handle.\<close>

definition response_await_suspend :: "u32 \<Rightarrow> nat \<Rightarrow> rpc_client \<Rightarrow> rpc_client" where
  "response_await_suspend i k = update_slot i (\<lambda>s. s\<lparr>slot_waiter := Some k\<rparr>)"

definition response_await_resume :: "u32 \<Rightarrow> rpc_client \<Rightarrow> size_t" where
  "response_await_resume i c = slot_actual_len (cl_slots c ! unat i)"

text \<open>The last section of \<open>call\<close>, reached after the response and after the handler alike.\<close>

definition call_release :: "u32 \<Rightarrow> rpc_client \<Rightarrow> rpc_client" where
  "call_release i c = c\<lparr>cl_free_slots := add_mset i (cl_free_slots c)\<rparr>"

text \<open>What the card reads for a posted send: the bytes the view covers.\<close>

definition view_bytes :: "ptr \<Rightarrow> bytes \<Rightarrow> mr_view \<Rightarrow> bytes" where
  "view_bytes base mem v = bytes_at (unat (view_addr v - base)) (unat (view_length v)) mem"

section \<open>A receive worker\<close>

datatype recv_outcome = Recv_continue | Recv_resume u32

definition recv_view :: "size_t \<Rightarrow> rpc_client \<Rightarrow> exn + mr_view" where
  "recv_view worker_idx c = mr_view_local (cl_recv_mr c) (worker_idx * kRecvBufferSize) kRecvBufferSize"

text \<open>
  From the completion of the receive to the spin on \<open>slot.waiter\<close>. The second component of
  the state holds the callers' response buffers.
\<close>

definition recv_worker_handle :: "endian \<Rightarrow> size_t \<Rightarrow> u32 \<Rightarrow> (rpc_client \<times> (nat \<Rightarrow> bytes), recv_outcome) se" where
  "recv_worker_handle e worker_idx nbytes = bindS getS (\<lambda>(c, bufs).
     let base = cl_recv_base c; pool = cl_recv_pool c;
         buffer_ptr = base + worker_idx * kRecvBufferSize
     in if ucast nbytes < sizeof_RpcHeader then throwS (Assert_failed ''nbytes >= sizeof(RpcHeader)'')
     else bindS (liftS (header_req_id e base buffer_ptr pool)) (\<lambda>recv_id.
       let slot_idx = decode_slot_idx recv_id; slot = cl_slots c ! unat slot_idx in
       if cl_max_inflight c \<le> ucast slot_idx then returnS Recv_continue
       else if slot_expected_req_id slot \<noteq> recv_id then throwS (Terminated ''mismatch req_id'')
       else bindS (liftS (header_payload_len e base buffer_ptr pool)) (\<lambda>payload_len.
       if payload_len = 0 then throwS (Assert_failed ''payload_len != 0'')
       else let copy_len = min (ucast payload_len) (slot_buffer_size slot) in
         bindS (liftS (mem_read base (buffer_ptr + sizeof_RpcHeader) (unat copy_len) pool)) (\<lambda>bs.
         bindS (liftS (mem_write 0 0 bs (bufs (slot_buffer slot)))) (\<lambda>b.
         thenS (modifyS (\<lambda>(c, bufs). (update_slot slot_idx (\<lambda>s. s\<lparr>slot_actual_len := copy_len\<rparr>) c,
                                      bufs(slot_buffer slot := b))))
           (returnS (Recv_resume slot_idx)))))))"

section \<open>RpcClientMux\<close>

text \<open>\<open>selector_.fetch_add(1) % clients_.size()\<close>: the client a call goes to.\<close>

definition mux_select :: "nat \<Rightarrow> (u32, nat) se" where
  "mux_select clients selector =
     (if clients = 0 then Inl (Undefined_behaviour ''modulo by clients_.size()'') else Inr (unat selector mod clients),
      selector + 1)"

section \<open>Well-formed clients\<close>

definition client_wf :: "rpc_client \<Rightarrow> bool" where
  "client_wf c \<longleftrightarrow> unat (cl_max_inflight c) < 2 ^ 32 \<and>
     length (cl_slots c) = unat (cl_max_inflight c) \<and>
     length (cl_send_pool c) = unat (cl_max_inflight c) * 272 \<and>
     length (cl_recv_pool c) = unat (cl_max_inflight c) * 4112 \<and>
     (\<exists>mr. lmr_mr (cl_send_mr c) = Some mr \<and> mr_addr mr = cl_send_base c \<and> mr_length mr = cl_max_inflight c * 272) \<and>
     (\<exists>mr. lmr_mr (cl_recv_mr c) = Some mr \<and> mr_addr mr = cl_recv_base c \<and> mr_length mr = cl_max_inflight c * 4112)"

lemma client_wfE:
  assumes "client_wf c"
  obtains smr rmr where "unat (cl_max_inflight c) < 2 ^ 32"
    and "length (cl_slots c) = unat (cl_max_inflight c)"
    and "length (cl_send_pool c) = unat (cl_max_inflight c) * 272"
    and "length (cl_recv_pool c) = unat (cl_max_inflight c) * 4112"
    and "lmr_mr (cl_send_mr c) = Some smr" "mr_addr smr = cl_send_base c" "mr_length smr = cl_max_inflight c * 272"
    and "lmr_mr (cl_recv_mr c) = Some rmr" "mr_addr rmr = cl_recv_base c" "mr_length rmr = cl_max_inflight c * 4112"
  using assms unfolding client_wf_def by blast

lemma client_wf_update_slot [simp]: "client_wf (update_slot i f c) = client_wf c"
  by (simp add: client_wf_def update_slot_def)

lemma client_wf_release [simp]: "client_wf (call_release i c) = client_wf c"
  by (simp add: client_wf_def call_release_def)

lemma client_wf_free [simp]: "client_wf (c\<lparr>cl_free_slots := f\<rparr>) = client_wf c"
  by (simp add: client_wf_def)

section \<open>What a call writes\<close>

abbreviation next_req_id :: "u32 \<Rightarrow> rpc_client \<Rightarrow> u64" where
  "next_req_id i c \<equiv> encode_req_id (cl_global_seq c) i"

definition prepared :: "endian \<Rightarrow> nat \<Rightarrow> size_t \<Rightarrow> bytes \<Rightarrow> u32 \<Rightarrow> rpc_client \<Rightarrow> rpc_client" where
  "prepared e k n req i c = update_slot i (\<lambda>s. s\<lparr>slot_waiter := None, slot_buffer := k,
       slot_buffer_size := n, slot_expected_req_id := next_req_id i c\<rparr>)
     (c\<lparr>cl_global_seq := cl_global_seq c + 1,
        cl_send_pool := pool.put_message 272 e (unat i) (next_req_id i c) (of_nat (length req)) req (cl_send_pool c)\<rparr>)"

definition message_view :: "nat \<Rightarrow> u32 \<Rightarrow> rpc_client \<Rightarrow> mr_view" where
  "message_view len i c = \<lparr>view_addr = cl_send_base c + ucast i * kSendBufferSize,
     view_length = 16 + of_nat len, view_key = mr_lkey (the (lmr_mr (cl_send_mr c)))\<rparr>"

lemma pool_bound: "client_wf c \<Longrightarrow> length (cl_send_pool c) < 2 ^ 64" "client_wf c \<Longrightarrow> length (cl_recv_pool c) < 2 ^ 64"
  by (auto simp: client_wf_def)

lemma call_prepare_apply:
  assumes wf: "client_wf c" and i: "unat i < unat (cl_max_inflight c)"
    and fit: "unat i * 272 + 16 + length req \<le> length (cl_send_pool c)"
  shows "call_prepare e k n req i c = (Inr (message_view (length req) i c), prepared e k n req i c)"
proof -
  let ?off = "ucast i * kSendBufferSize :: u64"
  from wf obtain mr where max: "unat (cl_max_inflight c) < 2 ^ 32"
    and slots: "length (cl_slots c) = unat (cl_max_inflight c)"
    and mem: "length (cl_send_pool c) = unat (cl_max_inflight c) * 272"
    and mr: "lmr_mr (cl_send_mr c) = Some mr" "mr_addr mr = cl_send_base c" "mr_length mr = cl_max_inflight c * 272"
    by (rule client_wfE)
  have off: "unat ?off = unat i * 272" by (rule unat_slot_offset)
  have len: "unat (mr_length mr) = length (cl_send_pool c)"
    using unat_scale [of "cl_max_inflight c" 272] max mem mr(3) by simp
  have small: "unat i * 272 + 16 + length req < 2 ^ 64" using fit pool_bound(1) [OF wf] by linarith
  have n: "unat (16 + of_nat (length req) :: u64) = 16 + length req"
    using small by (simp add: unat_word_ariths unat_of_nat)
  have view: "mr_view_local (cl_send_mr c) ?off (sizeof_RpcHeader + of_nat (length req)) = Inr (message_view (length req) i c)"
  proof -
    have "16 + of_nat (length req) \<le> mr_length mr - ?off"
      using fit n len off by (simp add: word_le_nat_alt unat_sub)
    then show ?thesis
      using mr by (simp add: mr_view_local_def message_view_def sizeof_RpcHeader_def)
  qed
  have a8: "unat (cl_send_base c + ?off + 8 - cl_send_base c) = unat i * 272 + 8"
    using unat_offset_add [of ?off 8 "cl_send_base c"] small off by simp
  have a16: "unat (cl_send_base c + ?off + 16 - cl_send_base c) = unat i * 272 + 16"
    using unat_offset_add [of ?off 16 "cl_send_base c"] small off by simp
  show ?thesis
    using i fit slots off a8 a16
    by (simp add: call_prepare_def se_defs Let_def view [unfolded sizeof_RpcHeader_def] on_send_pool_def write_header_def mem_write_def
        mr_view_span_def message_view_def sizeof_RpcHeader_def prepared_def update_slot_def
        pool.put_message_def pool_patch_def)
qed

section \<open>What a receive worker does with a message\<close>

definition arrived :: "size_t \<Rightarrow> bytes \<Rightarrow> rpc_client \<Rightarrow> bool" where
  "arrived w m c \<longleftrightarrow> w < cl_max_inflight c \<and> length m \<le> 4112 \<and>
     bytes_at 0 (length m) (pool_part 4112 (unat w) (cl_recv_pool c)) = m"

lemma arrived_read:
  assumes "client_wf c" and "arrived w m c" and "d + n \<le> length m"
  shows "mem_read (cl_recv_base c) (cl_recv_base c + w * kRecvBufferSize + of_nat d) n (cl_recv_pool c) = Inr (bytes_at d n m)"
proof (rule slice_read)
  show "length (cl_recv_pool c) = unat (cl_max_inflight c) * 4112" and "unat (cl_max_inflight c) * 4112 < 2 ^ 64"
    using assms(1) by (auto simp: client_wf_def)
  show "unat w < unat (cl_max_inflight c)" using assms(2) by (simp add: arrived_def word_less_nat_alt)
  then show "unat (w * kRecvBufferSize) = unat w * 4112"
    using assms(1) by (intro unat_slot_offset) (simp add: client_wf_def)
qed (use assms in \<open>auto simp: arrived_def\<close>)

text \<open>The decision on a whole message, in terms of the message alone.\<close>

definition recv_decision :: "endian \<Rightarrow> bytes \<Rightarrow> rpc_client \<times> (nat \<Rightarrow> bytes) \<Rightarrow>
    (exn + recv_outcome) \<times> rpc_client \<times> (nat \<Rightarrow> bytes)" where
  "recv_decision e m st = (let c = fst st; bufs = snd st;
       i = decode_slot_idx (msg_id e m); slot = cl_slots c ! unat i;
       n = min (ucast (msg_len e m)) (slot_buffer_size slot); k = slot_buffer slot
     in if length m < 16 then (Inl (Assert_failed ''nbytes >= sizeof(RpcHeader)''), st)
     else if unat (cl_max_inflight c) \<le> unat i then (Inr Recv_continue, st)
     else if slot_expected_req_id slot \<noteq> msg_id e m then (Inl (Terminated ''mismatch req_id''), st)
     else if msg_len e m = 0 then (Inl (Assert_failed ''payload_len != 0''), st)
     else (Inr (Recv_resume i), update_slot i (\<lambda>s. s\<lparr>slot_actual_len := n\<rparr>) c,
           bufs(k := write_at 0 (bytes_at 16 (unat n) m) (bufs k))))"

lemma recv_worker_decides:
  assumes wf: "client_wf c" and m: "arrived w m c"
    and len: "16 + unat (msg_len e m) \<le> length m"
    and buf: "unat (slot_buffer_size slot) \<le> length (bufs (slot_buffer slot))"
    and slot: "slot = cl_slots c ! unat (decode_slot_idx (msg_id e m))"
  shows "recv_worker_handle e w (of_nat (length m)) (c, bufs) = recv_decision e m (c, bufs)"
proof -
  let ?a = "cl_recv_base c + w * kRecvBufferSize"
  have long: "16 \<le> length m" "length m \<le> 4112" using len m by (simp_all add: arrived_def)
  then have big: "\<not> ucast (of_nat (length m) :: u32) < sizeof_RpcHeader"
    by (simp add: word_less_nat_alt sizeof_RpcHeader_def unat_of_nat)
  have id: "header_req_id e (cl_recv_base c) ?a (cl_recv_pool c) = Inr (msg_id e m)"
    using arrived_read [OF wf m, of 0 8] long by (simp add: header_req_id_def msg_id_def)
  have pl: "header_payload_len e (cl_recv_base c) ?a (cl_recv_pool c) = Inr (msg_len e m)"
    using arrived_read [OF wf m, of 8 4] long by (simp add: header_payload_len_def msg_len_def)
  have min_le: "unat (min (ucast (msg_len e m)) s) \<le> unat (msg_len e m)"
     "unat (min (ucast (msg_len e m)) s) \<le> unat s" for s :: u64
    by (simp_all add: min_def word_le_nat_alt)
  have body: "mem_read (cl_recv_base c) (?a + sizeof_RpcHeader) (unat (min (ucast (msg_len e m)) s)) (cl_recv_pool c) =
      Inr (bytes_at 16 (unat (min (ucast (msg_len e m)) s)) m)" for s :: u64
    using arrived_read [OF wf m, of 16] len min_le(1) [of s] by (simp add: sizeof_RpcHeader_def)
  have copy: "length (bytes_at 16 (unat (min (ucast (msg_len e m)) (slot_buffer_size slot))) m) \<le> length (bufs (slot_buffer slot))"
    using len buf min_le [of "slot_buffer_size slot"] by simp
  have max: "cl_max_inflight c \<le> ucast i \<longleftrightarrow> unat (cl_max_inflight c) \<le> unat i" for i :: u32
    by (simp add: word_le_nat_alt)
  show ?thesis
    using long copy
    by (simp add: recv_worker_handle_def recv_decision_def se_defs Let_def big id pl body max mem_write_def
        flip: slot)
qed

lemma recv_worker_short:
  "length m < 16 \<Longrightarrow> recv_worker_handle e w (of_nat (length m)) (c, bufs) = recv_decision e m (c, bufs)"
  by (simp add: recv_worker_handle_def recv_decision_def se_defs Let_def word_less_nat_alt sizeof_RpcHeader_def unat_of_nat)

section \<open>Requests and their slices\<close>

lemma slot_within: "client_wf c \<Longrightarrow> i < unat (cl_max_inflight c) \<Longrightarrow> pool_within 272 i (cl_send_pool c)"
  "client_wf c \<Longrightarrow> i < unat (cl_max_inflight c) \<Longrightarrow> pool_within 4112 i (cl_recv_pool c)"
  by (auto simp: client_wf_def pool_within_def)

lemma short_fits:
  assumes "client_wf c" and "unat i < unat (cl_max_inflight c)" and "length req \<le> 256"
  shows "unat i * 272 + 16 + length req \<le> length (cl_send_pool c)"
  using slot_within(1) [OF assms(1,2)] assms(3) by (simp add: pool_within_def)

lemma put_message_length:
  "unat i * 272 + 16 + length req \<le> length mem \<Longrightarrow> length (pool.put_message 272 e (unat i) r n req mem) = length mem"
  by (simp add: pool.put_message_def pool_patch_def)

lemma client_wf_prepared:
  assumes "client_wf c" and "unat i * 272 + 16 + length req \<le> length (cl_send_pool c)"
  shows "client_wf (prepared e k n req i c)"
  using assms by (simp add: prepared_def) (simp add: client_wf_def put_message_length)

lemma view_bytes_part:
  assumes "length req \<le> 256"
  shows "view_bytes (cl_send_base c) mem (message_view (length req) i c) = bytes_at 0 (16 + length req) (pool_part 272 (unat i) mem)"
proof -
  have n: "unat (16 + of_nat (length req) :: u64) = 16 + length req"
    using assms by (simp add: unat_word_ariths unat_of_nat)
  have "view_bytes (cl_send_base c) mem (message_view (length req) i c) = bytes_at (unat i * 272) (16 + length req) mem"
    using unat_slot_offset(1) [of i] by (simp add: view_bytes_def message_view_def n)
  also have "\<dots> = bytes_at 0 (16 + length req) (pool_part 272 (unat i) mem)"
    using assms by (simp add: pool_part_def bytes_at_bytes_at)
  finally show ?thesis .
qed

lemma prepared_message:
  assumes "client_wf c" and "unat i < unat (cl_max_inflight c)" and "length req \<le> 256"
  shows "\<exists>pad. length pad = 4 \<and>
     bytes_at 0 (16 + length req) (pool_part 272 (unat i) (cl_send_pool (prepared e k n req i c))) =
       rpc_message e (next_req_id i c) (of_nat (length req)) pad req"
proof -
  have "pool_within 272 (unat i) (cl_send_pool c)" by (rule slot_within) (use assms in auto)
  from pool.put_message_slice [OF this, of req e "next_req_id i c" "of_nat (length req)"] assms(3)
  show ?thesis by (simp add: prepared_def update_slot_def)
qed

text \<open>
  C31: a request of at most \<open>kSendMsgSize\<close> bytes stays in the slice of its slot: the view that is
  posted covers exactly the header, with the new identifier and the length, and the payload, and
  no byte of another slot's slice changes.
\<close>

theorem rpc_request_confined:
  assumes "client_wf c" and "unat i < unat (cl_max_inflight c)" and "length req \<le> 256"
  shows "\<exists>v c' pad. call_prepare e k n req i c = (Inr v, c') \<and> client_wf c' \<and> length pad = 4 \<and>
     view_bytes (cl_send_base c') (cl_send_pool c') v =
       rpc_message e (encode_req_id (cl_global_seq c) i) (of_nat (length req)) pad req \<and>
     (\<forall>j < unat (cl_max_inflight c). j \<noteq> unat i \<longrightarrow>
        pool_part 272 j (cl_send_pool c') = pool_part 272 j (cl_send_pool c))"
proof -
  let ?c = "prepared e k n req i c"
  have fit: "unat i * 272 + 16 + length req \<le> length (cl_send_pool c)" by (rule short_fits [OF assms])
  obtain pad where "length pad = 4"
    and "view_bytes (cl_send_base c) (cl_send_pool ?c) (message_view (length req) i c) =
       rpc_message e (next_req_id i c) (of_nat (length req)) pad req"
    using prepared_message [OF assms] view_bytes_part [OF assms(3)] by metis
  moreover have "pool_part 272 j (cl_send_pool ?c) = pool_part 272 j (cl_send_pool c)"
    if "j < unat (cl_max_inflight c)" "j \<noteq> unat i" for j
    using that assms slot_within(1) [OF assms(1)]
    by (simp add: prepared_def update_slot_def pool.put_message_other)
  moreover have "cl_send_base ?c = cl_send_base c" by (simp add: prepared_def update_slot_def)
  ultimately show ?thesis
    using call_prepare_apply [OF assms(1,2) fit] client_wf_prepared [OF assms(1) fit] by auto
qed

definition sample_region :: "ptr \<Rightarrow> size_t \<Rightarrow> local_mr" where
  "sample_region base n = local_mr_ctor 1
     \<lparr>mr_handle = 5, mr_addr = base, mr_length = n, mr_lkey = 1, mr_rkey = 2\<rparr>"

definition sample_client :: rpc_client where
  "sample_client = \<lparr>cl_max_inflight = 2, cl_send_base = 4096, cl_send_pool = replicate 544 0,
     cl_send_mr = sample_region 4096 544, cl_recv_base = 8192, cl_recv_pool = replicate 8224 0,
     cl_recv_mr = sample_region 8192 8224, cl_slots = replicate 2 rpc_slot_init, cl_free_slots = {#0, 1#},
     cl_global_seq = 0\<rparr>"

lemma sample_client_wf: "client_wf sample_client"
  by (simp add: client_wf_def sample_client_def sample_region_def local_mr_ctor_def)

theorem rpc_request_confined_witness:
  "\<exists>v c' pad. call_prepare Little 7 4096 [1, 2, 3] 1 sample_client = (Inr v, c') \<and> length pad = 4 \<and>
     view_bytes (cl_send_base c') (cl_send_pool c') v = rpc_message Little (encode_req_id 0 1) 3 pad [1, 2, 3] \<and>
     pool_part 272 0 (cl_send_pool c') = pool_part 272 0 (replicate 544 0)"
proof -
  have "unat (1 :: u32) < unat (cl_max_inflight sample_client)" and "length [1, 2, 3 :: u8] \<le> 256"
    and z: "0 < unat (cl_max_inflight sample_client)" and "0 \<noteq> unat (1 :: u32)"
    by (simp_all add: sample_client_def)
  from rpc_request_confined [OF sample_client_wf this(1,2), of Little 7 4096] z this(4) show ?thesis
    by (fastforce simp: sample_client_def)
qed

lemma call_prepare_past_end:
  assumes wf: "client_wf c" and i: "Suc (unat i) = unat (cl_max_inflight c)" and long: "256 < length req"
  shows "fst (call_prepare e k n req i c) = Inl (Undefined_behaviour ''write outside the buffer'')"
proof -
  let ?off = "ucast i * kSendBufferSize :: u64"
  from wf obtain mr where slots: "length (cl_slots c) = unat (cl_max_inflight c)"
    and mem: "length (cl_send_pool c) = unat (cl_max_inflight c) * 272"
    and mr: "lmr_mr (cl_send_mr c) = Some mr" "mr_addr mr = cl_send_base c"
    by (rule client_wfE)
  have off: "unat ?off = unat i * 272" by (rule unat_slot_offset)
  have end_eq: "length (cl_send_pool c) = unat i * 272 + 272" using mem i [symmetric] by simp
  then have small: "unat i * 272 + 272 < 2 ^ 64" using pool_bound(1) [OF wf] by simp
  obtain len key where view: "mr_view_local (cl_send_mr c) ?off (16 + of_nat (length req)) =
      Inr \<lparr>view_addr = cl_send_base c + ?off, view_length = len, view_key = key\<rparr>"
    using mr by (simp add: mr_view_local_def)
  have "unat (cl_send_base c + ?off + 8 - cl_send_base c) = unat i * 272 + 8"
    "unat (cl_send_base c + ?off + 16 - cl_send_base c) = unat i * 272 + 16"
    using unat_offset_add [of ?off 8 "cl_send_base c"] unat_offset_add [of ?off 16 "cl_send_base c"] small off by simp_all
  then show ?thesis
    using slots i [symmetric] off long end_eq
    by (simp add: call_prepare_def se_defs Let_def view on_send_pool_def write_header_def mem_write_def
        mr_view_span_def sizeof_RpcHeader_def update_slot_def)
qed

text \<open>
  Nothing stops a request longer than \<open>kSendMsgSize\<close>: its tail overwrites the beginning of the
  next slot's slice, where the header of a request in flight may be, and in the last slot the copy
  leaves the vector.
\<close>

theorem rpc_long_request_overflows:
  assumes "client_wf c" and "unat i < unat (cl_max_inflight c)" and "256 < length req" and "length req \<le> 528"
  shows "if Suc (unat i) = unat (cl_max_inflight c)
     then fst (call_prepare e k n req i c) = Inl (Undefined_behaviour ''write outside the buffer'')
     else \<exists>v c'. call_prepare e k n req i c = (Inr v, c') \<and>
       bytes_at 0 (length req - 256) (pool_part 272 (Suc (unat i)) (cl_send_pool c')) = drop 256 req"
proof (cases "Suc (unat i) = unat (cl_max_inflight c)")
  case True
  with assms show ?thesis by (simp add: call_prepare_past_end)
next
  case False
  let ?m = "write_at (unat i * 272 + 8) (to_memory e (of_nat (length req) :: u32))
     (write_at (unat i * 272) (to_memory e (next_req_id i c)) (cl_send_pool c))"
  have "Suc (Suc (unat i)) \<le> unat (cl_max_inflight c)" using False assms(2) by simp
  then have "Suc (Suc (unat i)) * 272 \<le> length (cl_send_pool c)"
    using assms(1) by (auto simp: client_wf_def dest: mult_le_mono1)
  then have two: "unat i * 272 + 544 \<le> length (cl_send_pool c)" by simp
  then have fit: "unat i * 272 + 16 + length req \<le> length (cl_send_pool c)" and len: "length ?m = length (cl_send_pool c)"
    using assms(4) by simp_all
  have "cl_send_pool (prepared e k n req i c) = write_at (unat i * 272 + 16) req ?m"
    by (simp add: prepared_def update_slot_def pool.put_message_def pool_patch_def)
  moreover have "bytes_at 0 (length req - 256) (pool_part 272 (Suc (unat i)) (write_at (unat i * 272 + 16) req ?m)) =
      bytes_at (unat i * 272 + 16 + 256) (length req - 256) (write_at (unat i * 272 + 16) req ?m)"
    using assms(4) by (simp add: pool_part_def bytes_at_bytes_at)
  moreover have "\<dots> = bytes_at 256 (length req - 256) req"
    using fit len assms(3) by (intro bytes_at_write_at_part) simp_all
  moreover have "bytes_at 256 (length req - 256) req = drop 256 req" by (simp add: bytes_at_def)
  ultimately show ?thesis
    using call_prepare_apply [OF assms(1,2) fit] False by simp
qed

theorem rpc_long_request_overflows_witness:
  "(\<exists>v c'. call_prepare Little 7 64 (replicate 264 9) 0 sample_client = (Inr v, c') \<and>
     bytes_at 0 8 (pool_part 272 1 (cl_send_pool c')) = replicate 8 9) \<and>
   fst (call_prepare Little 7 64 (replicate 264 9) 1 sample_client) = Inl (Undefined_behaviour ''write outside the buffer'')"
proof -
  let ?req = "replicate 264 9 :: bytes"
  have idx: "unat (0 :: u32) < unat (cl_max_inflight sample_client)" "unat (1 :: u32) < unat (cl_max_inflight sample_client)"
    and len: "256 < length ?req" "length ?req \<le> 528"
    by (simp_all add: sample_client_def)
  have max: "unat (cl_max_inflight sample_client) = 2" by (simp add: sample_client_def)
  show ?thesis
    using rpc_long_request_overflows [OF sample_client_wf idx(1) len, of Little 7 64]
      rpc_long_request_overflows [OF sample_client_wf idx(2) len, of Little 7 64] max
    by simp
qed

text \<open>
  What a receive worker does with the bytes the card put in its slice is decided by the message
  alone: a message without a whole header and one without payload fail an assertion, an unknown slot is ignored,
  an identifier that is not the slot's ends the process, and otherwise the payload, cut to the caller's
  buffer, is copied and the caller is to be resumed.
\<close>

theorem rpc_recv_decision:
  assumes "client_wf c" and "arrived w m c"
    and "length m < 16 \<or> 16 + unat (msg_len e m) \<le> length m"
    and "\<forall>s \<in> set (cl_slots c). unat (slot_buffer_size s) \<le> length (bufs (slot_buffer s))"
  shows "recv_worker_handle e w (of_nat (length m)) (c, bufs) = recv_decision e m (c, bufs)"
proof (cases "length m < 16")
  case True
  then show ?thesis by (rule recv_worker_short)
next
  case False
  then have len: "16 + unat (msg_len e m) \<le> length m" using assms(3) by simp
  show ?thesis
  proof (cases "unat (decode_slot_idx (msg_id e m)) < length (cl_slots c)")
    case True
    then show ?thesis using recv_worker_decides [OF assms(1,2) len _ refl] assms(4) by simp
  next
    case unknown: False
    then have max: "unat (cl_max_inflight c) \<le> unat (decode_slot_idx (msg_id e m))"
      using assms(1) by (simp add: client_wf_def)
    have long: "16 \<le> length m" "length m \<le> 4112" using len assms(2) by (simp_all add: arrived_def)
    have "header_req_id e (cl_recv_base c) (cl_recv_base c + w * kRecvBufferSize) (cl_recv_pool c) = Inr (msg_id e m)"
      using arrived_read [OF assms(1,2), of 0 8] long by (simp add: header_req_id_def msg_id_def)
    then show ?thesis
      using max long
      by (simp add: recv_worker_handle_def recv_decision_def se_defs Let_def word_less_nat_alt word_le_nat_alt
          sizeof_RpcHeader_def unat_of_nat)
  qed
qed

definition sample_inbox :: "bytes \<Rightarrow> rpc_client" where
  "sample_inbox m = sample_client\<lparr>cl_recv_pool := m @ replicate (8224 - length m) 0\<rparr>"

theorem rpc_recv_decision_witness:
  "recv_worker_handle Little 0 20 (sample_inbox (rpc_message Little 0 4 [0, 0, 0, 0] [1, 2, 3, 4]), \<lambda>k. []) =
     recv_decision Little (rpc_message Little 0 4 [0, 0, 0, 0] [1, 2, 3, 4])
       (sample_inbox (rpc_message Little 0 4 [0, 0, 0, 0] [1, 2, 3, 4]), \<lambda>k. [])"
proof -
  let ?m = "rpc_message Little 0 4 [0, 0, 0, 0] [1, 2, 3, 4]"
  have len: "length ?m = 20" by simp
  have "client_wf (sample_inbox ?m)" using sample_client_wf by (simp add: client_wf_def sample_inbox_def sample_client_def)
  moreover have "arrived 0 ?m (sample_inbox ?m)"
    by (simp add: arrived_def sample_inbox_def sample_client_def pool_part_def bytes_at_def)
  moreover have "length ?m < 16 \<or> 16 + unat (msg_len Little ?m) \<le> length ?m" by simp
  moreover have "\<forall>s \<in> set (cl_slots (sample_inbox ?m)). unat (slot_buffer_size s) \<le> length ([] :: bytes)"
    by (simp add: sample_inbox_def sample_client_def rpc_slot_init_def)
  ultimately show ?thesis using rpc_recv_decision [of "sample_inbox ?m" 0 ?m Little "\<lambda>k. []"] len by simp
qed

section \<open>Every operation keeps clients well formed\<close>

lemma mem_write_length: "mem_write base a bs mem = Inr mem' \<Longrightarrow> length mem' = length mem"
  by (auto simp: mem_write_def split: if_splits)

lemma write_header_length: "write_header e base a r n mem = Inr mem' \<Longrightarrow> length mem' = length mem"
  by (auto simp: write_header_def bindR_def mem_write_length split: sum.splits)

lemma client_wf_send_pool:
  assumes "client_wf c" and "\<And>mem mem'. f mem = Inr mem' \<Longrightarrow> length mem' = length mem"
  shows "client_wf (snd (on_send_pool f c))"
  using assms by (auto simp: on_send_pool_def client_wf_def split: sum.splits)

lemma keeps_bindS:
  assumes "I (snd (m s))" and "\<And>x s'. m s = (Inr x, s') \<Longrightarrow> I s' \<Longrightarrow> I (snd (f x s'))"
  shows "I (snd (bindS m f s))"
  using assms by (auto simp: bindS_def split: prod.splits sum.splits)

lemma client_wf_writes:
  "client_wf c \<Longrightarrow> client_wf (snd (on_send_pool (mem_write base a bs) c))"
  "client_wf c \<Longrightarrow> client_wf (snd (on_send_pool (write_header e base a r n) c))"
  by (rule client_wf_send_pool, assumption, rule mem_write_length write_header_length, assumption)+

lemma client_wf_seq [simp]: "client_wf (c\<lparr>cl_global_seq := x\<rparr>) = client_wf c"
  by (simp add: client_wf_def)

lemma call_prepare_wf: "client_wf c \<Longrightarrow> client_wf (snd (call_prepare e k n req i c))"
  unfolding call_prepare_def thenS_def
  by (auto simp: Let_def se_simps liftS_def intro!: keeps_bindS [where I = client_wf] client_wf_writes)

lemma recv_worker_wf: "client_wf c \<Longrightarrow> client_wf (fst (snd (recv_worker_handle e w nb (c, bufs))))"
  by (simp add: recv_worker_handle_def se_defs Let_def split: sum.splits)

lemma reg_mr_region:
  assumes "reg_mr V p base n fl w = (Inr m, w')"
  shows "\<exists>mr. lmr_mr m = Some mr \<and> mr_addr mr = base \<and> mr_length mr = n"
  using assms
  by (auto simp: reg_mr_def se_defs Let_def call_ptr_apply check_ptr_def local_mr_ctor_def split: prod.splits sum.splits if_splits)

lemma rpc_client_ctor_wf:
  assumes "rpc_client_ctor V p d sbase rbase w = (Inr (Some c), w')"
  shows "client_wf c \<and> cl_free_slots c = mset (map of_nat [0..<unat d]) \<and> cl_slots c = replicate (unat d) rpc_slot_init \<and>
     cl_max_inflight c = d"
proof -
  from assms obtain smr rmr w1 where d: "unat d < 2 ^ 32"
    and smr: "reg_mr V p sbase (d * kSendBufferSize) reg_mr_default_flags w = (Inr smr, w1)"
    and rmr: "reg_mr V p rbase (d * kRecvBufferSize) reg_mr_default_flags w1 = (Inr rmr, w')"
    and c: "c = \<lparr>cl_max_inflight = d,
         cl_send_base = sbase, cl_send_pool = replicate (unat (d * kSendBufferSize)) 0, cl_send_mr = smr,
         cl_recv_base = rbase, cl_recv_pool = replicate (unat (d * kRecvBufferSize)) 0, cl_recv_mr = rmr,
         cl_slots = replicate (unat d) rpc_slot_init, cl_free_slots = mset (map of_nat [0..<unat d]),
         cl_global_seq = 0\<rparr>"
    by (auto simp: rpc_client_ctor_def se_defs Let_def all_slots_def split: prod.splits sum.splits if_splits)
  have "unat (d * kSendBufferSize) = unat d * 272"
    using unat_scale [of d 272] d by (simp add: rpc_sizes)
  moreover have "unat (d * kRecvBufferSize) = unat d * 4112" by (rule unat_slot_offset) (rule d)
  ultimately show ?thesis
    using reg_mr_region [OF smr] reg_mr_region [OF rmr] d by (auto simp: c client_wf_def rpc_sizes)
qed

end
