(* ===== verification/Rpc_Steps.thy ===== *)
theory Rpc_Steps
  imports Rpc_Client
begin

text \<open>
  \<open>RpcClient\<close> at work: any number of callers inside \<open>call\<close>, one receive worker per slot, the messages on
  their way. Every step is a section of the code that no other thread can observe half done as long as a
  slot belongs to one call, or
  an event of the transport: the peer answers a request it got at most once, and a message
  that was sent arrives at most once, unchanged, at some posted receive, in any order or never.
  A send that fails says nothing about its message: with a reliable connection the error of a retry or of a
  flush can be reported for a message the peer has got, or is still to get. Both cases are steps, and
  \<open>rs_late\<close> remembers that the second has happened.
\<close>

section \<open>States\<close>

text \<open>
  A caller in \<open>call\<close> holds a slot from the \<open>try_dequeue\<close> that succeeded to the \<open>enqueue\<close>. The requests
  and messages are kept for the statement of the properties.
\<close>

datatype caller_pc =
    C_idle
  | C_acquired u32 bytes
  | C_prepared u32 bytes mr_view
  | C_sending u32 bytes bytes
  | C_awaiting u32 bytes bytes
  | C_resumed u32 size_t
  | C_failed u32 bytes

text \<open>A worker has posted a receive, got a message, spins on the waiter of a slot, or left its loop after a receive that failed.\<close>

datatype worker_pc = W_posted | W_got bytes | W_spinning u32 | W_ended

text \<open>
  \<open>rs_returned\<close> is history, the calls that returned after a response: caller, request, length returned, and the
  response buffer then. So is \<open>rs_failed\<close>, the calls that returned after a failed send, with the buffer before the call and then;
  \<open>rs_before\<close>, every caller's buffer when its call began; and \<open>rs_late\<close>. A caller's
  response buffer has the caller's number. \<open>rs_fault\<close> is set by every end of the process:
  a failed assertion, \<open>std::terminate\<close>, or the resumption of a coroutine that does not wait.
\<close>

record rpc_system =
  rs_client :: rpc_client
  rs_bufs :: "nat \<Rightarrow> bytes"
  rs_callers :: "nat \<Rightarrow> caller_pc"
  rs_workers :: "worker_pc list"
  rs_to_server :: "bytes multiset"
  rs_to_client :: "bytes multiset"
  rs_returned :: "(nat \<times> bytes \<times> size_t \<times> bytes) list"
  rs_failed :: "(nat \<times> bytes \<times> size_t \<times> bytes \<times> bytes) list"
  rs_before :: "nat \<Rightarrow> bytes"
  rs_late :: bool
  rs_fault :: bool

definition rs_start :: "rpc_system \<Rightarrow> bool" where
  "rs_start s \<longleftrightarrow> client_wf (rs_client s) \<and>
     cl_free_slots (rs_client s) = mset (map of_nat [0..<unat (cl_max_inflight (rs_client s))]) \<and>
     (\<forall>k. length (rs_bufs s k) < 2 ^ 64) \<and> rs_callers s = (\<lambda>k. C_idle) \<and>
     rs_workers s = replicate (unat (cl_max_inflight (rs_client s))) W_posted \<and>
     rs_to_server s = {#} \<and> rs_to_client s = {#} \<and> rs_returned s = [] \<and>
     rs_failed s = [] \<and> \<not> rs_late s \<and> \<not> rs_fault s"

text \<open>
  What the client relies on from its peer: the reply carries the identifier of the request, its own
  length, and a payload that \<open>ok\<close> allows for the payload of the request.
\<close>

definition answers :: "endian \<Rightarrow> (bytes \<Rightarrow> bytes \<Rightarrow> bool) \<Rightarrow> bytes \<Rightarrow> bytes \<Rightarrow> bool" where
  "answers e ok m r \<longleftrightarrow> (\<exists>pad d. length pad = 4 \<and> d \<noteq> [] \<and> length d \<le> 4096 \<and> ok (msg_payload m) d \<and>
     r = rpc_message e (msg_id e m) (of_nat (length d)) pad d)"

abbreviation set_caller :: "nat \<Rightarrow> caller_pc \<Rightarrow> rpc_system \<Rightarrow> rpc_system" where
  "set_caller k pc s \<equiv> s\<lparr>rs_callers := (rs_callers s)(k := pc)\<rparr>"

abbreviation set_worker :: "nat \<Rightarrow> worker_pc \<Rightarrow> rpc_system \<Rightarrow> rpc_system" where
  "set_worker w pc s \<equiv> s\<lparr>rs_workers := (rs_workers s)[w := pc]\<rparr>"

section \<open>Steps\<close>

inductive rpc_step :: "endian \<Rightarrow> (bytes \<Rightarrow> bytes \<Rightarrow> bool) \<Rightarrow> rpc_system \<Rightarrow> rpc_system \<Rightarrow> bool" for e ok where
  acquire: "rs_callers s k = C_idle \<Longrightarrow> length req \<le> 256 \<Longrightarrow> try_dequeue i (rs_client s) = Some c \<Longrightarrow>
     rpc_step e ok s (set_caller k (C_acquired i req)
       (s\<lparr>rs_client := c, rs_before := (rs_before s)(k := rs_bufs s k)\<rparr>))"
| prepare: "rs_callers s k = C_acquired i req \<Longrightarrow>
     call_prepare e k (of_nat (length (rs_bufs s k))) req i (rs_client s) = (Inr v, c) \<Longrightarrow>
     rpc_step e ok s (set_caller k (C_prepared i req v) (s\<lparr>rs_client := c\<rparr>))"
| prepare_fault: "rs_callers s k = C_acquired i req \<Longrightarrow>
     call_prepare e k (of_nat (length (rs_bufs s k))) req i (rs_client s) = (Inl ex, c) \<Longrightarrow>
     rpc_step e ok s (s\<lparr>rs_fault := True\<rparr>)"
| post: "rs_callers s k = C_prepared i req v \<Longrightarrow>
     m = view_bytes (cl_send_base (rs_client s)) (cl_send_pool (rs_client s)) v \<Longrightarrow>
     rpc_step e ok s (set_caller k (C_sending i req m) (s\<lparr>rs_to_server := add_mset m (rs_to_server s)\<rparr>))"
| post_fail: "rs_callers s k = C_prepared i req v \<Longrightarrow>
     rpc_step e ok s (set_caller k (C_failed i req) s)"
| send_lost: "rs_callers s k = C_sending i req m \<Longrightarrow> m \<in># rs_to_server s \<Longrightarrow>
     rpc_step e ok s (set_caller k (C_failed i req) (s\<lparr>rs_to_server := rs_to_server s - {#m#}\<rparr>))"
| send_late: "rs_callers s k = C_sending i req m \<Longrightarrow>
     rpc_step e ok s (set_caller k (C_failed i req) (s\<lparr>rs_late := True\<rparr>))"
| send_done: "rs_callers s k = C_sending i req m \<Longrightarrow>
     rpc_step e ok s (set_caller k (C_awaiting i req m)
       (s\<lparr>rs_client := response_await_suspend i k (rs_client s)\<rparr>))"
| answer: "m \<in># rs_to_server s \<Longrightarrow> answers e ok m r \<Longrightarrow>
     rpc_step e ok s (s\<lparr>rs_to_server := rs_to_server s - {#m#}, rs_to_client := add_mset r (rs_to_client s)\<rparr>)"
| deliver: "r \<in># rs_to_client s \<Longrightarrow> w < length (rs_workers s) \<Longrightarrow> rs_workers s ! w = W_posted \<Longrightarrow>
     recv_view (of_nat w) (rs_client s) = Inr v \<Longrightarrow> length r \<le> unat (view_length v) \<Longrightarrow>
     rpc_step e ok s (set_worker w (W_got r) (s\<lparr>rs_to_client := rs_to_client s - {#r#},
       rs_client := (rs_client s)\<lparr>cl_recv_pool := write_at (unat (view_addr v - cl_recv_base (rs_client s))) r
         (cl_recv_pool (rs_client s))\<rparr>\<rparr>))"
| handle: "w < length (rs_workers s) \<Longrightarrow> rs_workers s ! w = W_got m \<Longrightarrow>
     recv_worker_handle e (of_nat w) (of_nat (length m)) (rs_client s, rs_bufs s) = (Inr (Recv_resume i), (c, bufs)) \<Longrightarrow>
     rpc_step e ok s (set_worker w (W_spinning i) (s\<lparr>rs_client := c, rs_bufs := bufs\<rparr>))"
| handle_ignore: "w < length (rs_workers s) \<Longrightarrow> rs_workers s ! w = W_got m \<Longrightarrow>
     recv_worker_handle e (of_nat w) (of_nat (length m)) (rs_client s, rs_bufs s) = (Inr Recv_continue, (c, bufs)) \<Longrightarrow>
     rpc_step e ok s (set_worker w W_posted (s\<lparr>rs_client := c, rs_bufs := bufs\<rparr>))"
| handle_fault: "w < length (rs_workers s) \<Longrightarrow> rs_workers s ! w = W_got m \<Longrightarrow>
     recv_worker_handle e (of_nat w) (of_nat (length m)) (rs_client s, rs_bufs s) = (Inl ex, st) \<Longrightarrow>
     rpc_step e ok s (s\<lparr>rs_fault := True\<rparr>)"
| resume: "w < length (rs_workers s) \<Longrightarrow> rs_workers s ! w = W_spinning i \<Longrightarrow>
     slot_waiter (cl_slots (rs_client s) ! unat i) = Some k \<Longrightarrow> rs_callers s k = C_awaiting j req m \<Longrightarrow>
     n = response_await_resume j (rs_client s) \<Longrightarrow>
     rpc_step e ok s (set_worker w W_posted (set_caller k (C_resumed j n)
       (s\<lparr>rs_returned := rs_returned s @ [(k, req, n, rs_bufs s k)]\<rparr>)))"
| resume_fault: "w < length (rs_workers s) \<Longrightarrow> rs_workers s ! w = W_spinning i \<Longrightarrow>
     slot_waiter (cl_slots (rs_client s) ! unat i) = Some k \<Longrightarrow> (\<forall>j req m. rs_callers s k \<noteq> C_awaiting j req m) \<Longrightarrow>
     rpc_step e ok s (s\<lparr>rs_fault := True\<rparr>)"
| release: "rs_callers s k = C_resumed i n \<Longrightarrow>
     rpc_step e ok s (set_caller k C_idle (s\<lparr>rs_client := call_release i (rs_client s)\<rparr>))"
| release_failed: "rs_callers s k = C_failed i req \<Longrightarrow>
     rpc_step e ok s (set_caller k C_idle (s\<lparr>rs_client := call_release i (rs_client s),
       rs_failed := rs_failed s @ [(k, req, 0, rs_before s k, rs_bufs s k)]\<rparr>))"
| recv_fail: "w < length (rs_workers s) \<Longrightarrow> rs_workers s ! w = W_posted \<Longrightarrow>
     rpc_step e ok s (set_worker w W_ended s)"

section \<open>The invariant\<close>

fun held :: "caller_pc \<Rightarrow> u32 option" where
  "held C_idle = None"
| "held (C_acquired i _) = Some i"
| "held (C_prepared i _ _) = Some i"
| "held (C_sending i _ _) = Some i"
| "held (C_awaiting i _ _) = Some i"
| "held (C_resumed i _) = Some i"
| "held (C_failed i _) = Some i"

text \<open>A call between its post and its response: slot, request, message.\<close>

fun flying :: "caller_pc \<Rightarrow> (u32 \<times> bytes \<times> bytes) option" where
  "flying (C_sending i req m) = Some (i, req, m)"
| "flying (C_awaiting i req m) = Some (i, req, m)"
| "flying _ = None"

lemma flying_held: "flying pc = Some (i, req, m) \<Longrightarrow> held pc = Some i"
  by (cases pc) auto

definition slots_ok :: "rpc_client \<Rightarrow> (nat \<Rightarrow> caller_pc) \<Rightarrow> bool" where
  "slots_ok c pcs \<longleftrightarrow>
     (\<forall>i. count (cl_free_slots c) i \<le> 1) \<and>
     (\<forall>k i. held (pcs k) = Some i \<longrightarrow> unat i < unat (cl_max_inflight c) \<and> i \<notin># cl_free_slots c) \<and>
     (\<forall>k k' i. held (pcs k) = Some i \<longrightarrow> held (pcs k') = Some i \<longrightarrow> k = k') \<and>
     (\<forall>i. unat i < unat (cl_max_inflight c) \<longrightarrow> i \<in># cl_free_slots c \<or> (\<exists>k. held (pcs k) = Some i)) \<and>
     (\<forall>i. i \<in># cl_free_slots c \<longrightarrow> unat i < unat (cl_max_inflight c))"

text \<open>The slot of a call in flight describes that call and its caller.\<close>

definition slot_of_call :: "rpc_slot \<Rightarrow> (nat \<Rightarrow> bytes) \<Rightarrow> nat \<Rightarrow> u64 \<Rightarrow> bool" where
  "slot_of_call sl bufs k r \<longleftrightarrow> slot_expected_req_id sl = r \<and> slot_buffer sl = k \<and>
     slot_buffer_size sl = of_nat (length (bufs k))"

definition request_of :: "endian \<Rightarrow> u32 \<Rightarrow> bytes \<Rightarrow> bytes \<Rightarrow> bool" where
  "request_of e i req m \<longleftrightarrow> (\<exists>r pad. length pad = 4 \<and> decode_slot_idx r = i \<and>
     m = rpc_message e r (of_nat (length req)) pad req)"

fun caller_ok :: "endian \<Rightarrow> rpc_client \<Rightarrow> (nat \<Rightarrow> bytes) \<Rightarrow> nat \<Rightarrow> caller_pc \<Rightarrow> bool" where
  "caller_ok e c bufs k (C_acquired i req) = (length req \<le> 256)"
| "caller_ok e c bufs k (C_prepared i req v) = (length req \<le> 256 \<and> v = message_view (length req) i c \<and>
     (\<exists>m. bytes_at 0 (16 + length req) (pool_part 272 (unat i) (cl_send_pool c)) = m \<and> request_of e i req m \<and>
        slot_of_call (cl_slots c ! unat i) bufs k (msg_id e m) \<and> slot_waiter (cl_slots c ! unat i) = None))"
| "caller_ok e c bufs k (C_sending i req m) = (request_of e i req m \<and>
     slot_of_call (cl_slots c ! unat i) bufs k (msg_id e m) \<and> slot_waiter (cl_slots c ! unat i) = None)"
| "caller_ok e c bufs k (C_awaiting i req m) = (request_of e i req m \<and>
     slot_of_call (cl_slots c ! unat i) bufs k (msg_id e m) \<and> slot_waiter (cl_slots c ! unat i) = Some k)"
| "caller_ok e c bufs k _ = True"

text \<open>The slots for which something is on its way; no slot twice.\<close>

fun worker_slots :: "endian \<Rightarrow> worker_pc \<Rightarrow> u32 list" where
  "worker_slots e W_posted = []"
| "worker_slots e (W_got m) = [decode_slot_idx (msg_id e m)]"
| "worker_slots e (W_spinning i) = [i]"
| "worker_slots e W_ended = []"

definition busy :: "endian \<Rightarrow> rpc_system \<Rightarrow> u32 multiset" where
  "busy e s = image_mset (\<lambda>m. decode_slot_idx (msg_id e m)) (rs_to_server s + rs_to_client s) +
     mset (concat (map (worker_slots e) (rs_workers s)))"

definition awaited :: "endian \<Rightarrow> (bytes \<Rightarrow> bytes \<Rightarrow> bool) \<Rightarrow> (nat \<Rightarrow> caller_pc) \<Rightarrow> bytes \<Rightarrow> bool" where
  "awaited e ok pcs r \<longleftrightarrow> (\<exists>k i req m. flying (pcs k) = Some (i, req, m) \<and> answers e ok m r)"

text \<open>What a caller gets: a prefix of an answer to its request, cut to its buffer.\<close>

definition result_ok :: "(bytes \<Rightarrow> bytes \<Rightarrow> bool) \<Rightarrow> bytes \<Rightarrow> size_t \<Rightarrow> bytes \<Rightarrow> bool" where
  "result_ok ok req n buf \<longleftrightarrow> (\<exists>d. ok req d \<and> d \<noteq> [] \<and> unat n = min (length d) (length buf) \<and>
     take (unat n) buf = take (unat n) d)"

fun worker_ok :: "endian \<Rightarrow> (bytes \<Rightarrow> bytes \<Rightarrow> bool) \<Rightarrow> rpc_system \<Rightarrow> nat \<Rightarrow> worker_pc \<Rightarrow> bool" where
  "worker_ok e ok s w W_posted = True"
| "worker_ok e ok s w (W_got r) = (awaited e ok (rs_callers s) r \<and> arrived (of_nat w) r (rs_client s))"
| "worker_ok e ok s w (W_spinning i) = (\<exists>k req m. flying (rs_callers s k) = Some (i, req, m) \<and>
     result_ok ok req (slot_actual_len (cl_slots (rs_client s) ! unat i)) (rs_bufs s k))"
| "worker_ok e ok s w W_ended = True"

definition tokens_ok :: "endian \<Rightarrow> (bytes \<Rightarrow> bytes \<Rightarrow> bool) \<Rightarrow> rpc_system \<Rightarrow> bool" where
  "tokens_ok e ok s \<longleftrightarrow>
     (\<forall>m. m \<in># rs_to_server s \<longrightarrow> (\<exists>k i req. flying (rs_callers s k) = Some (i, req, m))) \<and>
     (\<forall>r. r \<in># rs_to_client s \<longrightarrow> awaited e ok (rs_callers s) r) \<and>
     (\<forall>w < length (rs_workers s). worker_ok e ok s w (rs_workers s ! w))"

definition callers_ok :: "endian \<Rightarrow> rpc_system \<Rightarrow> bool" where
  "callers_ok e s \<longleftrightarrow> (\<forall>k. caller_ok e (rs_client s) (rs_bufs s) k (rs_callers s k))"

definition rpc_inv :: "endian \<Rightarrow> (bytes \<Rightarrow> bytes \<Rightarrow> bool) \<Rightarrow> rpc_system \<Rightarrow> bool" where
  "rpc_inv e ok s \<longleftrightarrow> client_wf (rs_client s) \<and>
     length (rs_workers s) = unat (cl_max_inflight (rs_client s)) \<and>
     (\<forall>k. length (rs_bufs s k) < 2 ^ 64) \<and>
     slots_ok (rs_client s) (rs_callers s) \<and> callers_ok e s \<and>
     (\<forall>i. count (busy e s) i \<le> 1) \<and> tokens_ok e ok s \<and>
     (\<forall>(k, req, n, buf) \<in> set (rs_returned s). result_ok ok req n buf) \<and>
     \<not> rs_fault s"

section \<open>Tokens\<close>

lemma worker_count:
  "w < length ws \<Longrightarrow> count (mset (concat (map f (ws[w := x])))) i + count (mset (f (ws ! w))) i =
     count (mset (concat (map f ws))) i + count (mset (f x)) i"
proof (induction ws arbitrary: w)
  case (Cons a ws)
  then show ?case by (cases w) (simp_all add: Cons.IH algebra_simps)
qed simp

lemma worker_slot_busy:
  assumes "w < length (rs_workers s)" and "i \<in> set (worker_slots e (rs_workers s ! w))"
  shows "i \<in># busy e s"
proof -
  have "rs_workers s ! w \<in> set (rs_workers s)" using assms(1) by simp
  with assms(2) have "i \<in> set (concat (map (worker_slots e) (rs_workers s)))"
    unfolding set_concat set_map by blast
  then show ?thesis unfolding busy_def by (simp only: union_iff set_mset_mset) blast
qed

lemma server_slot_busy: "m \<in># rs_to_server s \<Longrightarrow> decode_slot_idx (msg_id e m) \<in># busy e s"
  by (simp add: busy_def)

lemma client_slot_busy: "m \<in># rs_to_client s \<Longrightarrow> decode_slot_idx (msg_id e m) \<in># busy e s"
  by (simp add: busy_def)

lemma request_of_slot: "request_of e i req m \<Longrightarrow> decode_slot_idx (msg_id e m) = i"
  by (auto simp: request_of_def)

lemma request_of_payload: "request_of e i req m \<Longrightarrow> msg_payload m = req"
  by (auto simp: request_of_def)

lemma answers_id: "answers e ok m r \<Longrightarrow> msg_id e r = msg_id e m"
  by (auto simp: answers_def)

lemma flying_ok:
  assumes "callers_ok e s" and "flying (rs_callers s k) = Some (i, req, m)"
  shows "request_of e i req m \<and> slot_of_call (cl_slots (rs_client s) ! unat i) (rs_bufs s) k (msg_id e m) \<and>
     decode_slot_idx (msg_id e m) = i \<and> held (rs_callers s k) = Some i"
proof -
  have "caller_ok e (rs_client s) (rs_bufs s) k (rs_callers s k)" using assms(1) by (simp add: callers_ok_def)
  with assms(2) show ?thesis by (cases "rs_callers s k") (auto simp: request_of_slot)
qed

lemma flying_slot_inject:
  assumes "slots_ok (rs_client s) (rs_callers s)"
    and "flying (rs_callers s k) = Some (i, req, m)" and "held (rs_callers s k') = Some i"
  shows "k' = k"
proof -
  have "\<forall>k k' i. held (rs_callers s k) = Some i \<longrightarrow> held (rs_callers s k') = Some i \<longrightarrow> k = k'"
    using assms(1) by (simp add: slots_ok_def)
  with flying_held [OF assms(2)] assms(3) show ?thesis by blast
qed

text \<open>
  A step that only takes tokens away, or leaves them alone, keeps them in order if the calls that
  are still waited for stay as they are.
\<close>

lemma tokens_frame:
  assumes "callers_ok e s" and "tokens_ok e ok s"
    and sub: "rs_to_server t \<subseteq># rs_to_server s" "rs_to_client t \<subseteq># rs_to_client s"
    and len: "length (rs_workers t) = length (rs_workers s)"
    and wk: "\<And>w. w < length (rs_workers s) \<Longrightarrow> rs_workers t ! w = rs_workers s ! w \<or> rs_workers t ! w \<in> {W_posted, W_ended}"
    and arr: "\<And>w r. w < length (rs_workers s) \<Longrightarrow> rs_workers t ! w = W_got r \<Longrightarrow> arrived (of_nat w) r (rs_client s) \<Longrightarrow> arrived (of_nat w) r (rs_client t)"
    and fly: "\<And>k i req m. flying (rs_callers s k) = Some (i, req, m) \<Longrightarrow> i \<in># busy e t \<Longrightarrow>
        flying (rs_callers t k) = Some (i, req, m) \<and> rs_bufs t k = rs_bufs s k \<and>
        slot_actual_len (cl_slots (rs_client t) ! unat i) = slot_actual_len (cl_slots (rs_client s) ! unat i)"
  shows "tokens_ok e ok t"
proof -
  have aw: "awaited e ok (rs_callers t) r"
    if "awaited e ok (rs_callers s) r" "decode_slot_idx (msg_id e r) \<in># busy e t" for r
  proof -
    from that(1) obtain k i req m where f: "flying (rs_callers s k) = Some (i, req, m)" and a: "answers e ok m r"
      unfolding awaited_def by blast
    from flying_ok [OF assms(1) f] answers_id [OF a] that(2) have "i \<in># busy e t" by simp
    from fly [OF f this] a show ?thesis unfolding awaited_def by blast
  qed
  have "\<exists>k i req. flying (rs_callers t k) = Some (i, req, m)" if m: "m \<in># rs_to_server t" for m
  proof -
    from m sub(1) have "m \<in># rs_to_server s" by (rule mset_subset_eqD [rotated])
    with assms(2) obtain k i req where f: "flying (rs_callers s k) = Some (i, req, m)"
      unfolding tokens_ok_def by blast
    from flying_ok [OF assms(1) f] server_slot_busy [OF m, of e] have "i \<in># busy e t" by simp
    from fly [OF f this] show ?thesis by blast
  qed
  moreover have "awaited e ok (rs_callers t) r" if r: "r \<in># rs_to_client t" for r
  proof -
    from r sub(2) have "r \<in># rs_to_client s" by (rule mset_subset_eqD [rotated])
    with assms(2) have "awaited e ok (rs_callers s) r" unfolding tokens_ok_def by blast
    then show ?thesis by (rule aw) (rule client_slot_busy [OF r])
  qed
  moreover have "worker_ok e ok t w (rs_workers t ! w)" if w: "w < length (rs_workers t)" for w
  proof (cases "rs_workers t ! w")
    case W_posted
    then show ?thesis by simp
  next
    case (W_got r)
    then have "rs_workers s ! w = W_got r" using wk [of w] w len by auto
    then have "worker_ok e ok s w (W_got r)" using assms(2) w len unfolding tokens_ok_def by metis
    moreover have "decode_slot_idx (msg_id e r) \<in># busy e t"
      using worker_slot_busy [OF w] W_got by simp
    ultimately show ?thesis using W_got aw arr w len by simp
  next
    case (W_spinning i)
    then have "rs_workers s ! w = W_spinning i" using wk [of w] w len by auto
    then have "worker_ok e ok s w (W_spinning i)" using assms(2) w len unfolding tokens_ok_def by metis
    then obtain k req m where f: "flying (rs_callers s k) = Some (i, req, m)"
      and r: "result_ok ok req (slot_actual_len (cl_slots (rs_client s) ! unat i)) (rs_bufs s k)" by auto
    have "i \<in># busy e t" using worker_slot_busy [OF w] W_spinning by simp
    from fly [OF f this] r have "flying (rs_callers t k) = Some (i, req, m)"
      and "result_ok ok req (slot_actual_len (cl_slots (rs_client t) ! unat i)) (rs_bufs t k)" by simp_all
    then show ?thesis unfolding W_spinning worker_ok.simps by blast
  next
    case W_ended
    then show ?thesis by simp
  qed
  ultimately show ?thesis unfolding tokens_ok_def by blast
qed

section \<open>Slots and callers\<close>

lemma slots_same:
  assumes "slots_ok c pcs" and "cl_free_slots c' = cl_free_slots c" and "cl_max_inflight c' = cl_max_inflight c"
    and "\<And>k. held (pcs' k) = held (pcs k)"
  shows "slots_ok c' pcs'"
  using assms(1) unfolding slots_ok_def assms(2-4) .

lemma slots_okD:
  assumes "slots_ok c pcs"
  shows "count (cl_free_slots c) i \<le> 1"
    and "held (pcs k) = Some i \<Longrightarrow> unat i < unat (cl_max_inflight c)"
    and "held (pcs k) = Some i \<Longrightarrow> i \<notin># cl_free_slots c"
    and "held (pcs k) = Some i \<Longrightarrow> held (pcs k') = Some i \<Longrightarrow> k = k'"
    and "unat i < unat (cl_max_inflight c) \<Longrightarrow> i \<in># cl_free_slots c \<or> (\<exists>k. held (pcs k) = Some i)"
    and "i \<in># cl_free_slots c \<Longrightarrow> unat i < unat (cl_max_inflight c)"
  using assms unfolding slots_ok_def by blast+

lemma in_diff_single: "count M i \<le> 1 \<Longrightarrow> j \<in># M - {#i#} \<longleftrightarrow> j \<in># M \<and> j \<noteq> i"
  by (cases "j = i") (simp_all add: in_diff_count)

lemma slots_okI:
  assumes "cl_free_slots c = F" and "cl_max_inflight c = N"
    and "\<And>i. count F i \<le> 1"
    and "\<And>k i. held (pcs k) = Some i \<Longrightarrow> unat i < unat N \<and> i \<notin># F"
    and "\<And>k k' i. held (pcs k) = Some i \<Longrightarrow> held (pcs k') = Some i \<Longrightarrow> k = k'"
    and "\<And>i. unat i < unat N \<Longrightarrow> i \<notin># F \<Longrightarrow> \<exists>k. held (pcs k) = Some i"
    and "\<And>i. i \<in># F \<Longrightarrow> unat i < unat N"
  shows "slots_ok c pcs"
  unfolding slots_ok_def assms(1,2) using assms(3-) by blast

lemma slots_acquire:
  assumes ok: "slots_ok c pcs" and k: "held (pcs k) = None" and i: "i \<in># cl_free_slots c" and pc: "held pc = Some i"
  shows "slots_ok (c\<lparr>cl_free_slots := cl_free_slots c - {#i#}\<rparr>) (pcs(k := pc))"
proof -
  have mem: "j \<in># cl_free_slots c - {#i#} \<longleftrightarrow> j \<in># cl_free_slots c \<and> j \<noteq> i" for j
    by (rule in_diff_single) (rule slots_okD(1) [OF ok])
  have not_i: "held (pcs k') \<noteq> Some i" for k' using slots_okD(3) [OF ok, of k' i] i by blast
  show ?thesis
  proof (rule slots_okI [where F = "cl_free_slots c - {#i#}" and N = "cl_max_inflight c"], unfold mem)
    show "cl_free_slots (c\<lparr>cl_free_slots := cl_free_slots c - {#i#}\<rparr>) = cl_free_slots c - {#i#}"
      and "cl_max_inflight (c\<lparr>cl_free_slots := cl_free_slots c - {#i#}\<rparr>) = cl_max_inflight c" by simp_all
    show "count (cl_free_slots c - {#i#}) j \<le> 1" for j using slots_okD(1) [OF ok, of j] by simp
    show "unat j < unat (cl_max_inflight c) \<and> \<not> (j \<in># cl_free_slots c \<and> j \<noteq> i)" if "held ((pcs(k := pc)) k') = Some j" for k' j
      using that slots_okD(2,3) [OF ok, of k' j] slots_okD(6) [OF ok i] pc by (cases "k' = k") auto
    show "k1 = k2" if "held ((pcs(k := pc)) k1) = Some j" "held ((pcs(k := pc)) k2) = Some j" for k1 k2 j
      using that slots_okD(4) [OF ok, of k1 j k2] not_i pc by (cases "k1 = k"; cases "k2 = k") auto
    show "\<exists>k'. held ((pcs(k := pc)) k') = Some j"
      if "unat j < unat (cl_max_inflight c)" "\<not> (j \<in># cl_free_slots c \<and> j \<noteq> i)" for j
    proof (cases "j = i")
      case True
      then show ?thesis using pc by (intro exI [of _ k]) simp
    next
      case False
      with slots_okD(5) [OF ok that(1)] that(2) obtain k' where "held (pcs k') = Some j" by blast
      with k show ?thesis by (intro exI [of _ k']) auto
    qed
    show "unat j < unat (cl_max_inflight c)" if "j \<in># cl_free_slots c \<and> j \<noteq> i" for j
      using that slots_okD(6) [OF ok, of j] by blast
  qed
qed

lemma slots_release:
  assumes ok: "slots_ok c pcs" and k: "held (pcs k) = Some i" and pc: "held pc = None"
  shows "slots_ok (call_release i c) (pcs(k := pc))"
proof -
  note i = slots_okD(3,2) [OF ok k]
  have mem: "j \<in># add_mset i (cl_free_slots c) \<longleftrightarrow> j = i \<or> j \<in># cl_free_slots c" for j by simp
  show ?thesis
  proof (rule slots_okI [where F = "add_mset i (cl_free_slots c)" and N = "cl_max_inflight c"], unfold mem)
    show "cl_free_slots (call_release i c) = add_mset i (cl_free_slots c)" and "cl_max_inflight (call_release i c) = cl_max_inflight c"
      by (simp_all add: call_release_def)
    show "count (add_mset i (cl_free_slots c)) j \<le> 1" for j
      using slots_okD(1) [OF ok, of j] i(1) by (cases "i = j") (simp_all add: not_in_iff)
    show "unat j < unat (cl_max_inflight c) \<and> \<not> (j = i \<or> j \<in># cl_free_slots c)" if "held ((pcs(k := pc)) k') = Some j" for k' j
      using that slots_okD(2,3) [OF ok, of k' j] slots_okD(4) [OF ok, of k' j k] k pc by (cases "k' = k") auto
    show "k1 = k2" if "held ((pcs(k := pc)) k1) = Some j" "held ((pcs(k := pc)) k2) = Some j" for k1 k2 j
      using that slots_okD(4) [OF ok, of k1 j k2] pc by (cases "k1 = k"; cases "k2 = k") auto
    show "\<exists>k'. held ((pcs(k := pc)) k') = Some j"
      if "unat j < unat (cl_max_inflight c)" "\<not> (j = i \<or> j \<in># cl_free_slots c)" for j
    proof -
      from slots_okD(5) [OF ok that(1)] that(2) obtain k' where "held (pcs k') = Some j" by blast
      with k that(2) show ?thesis by (intro exI [of _ k']) auto
    qed
    show "unat j < unat (cl_max_inflight c)" if "j = i \<or> j \<in># cl_free_slots c" for j
      using that slots_okD(6) [OF ok, of j] i(2) by blast
  qed
qed

lemma caller_frame:
  assumes "caller_ok e c bufs k pc" and "length (bufs' k) = length (bufs k)"
    and "cl_send_base c' = cl_send_base c" and "cl_send_mr c' = cl_send_mr c"
    and "\<And>i. held pc = Some i \<Longrightarrow> pool_part 272 (unat i) (cl_send_pool c') = pool_part 272 (unat i) (cl_send_pool c)"
    and "\<And>i. held pc = Some i \<Longrightarrow> \<exists>n. cl_slots c' ! unat i = (cl_slots c ! unat i)\<lparr>slot_actual_len := n\<rparr>"
  shows "caller_ok e c' bufs' k pc"
proof (cases "held pc")
  case None
  then show ?thesis by (cases pc) auto
next
  case (Some i)
  from assms(6) [OF Some] obtain n where "cl_slots c' ! unat i = (cl_slots c ! unat i)\<lparr>slot_actual_len := n\<rparr>" by blast
  with Some assms(1-4) assms(5) [OF Some] show ?thesis
    by (cases pc) (auto simp: slot_of_call_def message_view_def)
qed

section \<open>The invariant holds throughout\<close>

lemma slot_other: "unat i \<noteq> unat j \<Longrightarrow> cl_slots (update_slot i f c) ! unat j = cl_slots c ! unat j"
  by (simp add: update_slot_def)

lemma slot_same: "unat i < length (cl_slots c) \<Longrightarrow> cl_slots (update_slot i f c) ! unat i = f (cl_slots c ! unat i)"
  by (simp add: update_slot_def)

lemma update_slot_simps [simp]:
  "cl_free_slots (update_slot i f c) = cl_free_slots c" "cl_max_inflight (update_slot i f c) = cl_max_inflight c"
  "cl_send_pool (update_slot i f c) = cl_send_pool c" "cl_recv_pool (update_slot i f c) = cl_recv_pool c"
  "cl_send_base (update_slot i f c) = cl_send_base c" "cl_send_mr (update_slot i f c) = cl_send_mr c"
  "length (cl_slots (update_slot i f c)) = length (cl_slots c)" "cl_global_seq (update_slot i f c) = cl_global_seq c"
  by (simp_all add: update_slot_def)

lemma slot_kept [simp]: "\<exists>n. sl = sl\<lparr>slot_actual_len := n\<rparr>"
  by (rule exI [of _ "slot_actual_len sl"]) simp

lemma wf_slots: "client_wf c \<Longrightarrow> length (cl_slots c) = unat (cl_max_inflight c)"
  by (simp add: client_wf_def)

lemma in_worker: "pc \<in> set ws \<Longrightarrow> \<exists>w < length ws. ws ! w = pc"
  by (auto simp: in_set_conv_nth)

lemma busy_owner:
  assumes "callers_ok e s" and "tokens_ok e ok s" and "i \<in># busy e s"
  shows "\<exists>k req m. flying (rs_callers s k) = Some (i, req, m)"
proof -
  have own: "\<exists>k req m. flying (rs_callers s k) = Some (decode_slot_idx (msg_id e r), req, m)" if "awaited e ok (rs_callers s) r" for r
  proof -
    from that obtain k i' req m where f: "flying (rs_callers s k) = Some (i', req, m)" and a: "answers e ok m r"
      unfolding awaited_def by blast
    from flying_ok [OF assms(1) f] answers_id [OF a] f show ?thesis by auto
  qed
  consider (srv) m where "m \<in># rs_to_server s" "i = decode_slot_idx (msg_id e m)"
    | (cli) r where "r \<in># rs_to_client s" "i = decode_slot_idx (msg_id e r)"
    | (wrk) w where "w < length (rs_workers s)" "i \<in> set (worker_slots e (rs_workers s ! w))"
    using assms(3) unfolding busy_def by (auto dest: in_worker)
  then show ?thesis
  proof cases
    case srv
    then obtain k i' req where f: "flying (rs_callers s k) = Some (i', req, m)"
      using assms(2) unfolding tokens_ok_def by blast
    with flying_ok [OF assms(1) f] srv show ?thesis by auto
  next
    case cli
    then show ?thesis using own assms(2) unfolding tokens_ok_def by blast
  next
    case wrk
    then have "worker_ok e ok s w (rs_workers s ! w)" using assms(2) unfolding tokens_ok_def by blast
    with wrk(2) own show ?thesis by (cases "rs_workers s ! w") auto
  qed
qed

lemma callers_set:
  assumes "callers_ok e s" and "slots_ok (rs_client s) (rs_callers s)" and "held (rs_callers s k) = Some i"
    and "caller_ok e c bufs k pc"
    and "cl_send_base c = cl_send_base (rs_client s)" and "cl_send_mr c = cl_send_mr (rs_client s)"
    and "\<And>k. length (bufs k) = length (rs_bufs s k)"
    and "\<And>j. unat j < unat (cl_max_inflight (rs_client s)) \<Longrightarrow> j \<noteq> i \<Longrightarrow>
        pool_part 272 (unat j) (cl_send_pool c) = pool_part 272 (unat j) (cl_send_pool (rs_client s)) \<and>
        (\<exists>n. cl_slots c ! unat j = (cl_slots (rs_client s) ! unat j)\<lparr>slot_actual_len := n\<rparr>)"
  shows "\<forall>k'. caller_ok e c bufs k' (((rs_callers s)(k := pc)) k')"
proof
  fix k'
  show "caller_ok e c bufs k' (((rs_callers s)(k := pc)) k')"
  proof (cases "k' = k")
    case True
    then show ?thesis using assms(4) by simp
  next
    case False
    have "caller_ok e (rs_client s) (rs_bufs s) k' (rs_callers s k')" using assms(1) by (simp add: callers_ok_def)
    then have "caller_ok e c bufs k' (rs_callers s k')"
    proof (rule caller_frame)
      fix j assume j: "held (rs_callers s k') = Some j"
      then have "j \<noteq> i" using slots_okD(4) [OF assms(2) j] assms(3) False by blast
      moreover have "unat j < unat (cl_max_inflight (rs_client s))" by (rule slots_okD(2) [OF assms(2) j])
      ultimately show "pool_part 272 (unat j) (cl_send_pool c) = pool_part 272 (unat j) (cl_send_pool (rs_client s))"
        and "\<exists>n. cl_slots c ! unat j = (cl_slots (rs_client s) ! unat j)\<lparr>slot_actual_len := n\<rparr>"
        using assms(8) by blast+
    qed (use assms(5-7) in auto)
    then show ?thesis using False by simp
  qed
qed

lemma rpc_invE:
  assumes "rpc_inv e ok s"
  obtains "client_wf (rs_client s)" and "length (rs_workers s) = unat (cl_max_inflight (rs_client s))"
    and "\<And>k. length (rs_bufs s k) < 2 ^ 64" and "slots_ok (rs_client s) (rs_callers s)" and "callers_ok e s"
    and "\<And>i. count (busy e s) i \<le> 1" and "tokens_ok e ok s"
    and "\<forall>(k, req, n, buf) \<in> set (rs_returned s). result_ok ok req n buf" and "\<not> rs_fault s"
  using assms unfolding rpc_inv_def by blast

lemma rpc_invI:
  assumes "client_wf (rs_client s)" and "length (rs_workers s) = unat (cl_max_inflight (rs_client s))"
    and "\<And>k. length (rs_bufs s k) < 2 ^ 64" and "slots_ok (rs_client s) (rs_callers s)" and "callers_ok e s"
    and "\<And>i. count (busy e s) i \<le> 1" and "tokens_ok e ok s"
    and "\<forall>(k, req, n, buf) \<in> set (rs_returned s). result_ok ok req n buf" and "\<not> rs_fault s"
  shows "rpc_inv e ok s"
  using assms unfolding rpc_inv_def by blast

text \<open>A step of one caller that no message is on its way for: only its own slot may change.\<close>

lemma inv_caller_step:
  assumes inv: "rpc_inv e ok s" and h: "held (rs_callers s k) = Some i" and f: "flying (rs_callers s k) = None \<or> flying pc = flying (rs_callers s k)"
    and h': "held pc = Some i" and wf: "client_wf c" and own: "caller_ok e c (rs_bufs s) k pc"
    and same: "cl_send_base c = cl_send_base (rs_client s)" "cl_send_mr c = cl_send_mr (rs_client s)"
      "cl_recv_pool c = cl_recv_pool (rs_client s)" "cl_max_inflight c = cl_max_inflight (rs_client s)"
      "cl_free_slots c = cl_free_slots (rs_client s)"
    and others: "\<And>j. unat j < unat (cl_max_inflight (rs_client s)) \<Longrightarrow> j \<noteq> i \<Longrightarrow>
        pool_part 272 (unat j) (cl_send_pool c) = pool_part 272 (unat j) (cl_send_pool (rs_client s)) \<and>
        cl_slots c ! unat j = cl_slots (rs_client s) ! unat j"
    and len: "slot_actual_len (cl_slots c ! unat i) = slot_actual_len (cl_slots (rs_client s) ! unat i)"
  shows "rpc_inv e ok (set_caller k pc (s\<lparr>rs_client := c\<rparr>))"
  using inv
proof (rule rpc_invE)
  let ?t = "set_caller k pc (s\<lparr>rs_client := c\<rparr>)"
  assume i: "client_wf (rs_client s)" "length (rs_workers s) = unat (cl_max_inflight (rs_client s))"
    "\<And>k. length (rs_bufs s k) < 2 ^ 64" "slots_ok (rs_client s) (rs_callers s)" "callers_ok e s"
    "\<And>i. count (busy e s) i \<le> 1" "tokens_ok e ok s"
    "\<forall>(k, req, n, buf) \<in> set (rs_returned s). result_ok ok req n buf" "\<not> rs_fault s"
  show ?thesis
  proof (rule rpc_invI)
    show "client_wf (rs_client ?t)" using wf by simp
    show "length (rs_workers ?t) = unat (cl_max_inflight (rs_client ?t))" using i(2) same by simp
    show "length (rs_bufs ?t k) < 2 ^ 64" for k using i(3) by simp
    show "slots_ok (rs_client ?t) (rs_callers ?t)"
      by (rule slots_same [OF i(4)]) (use same h h' in auto)
    have "\<forall>k'. caller_ok e c (rs_bufs s) k' (((rs_callers s)(k := pc)) k')"
    proof (rule callers_set [OF i(5,4) h own same(1,2) refl])
      fix j assume "unat j < unat (cl_max_inflight (rs_client s))" "j \<noteq> i"
      from others [OF this] show "pool_part 272 (unat j) (cl_send_pool c) = pool_part 272 (unat j) (cl_send_pool (rs_client s)) \<and>
        (\<exists>n. cl_slots c ! unat j = (cl_slots (rs_client s) ! unat j)\<lparr>slot_actual_len := n\<rparr>)"
        by (simp only: slot_kept simp_thms)
    qed
    then show "callers_ok e ?t" unfolding callers_ok_def by simp
    show "count (busy e ?t) j \<le> 1" for j using i(6) [of j] by (simp add: busy_def)
    show "tokens_ok e ok ?t"
    proof (rule tokens_frame [OF i(5,7)])
      fix k' j req m
      assume fl: "flying (rs_callers s k') = Some (j, req, m)"
      have max: "unat j < unat (cl_max_inflight (rs_client s))"
        by (rule slots_okD(2) [OF i(4) flying_held [OF fl]])
      have "slot_actual_len (cl_slots c ! unat j) = slot_actual_len (cl_slots (rs_client s) ! unat j)"
        using others [OF max] len by (cases "j = i") simp_all
      then show "flying (rs_callers ?t k') = Some (j, req, m) \<and> rs_bufs ?t k' = rs_bufs s k' \<and>
        slot_actual_len (cl_slots (rs_client ?t) ! unat j) = slot_actual_len (cl_slots (rs_client s) ! unat j)"
        using fl f by (cases "k' = k") auto
    qed (use same in \<open>simp_all add: arrived_def\<close>)
  qed (use i in simp_all)
qed

lemma inv_acquire:
  assumes inv: "rpc_inv e ok s" and idle: "rs_callers s k = C_idle" and req: "length req \<le> 256"
    and deq: "try_dequeue i (rs_client s) = Some c"
  shows "rpc_inv e ok (set_caller k (C_acquired i req) (s\<lparr>rs_client := c, rs_before := B\<rparr>))"
  using inv
proof (rule rpc_invE)
  let ?t = "set_caller k (C_acquired i req) (s\<lparr>rs_client := c, rs_before := B\<rparr>)"
  from deq have i: "i \<in># cl_free_slots (rs_client s)" and c: "c = (rs_client s)\<lparr>cl_free_slots := cl_free_slots (rs_client s) - {#i#}\<rparr>"
    by (simp_all add: try_dequeue_def split: if_splits)
  assume a: "client_wf (rs_client s)" "length (rs_workers s) = unat (cl_max_inflight (rs_client s))"
    "\<And>k. length (rs_bufs s k) < 2 ^ 64" "slots_ok (rs_client s) (rs_callers s)" "callers_ok e s"
    "\<And>i. count (busy e s) i \<le> 1" "tokens_ok e ok s"
    "\<forall>(k, req, n, buf) \<in> set (rs_returned s). result_ok ok req n buf" "\<not> rs_fault s"
  show ?thesis
  proof (rule rpc_invI)
    show "slots_ok (rs_client ?t) (rs_callers ?t)"
      using slots_acquire [OF a(4), of k i "C_acquired i req"] idle i by (simp add: c)
    show "callers_ok e ?t" unfolding callers_ok_def
    proof
      fix k'
      show "caller_ok e (rs_client ?t) (rs_bufs ?t) k' (rs_callers ?t k')"
      proof (cases "k' = k")
        case False
        have "caller_ok e (rs_client s) (rs_bufs s) k' (rs_callers s k')" using a(5) by (simp add: callers_ok_def)
        then have "caller_ok e c (rs_bufs s) k' (rs_callers s k')"
          by (rule caller_frame) (simp_all add: c)
        then show ?thesis using False by simp
      qed (use req in simp)
    qed
    show "count (busy e ?t) j \<le> 1" for j using a(6) [of j] by (simp add: busy_def)
    show "tokens_ok e ok ?t"
      by (rule tokens_frame [OF a(5,7)]) (use idle in \<open>auto simp: c arrived_def\<close>)
  qed (use a in \<open>simp_all add: c\<close>)
qed

lemma caller_of:
  assumes "rpc_inv e ok s" and "held (rs_callers s k) = Some i"
  shows "caller_ok e (rs_client s) (rs_bufs s) k (rs_callers s k)" and "unat i < unat (cl_max_inflight (rs_client s))"
proof -
  from assms(1) have "callers_ok e s" and ok: "slots_ok (rs_client s) (rs_callers s)" unfolding rpc_inv_def by blast+
  then show "caller_ok e (rs_client s) (rs_bufs s) k (rs_callers s k)" by (simp add: callers_ok_def)
  show "unat i < unat (cl_max_inflight (rs_client s))" by (rule slots_okD(2) [OF ok assms(2)])
qed

lemma inv_wf: "rpc_inv e ok s \<Longrightarrow> client_wf (rs_client s)"
  by (simp add: rpc_inv_def)

lemma prepare_applies:
  assumes "rpc_inv e ok s" and "rs_callers s k = C_acquired i req"
  shows "call_prepare e k n req i (rs_client s) =
     (Inr (message_view (length req) i (rs_client s)), prepared e k n req i (rs_client s))"
    and "length req \<le> 256" and "unat i < unat (cl_max_inflight (rs_client s))"
proof -
  show i: "unat i < unat (cl_max_inflight (rs_client s))" by (rule caller_of(2) [OF assms(1), of k]) (simp add: assms(2))
  show req: "length req \<le> 256" using caller_of(1) [OF assms(1), of k i] assms(2) by simp
  show "call_prepare e k n req i (rs_client s) =
     (Inr (message_view (length req) i (rs_client s)), prepared e k n req i (rs_client s))"
    by (rule call_prepare_apply [OF inv_wf [OF assms(1)] i]) (rule short_fits [OF inv_wf [OF assms(1)] i req])
qed

lemma inv_prepare:
  assumes inv: "rpc_inv e ok s" and pc: "rs_callers s k = C_acquired i req"
    and run: "call_prepare e k (of_nat (length (rs_bufs s k))) req i (rs_client s) = (Inr v, c)"
  shows "rpc_inv e ok (set_caller k (C_prepared i req v) (s\<lparr>rs_client := c\<rparr>))"
proof -
  let ?n = "of_nat (length (rs_bufs s k)) :: size_t"
  note wf = inv_wf [OF inv] and req = prepare_applies(2) [OF inv pc] and i = prepare_applies(3) [OF inv pc]
  have v: "v = message_view (length req) i (rs_client s)" and c: "c = prepared e k ?n req i (rs_client s)"
    using prepare_applies(1) [OF inv pc, of ?n] run by simp_all
  let ?m = "bytes_at 0 (16 + length req) (pool_part 272 (unat i) (cl_send_pool c))"
  obtain pad where pad: "length pad = 4" and m: "?m = rpc_message e (next_req_id i (rs_client s)) (of_nat (length req)) pad req"
    using prepared_message [OF wf i req, of e k ?n] c by blast
  have slot: "cl_slots c ! unat i = (cl_slots (rs_client s) ! unat i)\<lparr>slot_waiter := None, slot_buffer := k,
      slot_buffer_size := ?n, slot_expected_req_id := next_req_id i (rs_client s)\<rparr>"
    using i wf_slots [OF wf] by (simp add: c prepared_def update_slot_def)
  show ?thesis
  proof (rule inv_caller_step [OF inv])
    show "held (rs_callers s k) = Some i" and "flying (rs_callers s k) = None \<or> flying (C_prepared i req v) = flying (rs_callers s k)"
      and "held (C_prepared i req v) = Some i" using pc by simp_all
    show "client_wf c" unfolding c by (rule client_wf_prepared [OF wf]) (rule short_fits [OF wf i req])
    have "v = message_view (length req) i c" by (simp add: v c prepared_def update_slot_def message_view_def)
    moreover have "request_of e i req ?m" using pad unfolding request_of_def m by (intro exI conjI) simp_all
    moreover have "slot_of_call (cl_slots c ! unat i) (rs_bufs s) k (msg_id e ?m)"
      by (simp add: slot_of_call_def slot m)
    ultimately show "caller_ok e c (rs_bufs s) k (C_prepared i req v)" using req slot by simp
    show "pool_part 272 (unat j) (cl_send_pool c) = pool_part 272 (unat j) (cl_send_pool (rs_client s)) \<and>
        cl_slots c ! unat j = cl_slots (rs_client s) ! unat j"
      if "unat j < unat (cl_max_inflight (rs_client s))" "j \<noteq> i" for j
      using that i req slot_within(1) [OF wf]
      by (simp add: c prepared_def update_slot_def pool.put_message_other word_unat_eq_iff)
    show "slot_actual_len (cl_slots c ! unat i) = slot_actual_len (cl_slots (rs_client s) ! unat i)"
      by (simp add: slot)
  qed (simp_all add: c prepared_def update_slot_def)
qed

lemma same_client [simp]: "s\<lparr>rs_client := rs_client s\<rparr> = s"
  by simp

lemma inv_same_client:
  assumes "rpc_inv e ok s" and "held (rs_callers s k) = Some i"
    and "flying (rs_callers s k) = None \<or> flying pc = flying (rs_callers s k)" and "held pc = Some i"
    and "caller_ok e (rs_client s) (rs_bufs s) k pc"
  shows "rpc_inv e ok (set_caller k pc s)"
  using inv_caller_step [OF assms(1-4) inv_wf [OF assms(1)] assms(5)] by simp

lemma inv_send_done:
  assumes inv: "rpc_inv e ok s" and pc: "rs_callers s k = C_sending i req m"
  shows "rpc_inv e ok (set_caller k (C_awaiting i req m) (s\<lparr>rs_client := response_await_suspend i k (rs_client s)\<rparr>))"
proof -
  note wf = inv_wf [OF inv]
  have h: "held (rs_callers s k) = Some i" using pc by simp
  note own = caller_of(1) [OF inv h] and i = caller_of(2) [OF inv h]
  have slot: "cl_slots (response_await_suspend i k (rs_client s)) ! unat i =
      (cl_slots (rs_client s) ! unat i)\<lparr>slot_waiter := Some k\<rparr>"
    using i wf_slots [OF wf] by (simp add: response_await_suspend_def slot_same)
  show ?thesis
  proof (rule inv_caller_step [OF inv h])
    show "caller_ok e (response_await_suspend i k (rs_client s)) (rs_bufs s) k (C_awaiting i req m)"
      using own by (simp add: pc slot slot_of_call_def)
    show "pool_part 272 (unat j) (cl_send_pool (response_await_suspend i k (rs_client s))) =
        pool_part 272 (unat j) (cl_send_pool (rs_client s)) \<and>
        cl_slots (response_await_suspend i k (rs_client s)) ! unat j = cl_slots (rs_client s) ! unat j" if "j \<noteq> i" for j
      using that by (simp add: response_await_suspend_def slot_other word_unat_eq_iff)
  qed (use pc wf slot in \<open>simp_all add: response_await_suspend_def\<close>)
qed

lemma inv_fewer:
  assumes inv: "rpc_inv e ok s" and t: "t = s\<lparr>rs_workers := W, rs_to_server := A, rs_to_client := B\<rparr>"
    and sub: "A \<subseteq># rs_to_server s" "B \<subseteq># rs_to_client s" and len: "length W = length (rs_workers s)"
    and wk: "\<And>w. w < length W \<Longrightarrow> W ! w = rs_workers s ! w \<or> W ! w \<in> {W_posted, W_ended}"
    and busy: "\<And>i. count (busy e t) i \<le> count (busy e s) i"
  shows "rpc_inv e ok t"
  using inv
proof (rule rpc_invE)
  assume a: "client_wf (rs_client s)" "length (rs_workers s) = unat (cl_max_inflight (rs_client s))"
    "\<And>k. length (rs_bufs s k) < 2 ^ 64" "slots_ok (rs_client s) (rs_callers s)" "callers_ok e s"
    "\<And>i. count (busy e s) i \<le> 1" "tokens_ok e ok s"
    "\<forall>(k, req, n, buf) \<in> set (rs_returned s). result_ok ok req n buf" "\<not> rs_fault s"
  show ?thesis
  proof (rule rpc_invI)
    show "callers_ok e t" using a(5) by (simp add: callers_ok_def t)
    show "count (busy e t) j \<le> 1" for j using busy [of j] a(6) [of j] by (rule order_trans)
    show "tokens_ok e ok t"
      by (rule tokens_frame [OF a(5,7)]) (use sub len wk in \<open>simp_all add: t\<close>)
  qed (use a len in \<open>simp_all add: t\<close>)
qed

lemma not_busy_after:
  assumes "rpc_inv e ok s" and "count (busy e t) i + 1 \<le> count (busy e s) i"
  shows "i \<notin># busy e t"
  using assms by (metis add_le_same_cancel2 le_trans not_in_iff rpc_inv_def le_zero_eq)

lemma inv_drop_server:
  assumes "rpc_inv e ok s" and "m \<in># rs_to_server s"
  shows "rpc_inv e ok (s\<lparr>rs_to_server := rs_to_server s - {#m#}\<rparr>)"
    and "decode_slot_idx (msg_id e m) \<notin># busy e (s\<lparr>rs_to_server := rs_to_server s - {#m#}\<rparr>)"
proof -
  let ?t = "s\<lparr>rs_to_server := rs_to_server s - {#m#}\<rparr>"
  have b: "busy e s = add_mset (decode_slot_idx (msg_id e m)) (busy e ?t)"
    using assms(2) by (auto simp: busy_def dest!: multi_member_split)
  show "rpc_inv e ok ?t"
    by (rule inv_fewer [OF assms(1), where W = "rs_workers s" and A = "rs_to_server s - {#m#}" and B = "rs_to_client s"])
      (simp_all add: b)
  show "decode_slot_idx (msg_id e m) \<notin># busy e ?t" by (rule not_busy_after [OF assms(1)]) (simp add: b)
qed

lemma inv_drop_client:
  assumes "rpc_inv e ok s" and "r \<in># rs_to_client s"
  shows "rpc_inv e ok (s\<lparr>rs_to_client := rs_to_client s - {#r#}\<rparr>)"
    and "decode_slot_idx (msg_id e r) \<notin># busy e (s\<lparr>rs_to_client := rs_to_client s - {#r#}\<rparr>)"
proof -
  let ?t = "s\<lparr>rs_to_client := rs_to_client s - {#r#}\<rparr>"
  have b: "busy e s = add_mset (decode_slot_idx (msg_id e r)) (busy e ?t)"
    using assms(2) by (auto simp: busy_def dest!: multi_member_split)
  show "rpc_inv e ok ?t"
    by (rule inv_fewer [OF assms(1), where W = "rs_workers s" and A = "rs_to_server s" and B = "rs_to_client s - {#r#}"])
      (simp_all add: b)
  show "decode_slot_idx (msg_id e r) \<notin># busy e ?t" by (rule not_busy_after [OF assms(1)]) (simp add: b)
qed

lemma inv_drop_worker:
  assumes "rpc_inv e ok s" and w: "w < length (rs_workers s)" and i: "worker_slots e (rs_workers s ! w) = [i]"
  shows "rpc_inv e ok (set_worker w W_posted s)" and "i \<notin># busy e (set_worker w W_posted s)"
proof -
  let ?t = "set_worker w W_posted s"
  have b: "count (busy e ?t) j + count {#i#} j = count (busy e s) j" for j
    using worker_count [OF w, of "worker_slots e" W_posted j] i by (simp add: busy_def)
  show "rpc_inv e ok ?t"
  proof (rule inv_fewer [OF assms(1), where A = "rs_to_server s" and B = "rs_to_client s" and W = "(rs_workers s)[w := W_posted]"])
    show "count (busy e ?t) j \<le> count (busy e s) j" for j using b [of j] by linarith
  qed (use w in \<open>auto simp: nth_list_update\<close>)
  show "i \<notin># busy e ?t" by (rule not_busy_after [OF assms(1)]) (use b [of i] in simp)
qed

lemma inv_recv_fail:
  assumes "rpc_inv e ok s" and w: "w < length (rs_workers s)" and pc: "rs_workers s ! w = W_posted"
  shows "rpc_inv e ok (set_worker w W_ended s)"
proof (rule inv_fewer [OF assms(1), where A = "rs_to_server s" and B = "rs_to_client s" and W = "(rs_workers s)[w := W_ended]"])
  show "count (busy e (set_worker w W_ended s)) j \<le> count (busy e s) j" for j
    using worker_count [OF w, of "worker_slots e" W_ended j] pc by (simp add: busy_def)
qed (use w in \<open>auto simp: nth_list_update\<close>)

lemma inv_retire:
  assumes inv: "rpc_inv e ok s" and h: "held (rs_callers s k) = Some i" and i: "i \<notin># busy e s"
    and h': "held pc = Some i" and own: "caller_ok e (rs_client s) (rs_bufs s) k pc"
  shows "rpc_inv e ok (set_caller k pc s)"
  using inv
proof (rule rpc_invE)
  let ?t = "set_caller k pc s"
  assume a: "client_wf (rs_client s)" "length (rs_workers s) = unat (cl_max_inflight (rs_client s))"
    "\<And>k. length (rs_bufs s k) < 2 ^ 64" "slots_ok (rs_client s) (rs_callers s)" "callers_ok e s"
    "\<And>i. count (busy e s) i \<le> 1" "tokens_ok e ok s"
    "\<forall>(k, req, n, buf) \<in> set (rs_returned s). result_ok ok req n buf" "\<not> rs_fault s"
  have busy: "busy e ?t = busy e s" by (simp add: busy_def)
  show ?thesis
  proof (rule rpc_invI)
    show "slots_ok (rs_client ?t) (rs_callers ?t)" by (rule slots_same [OF a(4)]) (use h h' in auto)
    show "callers_ok e ?t" using a(5) own by (simp add: callers_ok_def)
    show "count (busy e ?t) j \<le> 1" for j using a(6) [of j] by (simp only: busy)
    show "tokens_ok e ok ?t"
    proof (rule tokens_frame [OF a(5,7)])
      fix k' j req m
      assume f: "flying (rs_callers s k') = Some (j, req, m)" and j: "j \<in># busy e ?t"
      have "k' \<noteq> k" using flying_held [OF f] h j i by (auto simp only: busy)
      with f show "flying (rs_callers ?t k') = Some (j, req, m) \<and> rs_bufs ?t k' = rs_bufs s k' \<and>
        slot_actual_len (cl_slots (rs_client ?t) ! unat j) = slot_actual_len (cl_slots (rs_client s) ! unat j)" by simp
    qed simp_all
  qed (use a in simp_all)
qed

lemma inv_add_server:
  assumes inv: "rpc_inv e ok s" and f: "flying (rs_callers s k) = Some (i, req, m)" and i: "i \<notin># busy e s"
  shows "rpc_inv e ok (s\<lparr>rs_to_server := add_mset m (rs_to_server s)\<rparr>)"
proof -
  let ?t = "s\<lparr>rs_to_server := add_mset m (rs_to_server s)\<rparr>"
  have "decode_slot_idx (msg_id e m) = i" using flying_ok [OF _ f] inv by (auto simp: rpc_inv_def)
  then have b: "busy e ?t = add_mset i (busy e s)" by (simp add: busy_def)
  have "count (busy e ?t) j \<le> 1" for j
    using inv i by (cases "j = i") (auto simp: rpc_inv_def b not_in_iff)
  moreover have "tokens_ok e ok ?t"
  proof -
    have "tokens_ok e ok s" using inv by (simp add: rpc_inv_def)
    moreover have "worker_ok e ok ?t w pc = worker_ok e ok s w pc" for w pc by (cases pc) simp_all
    ultimately show ?thesis using f unfolding tokens_ok_def by auto
  qed
  ultimately show ?thesis using inv by (simp add: rpc_inv_def callers_ok_def)
qed

lemma inv_add_client:
  assumes inv: "rpc_inv e ok s" and r: "awaited e ok (rs_callers s) r" and i: "decode_slot_idx (msg_id e r) \<notin># busy e s"
  shows "rpc_inv e ok (s\<lparr>rs_to_client := add_mset r (rs_to_client s)\<rparr>)"
proof -
  let ?t = "s\<lparr>rs_to_client := add_mset r (rs_to_client s)\<rparr>"
  have b: "busy e ?t = add_mset (decode_slot_idx (msg_id e r)) (busy e s)" by (simp add: busy_def)
  have "count (busy e ?t) j \<le> 1" for j
    using inv i by (cases "j = decode_slot_idx (msg_id e r)") (auto simp: rpc_inv_def b not_in_iff)
  moreover have "tokens_ok e ok ?t"
  proof -
    have "tokens_ok e ok s" using inv by (simp add: rpc_inv_def)
    moreover have "worker_ok e ok ?t w pc = worker_ok e ok s w pc" for w pc by (cases pc) simp_all
    ultimately show ?thesis using r unfolding tokens_ok_def by auto
  qed
  ultimately show ?thesis using inv by (simp add: rpc_inv_def callers_ok_def)
qed

lemma inv_add_worker:
  assumes inv: "rpc_inv e ok s" and w: "w < length (rs_workers s)" "rs_workers s ! w = W_posted"
    and pc: "worker_ok e ok s w pc" "worker_slots e pc = [i]" and i: "i \<notin># busy e s"
  shows "rpc_inv e ok (set_worker w pc s)"
proof -
  let ?t = "set_worker w pc s"
  have b: "count (busy e ?t) j = count (busy e s) j + count {#i#} j" for j
    using worker_count [OF w(1), of "worker_slots e" pc j] w(2) pc(2) by (simp add: busy_def)
  have "count (busy e ?t) j \<le> 1" for j
    using inv i b [of j] by (cases "j = i") (auto simp: rpc_inv_def not_in_iff)
  moreover have "tokens_ok e ok ?t"
  proof -
    have ok: "tokens_ok e ok s" using inv by (simp add: rpc_inv_def)
    have same: "worker_ok e ok ?t w' pc' = worker_ok e ok s w' pc'" for w' pc' by (cases pc') simp_all
    have "worker_ok e ok ?t w' (rs_workers ?t ! w')" if "w' < length (rs_workers s)" for w'
      using that ok pc(1) unfolding same by (cases "w' = w") (auto simp: tokens_ok_def)
    then show ?thesis using ok unfolding tokens_ok_def by simp
  qed
  ultimately show ?thesis using inv by (simp add: rpc_inv_def callers_ok_def)
qed

lemma quiet_slot:
  assumes inv: "rpc_inv e ok s" and h: "held (rs_callers s k) = Some i" and f: "flying (rs_callers s k) = None"
  shows "i \<notin># busy e s"
proof
  assume "i \<in># busy e s"
  then obtain k' req m where f': "flying (rs_callers s k') = Some (i, req, m)"
    using inv busy_owner [of e s ok i] unfolding rpc_inv_def by blast
  have "k = k'" using flying_slot_inject [OF _ f' h] inv unfolding rpc_inv_def by blast
  with f f' show False by simp
qed

lemma inv_post:
  assumes inv: "rpc_inv e ok s" and pc: "rs_callers s k = C_prepared i req v"
    and m: "m = view_bytes (cl_send_base (rs_client s)) (cl_send_pool (rs_client s)) v"
  shows "rpc_inv e ok (set_caller k (C_sending i req m) (s\<lparr>rs_to_server := add_mset m (rs_to_server s)\<rparr>))"
proof -
  let ?s = "set_caller k (C_sending i req m) s"
  have h: "held (rs_callers s k) = Some i" and f: "flying (rs_callers s k) = None" using pc by simp_all
  have own: "caller_ok e (rs_client s) (rs_bufs s) k (C_prepared i req v)" using caller_of(1) [OF inv h] pc by simp
  then have "m = bytes_at 0 (16 + length req) (pool_part 272 (unat i) (cl_send_pool (rs_client s)))"
    using m by (simp add: view_bytes_part)
  with own have "caller_ok e (rs_client s) (rs_bufs s) k (C_sending i req m)" by auto
  then have s: "rpc_inv e ok ?s" using inv_same_client [OF inv h] f by simp
  have "i \<notin># busy e ?s" using quiet_slot [OF inv h f] by (simp add: busy_def)
  from inv_add_server [OF s _ this, of k req m]
  have "rpc_inv e ok (?s\<lparr>rs_to_server := add_mset m (rs_to_server s)\<rparr>)" by simp
  moreover have "?s\<lparr>rs_to_server := add_mset m (rs_to_server s)\<rparr> =
      set_caller k (C_sending i req m) (s\<lparr>rs_to_server := add_mset m (rs_to_server s)\<rparr>)"
    by (rule rpc_system.equality) simp_all
  ultimately show ?thesis by simp
qed

lemma inv_send_lost:
  assumes inv: "rpc_inv e ok s" and pc: "rs_callers s k = C_sending i req m" and m: "m \<in># rs_to_server s"
  shows "rpc_inv e ok (set_caller k (C_failed i req) (s\<lparr>rs_to_server := rs_to_server s - {#m#}\<rparr>))"
proof -
  have "decode_slot_idx (msg_id e m) = i"
    using flying_ok [of e s k i req m] inv pc by (simp add: rpc_inv_def)
  with inv_retire [OF inv_drop_server(1) [OF inv m], of k i "C_failed i req"] inv_drop_server(2) [OF inv m] pc
  show ?thesis by simp
qed

lemma inv_answer:
  assumes inv: "rpc_inv e ok s" and m: "m \<in># rs_to_server s" and r: "answers e ok m r"
  shows "rpc_inv e ok (s\<lparr>rs_to_server := rs_to_server s - {#m#}, rs_to_client := add_mset r (rs_to_client s)\<rparr>)"
proof -
  let ?s = "s\<lparr>rs_to_server := rs_to_server s - {#m#}\<rparr>"
  have "awaited e ok (rs_callers ?s) r"
    using inv m r unfolding rpc_inv_def tokens_ok_def awaited_def by (simp, blast)
  from inv_add_client [OF inv_drop_server(1) [OF inv m] this] inv_drop_server(2) [OF inv m]
  show ?thesis by (simp add: answers_id [OF r])
qed

lemma inv_recv_pool:
  assumes inv: "rpc_inv e ok s" and w: "w < length (rs_workers s)" "rs_workers s ! w = W_posted"
    and len: "length mem = length (cl_recv_pool (rs_client s))"
    and same: "\<And>j. j < unat (cl_max_inflight (rs_client s)) \<Longrightarrow> j \<noteq> w \<Longrightarrow>
       pool_part 4112 j mem = pool_part 4112 j (cl_recv_pool (rs_client s))"
  shows "rpc_inv e ok (s\<lparr>rs_client := (rs_client s)\<lparr>cl_recv_pool := mem\<rparr>\<rparr>)"
  using inv
proof (rule rpc_invE)
  let ?t = "s\<lparr>rs_client := (rs_client s)\<lparr>cl_recv_pool := mem\<rparr>\<rparr>"
  assume a: "client_wf (rs_client s)" "length (rs_workers s) = unat (cl_max_inflight (rs_client s))"
    "\<And>k. length (rs_bufs s k) < 2 ^ 64" "slots_ok (rs_client s) (rs_callers s)" "callers_ok e s"
    "\<And>i. count (busy e s) i \<le> 1" "tokens_ok e ok s"
    "\<forall>(k, req, n, buf) \<in> set (rs_returned s). result_ok ok req n buf" "\<not> rs_fault s"
  show ?thesis
  proof (rule rpc_invI)
    show "client_wf (rs_client ?t)" using a(1) len by (simp add: client_wf_def)
    show "slots_ok (rs_client ?t) (rs_callers ?t)" by (rule slots_same [OF a(4)]) simp_all
    show "callers_ok e ?t" unfolding callers_ok_def
    proof
      fix k'
      have "caller_ok e (rs_client s) (rs_bufs s) k' (rs_callers s k')" using a(5) by (simp add: callers_ok_def)
      then have "caller_ok e ((rs_client s)\<lparr>cl_recv_pool := mem\<rparr>) (rs_bufs s) k' (rs_callers s k')"
        by (rule caller_frame) simp_all
      then show "caller_ok e (rs_client ?t) (rs_bufs ?t) k' (rs_callers ?t k')" by simp
    qed
    show "count (busy e ?t) j \<le> 1" for j using a(6) [of j] by (simp add: busy_def)
    show "tokens_ok e ok ?t"
    proof (rule tokens_frame [OF a(5,7)])
      fix w' r
      assume w': "w' < length (rs_workers s)" and got: "rs_workers ?t ! w' = W_got r"
        and arr: "arrived (of_nat w') r (rs_client s)"
      have "w' \<noteq> w" using got w by auto
      moreover have "unat (of_nat w' :: size_t) = w'" using w' a(1,2) by (simp add: unat_of_nat client_wf_def)
      ultimately show "arrived (of_nat w') r (rs_client ?t)"
        using arr same [of w'] w' a(2) by (simp add: arrived_def)
    qed simp_all
  qed (use a in simp_all)
qed

lemma recv_view_apply:
  assumes wf: "client_wf c" and w: "w < unat (cl_max_inflight c)"
  shows "\<exists>key. recv_view (of_nat w) c = Inr \<lparr>view_addr = cl_recv_base c + of_nat w * kRecvBufferSize,
     view_length = kRecvBufferSize, view_key = key\<rparr>" and "unat (of_nat w * kRecvBufferSize :: size_t) = w * 4112"
proof -
  from wf obtain mr where max: "unat (cl_max_inflight c) < 2 ^ 32"
    and mr: "lmr_mr (cl_recv_mr c) = Some mr" "mr_addr mr = cl_recv_base c" "mr_length mr = cl_max_inflight c * 4112"
    unfolding client_wf_def by blast
  have n: "unat (of_nat w :: size_t) = w" using w max by (simp add: unat_of_nat)
  then show off: "unat (of_nat w * kRecvBufferSize :: size_t) = w * 4112"
    using unat_slot_offset(2) [of "of_nat w"] w max by simp
  have len: "unat (mr_length mr) = 4112 * unat (cl_max_inflight c)"
    using unat_scale [of "cl_max_inflight c" 4112] max mr(3) by simp
  have "recv_view (of_nat w) c = Inr \<lparr>view_addr = cl_recv_base c + of_nat w * kRecvBufferSize,
     view_length = kRecvBufferSize, view_key = mr_lkey mr\<rparr>"
    unfolding recv_view_def by (rule slice_view [OF mr(1,2) len off w]) (simp add: rpc_sizes)
  then show "\<exists>key. recv_view (of_nat w) c = Inr \<lparr>view_addr = cl_recv_base c + of_nat w * kRecvBufferSize,
     view_length = kRecvBufferSize, view_key = key\<rparr>" by blast
qed

lemma inv_deliver:
  assumes inv: "rpc_inv e ok s" and r: "r \<in># rs_to_client s" and w: "w < length (rs_workers s)" "rs_workers s ! w = W_posted"
    and v: "recv_view (of_nat w) (rs_client s) = Inr v" and len: "length r \<le> unat (view_length v)"
  shows "rpc_inv e ok (set_worker w (W_got r) (s\<lparr>rs_to_client := rs_to_client s - {#r#},
       rs_client := (rs_client s)\<lparr>cl_recv_pool := write_at (unat (view_addr v - cl_recv_base (rs_client s))) r
         (cl_recv_pool (rs_client s))\<rparr>\<rparr>))"
proof -
  let ?c = "rs_client s" and ?s = "s\<lparr>rs_to_client := rs_to_client s - {#r#}\<rparr>"
  note wf = inv_wf [OF inv]
  have max: "w < unat (cl_max_inflight ?c)" using inv w(1) by (simp add: rpc_inv_def)
  have addr: "unat (view_addr v - cl_recv_base ?c) = w * 4112" and r4: "length r \<le> 4112"
    using recv_view_apply [OF wf max] v len by (auto simp: rpc_sizes)
  define mem where "mem = write_at (w * 4112) r (cl_recv_pool ?c)"
  have mem: "mem = pool_patch 4112 w 0 r (cl_recv_pool ?c)" by (simp add: mem_def pool_patch_def)
  have win: "pool_within 4112 j (cl_recv_pool ?c)" if "j < unat (cl_max_inflight ?c)" for j
    using slot_within(2) [OF wf that] .
  have same_len: "length mem = length (cl_recv_pool ?c)"
    using win [OF max] r4 by (simp add: mem_def pool_within_def)
  have other: "pool_part 4112 j mem = pool_part 4112 j (cl_recv_pool ?c)" if "j < unat (cl_max_inflight ?c)" "j \<noteq> w" for j
    using pool.part_other [OF win [OF max] win [OF that(1)], of 0 r] r4 that(2) unfolding mem by simp
  have own: "bytes_at 0 (length r) (pool_part 4112 w mem) = r"
    using pool.part_patch [OF win [OF max], of 0 r] pool.part_length [OF win [OF max]] r4 unfolding mem by simp
  have s1: "rpc_inv e ok (?s\<lparr>rs_client := ?c\<lparr>cl_recv_pool := mem\<rparr>\<rparr>)"
    using inv_recv_pool [OF inv_drop_client(1) [OF inv r], of w mem] w same_len other by simp
  have aw: "awaited e ok (rs_callers s) r" using inv r unfolding rpc_inv_def tokens_ok_def by blast
  have "unat (of_nat w :: size_t) = w" using max wf by (simp add: unat_of_nat client_wf_def)
  then have "arrived (of_nat w) r (?c\<lparr>cl_recv_pool := mem\<rparr>)"
    using own r4 max by (simp add: arrived_def word_less_nat_alt)
  with aw have ok: "worker_ok e ok (?s\<lparr>rs_client := ?c\<lparr>cl_recv_pool := mem\<rparr>\<rparr>) w (W_got r)" by simp
  have "decode_slot_idx (msg_id e r) \<notin># busy e (?s\<lparr>rs_client := ?c\<lparr>cl_recv_pool := mem\<rparr>\<rparr>)"
    using inv_drop_client(2) [OF inv r] by (simp add: busy_def)
  from inv_add_worker [OF s1 _ _ ok _ this] w
  have "rpc_inv e ok (set_worker w (W_got r) (?s\<lparr>rs_client := ?c\<lparr>cl_recv_pool := mem\<rparr>\<rparr>))" by simp
  then show ?thesis unfolding addr mem_def by simp
qed

lemma inv_release:
  assumes inv: "rpc_inv e ok s" and h: "held (rs_callers s k) = Some i" and f: "flying (rs_callers s k) = None"
  shows "rpc_inv e ok (set_caller k C_idle (s\<lparr>rs_client := call_release i (rs_client s), rs_failed := F\<rparr>))"
  using inv
proof (rule rpc_invE)
  let ?t = "set_caller k C_idle (s\<lparr>rs_client := call_release i (rs_client s), rs_failed := F\<rparr>)"
  assume a: "client_wf (rs_client s)" "length (rs_workers s) = unat (cl_max_inflight (rs_client s))"
    "\<And>k. length (rs_bufs s k) < 2 ^ 64" "slots_ok (rs_client s) (rs_callers s)" "callers_ok e s"
    "\<And>i. count (busy e s) i \<le> 1" "tokens_ok e ok s"
    "\<forall>(k, req, n, buf) \<in> set (rs_returned s). result_ok ok req n buf" "\<not> rs_fault s"
  have c: "cl_max_inflight (call_release i (rs_client s)) = cl_max_inflight (rs_client s)"
    "cl_recv_pool (call_release i (rs_client s)) = cl_recv_pool (rs_client s)"
    "cl_slots (call_release i (rs_client s)) = cl_slots (rs_client s)"
    "cl_send_pool (call_release i (rs_client s)) = cl_send_pool (rs_client s)"
    "cl_send_base (call_release i (rs_client s)) = cl_send_base (rs_client s)"
    "cl_send_mr (call_release i (rs_client s)) = cl_send_mr (rs_client s)"
    by (simp_all add: call_release_def)
  show ?thesis
  proof (rule rpc_invI)
    show "slots_ok (rs_client ?t) (rs_callers ?t)" using slots_release [OF a(4) h, of C_idle] by simp
    have "\<forall>k'. caller_ok e (call_release i (rs_client s)) (rs_bufs s) k' (((rs_callers s)(k := C_idle)) k')"
      by (rule callers_set [OF a(5,4) h]) (simp_all add: c)
    then show "callers_ok e ?t" unfolding callers_ok_def by simp
    show "count (busy e ?t) j \<le> 1" for j using a(6) [of j] by (simp add: busy_def)
    show "tokens_ok e ok ?t"
      by (rule tokens_frame [OF a(5,7)]) (use f in \<open>auto simp: c arrived_def\<close>)
  qed (use a c in simp_all)
qed

lemma inv_fill:
  assumes inv: "rpc_inv e ok s" and f: "flying (rs_callers s k) = Some (i, req, m)" and i: "i \<notin># busy e s"
    and len: "length b = length (rs_bufs s k)"
  shows "rpc_inv e ok (s\<lparr>rs_client := update_slot i (\<lambda>sl. sl\<lparr>slot_actual_len := n\<rparr>) (rs_client s),
     rs_bufs := (rs_bufs s)(k := b)\<rparr>)"
  using inv
proof (rule rpc_invE)
  let ?c = "update_slot i (\<lambda>sl. sl\<lparr>slot_actual_len := n\<rparr>) (rs_client s)"
  let ?t = "s\<lparr>rs_client := ?c, rs_bufs := (rs_bufs s)(k := b)\<rparr>"
  assume a: "client_wf (rs_client s)" "length (rs_workers s) = unat (cl_max_inflight (rs_client s))"
    "\<And>k. length (rs_bufs s k) < 2 ^ 64" "slots_ok (rs_client s) (rs_callers s)" "callers_ok e s"
    "\<And>i. count (busy e s) i \<le> 1" "tokens_ok e ok s"
    "\<forall>(k, req, n, buf) \<in> set (rs_returned s). result_ok ok req n buf" "\<not> rs_fault s"
  have i_max: "unat i < length (cl_slots (rs_client s))"
    using slots_okD(2) [OF a(4) flying_held [OF f]] wf_slots [OF a(1)] by simp
  have busy: "busy e ?t = busy e s" by (simp add: busy_def)
  show ?thesis
  proof (rule rpc_invI)
    show "length (rs_bufs ?t k') < 2 ^ 64" for k' using a(3) [of k'] a(3) [of k] len by simp
    show "slots_ok (rs_client ?t) (rs_callers ?t)" by (rule slots_same [OF a(4)]) simp_all
    show "callers_ok e ?t" unfolding callers_ok_def
    proof
      fix k'
      have "caller_ok e (rs_client s) (rs_bufs s) k' (rs_callers s k')" using a(5) by (simp add: callers_ok_def)
      then have "caller_ok e ?c ((rs_bufs s)(k := b)) k' (rs_callers s k')"
      proof (rule caller_frame)
        show "\<exists>n. cl_slots ?c ! unat j = (cl_slots (rs_client s) ! unat j)\<lparr>slot_actual_len := n\<rparr>" for j
          using slot_other [of i j] slot_same [OF i_max] by (cases "unat i = unat j") (auto simp: word_unat_eq_iff)
      qed (use len in simp_all)
      then show "caller_ok e (rs_client ?t) (rs_bufs ?t) k' (rs_callers ?t k')" by simp
    qed
    show "count (busy e ?t) j \<le> 1" for j using a(6) [of j] by (simp only: busy)
    show "tokens_ok e ok ?t"
    proof (rule tokens_frame [OF a(5,7)])
      fix k' j req' m'
      assume f': "flying (rs_callers s k') = Some (j, req', m')" and j: "j \<in># busy e ?t"
      have ji: "j \<noteq> i" using j i by (auto simp only: busy)
      then have "k' \<noteq> k" using f f' by auto
      then show "flying (rs_callers ?t k') = Some (j, req', m') \<and> rs_bufs ?t k' = rs_bufs s k' \<and>
        slot_actual_len (cl_slots (rs_client ?t) ! unat j) = slot_actual_len (cl_slots (rs_client s) ! unat j)"
        using f' ji slot_other [of i j] by (simp add: word_unat_eq_iff)
    qed (simp_all add: arrived_def)
  qed (use a in simp_all)
qed

text \<open>What a worker finds that got a message: the slot of a waiting call, whose answer this is.\<close>

lemma worker_got:
  assumes inv: "rpc_inv e ok s" and w: "w < length (rs_workers s)" "rs_workers s ! w = W_got r"
  shows "\<exists>k i req m d n. flying (rs_callers s k) = Some (i, req, m) \<and> decode_slot_idx (msg_id e r) = i \<and>
     ok req d \<and> d \<noteq> [] \<and> unat n = min (length d) (length (rs_bufs s k)) \<and>
     recv_worker_handle e (of_nat w) (of_nat (length r)) (rs_client s, rs_bufs s) =
       (Inr (Recv_resume i), (update_slot i (\<lambda>sl. sl\<lparr>slot_actual_len := n\<rparr>) (rs_client s),
          (rs_bufs s)(k := write_at 0 (take (unat n) d) (rs_bufs s k))))"
proof -
  have "worker_ok e ok s w (W_got r)" using inv w unfolding rpc_inv_def tokens_ok_def by metis
  then obtain k i req m where f: "flying (rs_callers s k) = Some (i, req, m)" and ans: "answers e ok m r"
    and arr: "arrived (of_nat w) r (rs_client s)" by (auto simp: awaited_def)
  have callers: "callers_ok e s" and slots: "slots_ok (rs_client s) (rs_callers s)"
    and buf: "length (rs_bufs s k) < 2 ^ 64" using inv unfolding rpc_inv_def by blast+
  note fl = flying_ok [OF callers f]
  let ?sl = "cl_slots (rs_client s) ! unat i"
  obtain pad d where pad: "length pad = 4" and d: "d \<noteq> []" "length d \<le> 4096" "ok req d"
    and r: "r = rpc_message e (msg_id e m) (of_nat (length d)) pad d"
    using ans request_of_payload [of e i req m] fl unfolding answers_def by auto
  have id: "decode_slot_idx (msg_id e r) = i" "msg_id e r = msg_id e m" using fl answers_id [OF ans] by simp_all
  have dlen: "unat (of_nat (length d) :: u32) = length d" using d(2) by (simp add: unat_of_nat)
  have ml: "msg_len e r = of_nat (length d)" by (simp add: r)
  have rlen: "length r = 16 + length d" using pad by (simp add: r)
  have sl: "slot_expected_req_id ?sl = msg_id e r" "slot_buffer ?sl = k" "slot_buffer_size ?sl = of_nat (length (rs_bufs s k))"
    using fl id by (simp_all add: slot_of_call_def)
  have bsize: "unat (slot_buffer_size ?sl) = length (rs_bufs s k)" using buf by (simp add: sl unat_of_nat)
  have max: "unat i < unat (cl_max_inflight (rs_client s))" by (rule slots_okD(2) [OF slots flying_held [OF f]])
  define n where "n = min (ucast (msg_len e r)) (slot_buffer_size ?sl)"
  have n: "unat n = min (length d) (length (rs_bufs s k))"
    using dlen bsize by (simp add: n_def min_def word_le_nat_alt ml)
  have nz: "msg_len e r \<noteq> 0" using d(1) dlen by (simp add: ml word_unat_eq_iff del: of_nat_eq_0_iff)
  have body: "bytes_at 16 (unat n) r = take (unat n) d" using pad by (simp add: bytes_at_def r rpc_message_def)
  have "recv_worker_handle e (of_nat w) (of_nat (length r)) (rs_client s, rs_bufs s) = recv_decision e r (rs_client s, rs_bufs s)"
  proof (rule recv_worker_decides [OF inv_wf [OF inv] arr])
    show "unat (slot_buffer_size ?sl) \<le> length (rs_bufs s (slot_buffer ?sl))" by (simp only: bsize sl(2))
    show "?sl = cl_slots (rs_client s) ! unat (decode_slot_idx (msg_id e r))" by (simp only: id(1))
  qed (simp add: rlen ml dlen)
  also have "\<dots> = (Inr (Recv_resume i), (update_slot i (\<lambda>sl. sl\<lparr>slot_actual_len := n\<rparr>) (rs_client s),
          (rs_bufs s)(k := write_at 0 (take (unat n) d) (rs_bufs s k))))"
    using max sl nz rlen body n_def by (simp add: recv_decision_def Let_def id(1))
  finally show ?thesis using f d(1,3) n id(1) by blast
qed

lemma inv_handle:
  assumes inv: "rpc_inv e ok s" and w: "w < length (rs_workers s)" "rs_workers s ! w = W_got r"
    and run: "recv_worker_handle e (of_nat w) (of_nat (length r)) (rs_client s, rs_bufs s) = (Inr (Recv_resume i), (c, bufs))"
  shows "rpc_inv e ok (set_worker w (W_spinning i) (s\<lparr>rs_client := c, rs_bufs := bufs\<rparr>))"
proof -
  from worker_got [OF inv w] run obtain k req m d n where f: "flying (rs_callers s k) = Some (i, req, m)"
    and i: "decode_slot_idx (msg_id e r) = i" and d: "ok req d" "d \<noteq> []"
    and n: "unat n = min (length d) (length (rs_bufs s k))"
    and c: "c = update_slot i (\<lambda>sl. sl\<lparr>slot_actual_len := n\<rparr>) (rs_client s)"
    and bufs: "bufs = (rs_bufs s)(k := write_at 0 (take (unat n) d) (rs_bufs s k))" by auto
  let ?s = "set_worker w W_posted s" and ?b = "write_at 0 (take (unat n) d) (rs_bufs s k)"
  have slots: "worker_slots e (rs_workers s ! w) = [i]" using w i by simp
  note drop = inv_drop_worker [OF inv w(1) slots]
  have blen: "length ?b = length (rs_bufs s k)" using n by (intro write_at_length) simp
  let ?t = "?s\<lparr>rs_client := c, rs_bufs := bufs\<rparr>"
  have t: "rpc_inv e ok ?t" using inv_fill [OF drop(1), of k i req m ?b n] f drop(2) blen by (simp add: c bufs)
  have "unat i < length (cl_slots (rs_client s))"
    using caller_of(2) [OF inv flying_held [OF f]] wf_slots [OF inv_wf [OF inv]] by simp
  then have "slot_actual_len (cl_slots c ! unat i) = n" by (simp add: c slot_same)
  moreover have "result_ok ok req n ?b" unfolding result_ok_def
    using d n blen by (intro exI [of _ d]) (simp add: write_at_def)
  ultimately have "worker_ok e ok ?t w (W_spinning i)" using f by (auto simp: bufs)
  moreover have "i \<notin># busy e ?t" using drop(2) by (simp add: busy_def)
  ultimately have "rpc_inv e ok (set_worker w (W_spinning i) ?t)"
    using w(1) by (intro inv_add_worker [OF t]) simp_all
  moreover have "set_worker w (W_spinning i) ?t = set_worker w (W_spinning i) (s\<lparr>rs_client := c, rs_bufs := bufs\<rparr>)"
    by (rule rpc_system.equality) simp_all
  ultimately show ?thesis by simp
qed

text \<open>What a worker finds whose spin ends: the caller of this slot, suspended.\<close>

lemma worker_spun:
  assumes inv: "rpc_inv e ok s" and w: "w < length (rs_workers s)" "rs_workers s ! w = W_spinning i"
    and k: "slot_waiter (cl_slots (rs_client s) ! unat i) = Some k"
  shows "\<exists>req m. rs_callers s k = C_awaiting i req m \<and>
     result_ok ok req (response_await_resume i (rs_client s)) (rs_bufs s k)"
proof -
  have "worker_ok e ok s w (W_spinning i)" using inv w unfolding rpc_inv_def tokens_ok_def by metis
  then obtain k' req m where f: "flying (rs_callers s k') = Some (i, req, m)"
    and r: "result_ok ok req (slot_actual_len (cl_slots (rs_client s) ! unat i)) (rs_bufs s k')" by auto
  have "caller_ok e (rs_client s) (rs_bufs s) k' (rs_callers s k')" by (rule caller_of(1) [OF inv flying_held [OF f]])
  with f k have "k' = k \<and> rs_callers s k = C_awaiting i req m" by (cases "rs_callers s k'") auto
  with r show ?thesis by (auto simp: response_await_resume_def)
qed

lemma inv_return:
  assumes "rpc_inv e ok s" and "result_ok ok req n buf"
  shows "rpc_inv e ok (s\<lparr>rs_returned := rs_returned s @ [(k, req, n, buf)]\<rparr>)"
proof -
  let ?t = "s\<lparr>rs_returned := rs_returned s @ [(k, req, n, buf)]\<rparr>"
  have "worker_ok e ok ?t w pc = worker_ok e ok s w pc" for w pc by (cases pc) simp_all
  then have "tokens_ok e ok ?t = tokens_ok e ok s" by (simp add: tokens_ok_def)
  moreover have "busy e ?t = busy e s" by (simp add: busy_def)
  moreover have "callers_ok e ?t = callers_ok e s" by (simp add: callers_ok_def)
  ultimately show ?thesis using assms by (simp add: rpc_inv_def)
qed

lemma inv_resume:
  assumes inv: "rpc_inv e ok s" and w: "w < length (rs_workers s)" "rs_workers s ! w = W_spinning i"
    and k: "slot_waiter (cl_slots (rs_client s) ! unat i) = Some k" and pc: "rs_callers s k = C_awaiting j req m"
    and n: "n = response_await_resume j (rs_client s)"
  shows "rpc_inv e ok (set_worker w W_posted (set_caller k (C_resumed j n)
       (s\<lparr>rs_returned := rs_returned s @ [(k, req, n, rs_bufs s k)]\<rparr>)))"
proof -
  have j: "j = i" and ok: "result_ok ok req n (rs_bufs s k)"
    using worker_spun [OF inv w k] pc n by auto
  let ?s = "set_worker w W_posted s"
  have slots: "worker_slots e (rs_workers s ! w) = [i]" using w by simp
  have "rpc_inv e ok (set_caller k (C_resumed j n) ?s)"
    by (rule inv_retire [OF inv_drop_worker(1) [OF inv w(1) slots], where i = i])
      (use inv_drop_worker(2) [OF inv w(1) slots] pc j in simp_all)
  then have "rpc_inv e ok ((set_caller k (C_resumed j n) ?s)\<lparr>rs_returned := rs_returned s @ [(k, req, n, rs_bufs s k)]\<rparr>)"
    using inv_return [OF _ ok, of e "set_caller k (C_resumed j n) ?s" k] by simp
  moreover have "(set_caller k (C_resumed j n) ?s)\<lparr>rs_returned := rs_returned s @ [(k, req, n, rs_bufs s k)]\<rparr> =
     set_worker w W_posted (set_caller k (C_resumed j n) (s\<lparr>rs_returned := rs_returned s @ [(k, req, n, rs_bufs s k)]\<rparr>))"
    by (rule rpc_system.equality) simp_all
  ultimately show ?thesis by (simp only:)
qed

lemma slots_start:
  assumes "unat n < 2 ^ 32" and "cl_free_slots c = mset (map of_nat [0..<unat n])" and "cl_max_inflight c = n"
  shows "slots_ok c (\<lambda>k. C_idle)"
proof (rule slots_okI [OF assms(2,3)])
  have inj: "inj_on (of_nat :: nat \<Rightarrow> u32) {0..<unat n}"
  proof (rule inj_onI)
    fix x y assume "x \<in> {0..<unat n}" "y \<in> {0..<unat n}" and eq: "(of_nat x :: u32) = of_nat y"
    then have "x < 2 ^ 32" "y < 2 ^ 32" using assms(1) by simp_all
    with arg_cong [OF eq, of unat] show "x = y" by (simp add: unat_of_nat)
  qed
  then have "distinct (map of_nat [0..<unat n] :: u32 list)" by (simp add: distinct_map)
  then show "count (mset (map of_nat [0..<unat n])) i \<le> 1" for i :: u32
    by (simp add: distinct_count_atmost_1)
  have mem: "i \<in># mset (map of_nat [0..<unat n]) \<longleftrightarrow> unat i < unat n" for i :: u32
  proof
    assume "i \<in># mset (map of_nat [0..<unat n])"
    then obtain x where "x < unat n" "i = of_nat x" by auto
    then show "unat i < unat n" using assms(1) by (simp add: unat_of_nat)
  next
    assume "unat i < unat n"
    then have "of_nat (unat i) \<in> set (map of_nat [0..<unat n] :: u32 list)" by (simp only: set_map set_upt) (rule imageI, simp)
    then show "i \<in># mset (map of_nat [0..<unat n])" by simp
  qed
  show "unat i < unat n" if "i \<in># mset (map of_nat [0..<unat n])" for i :: u32 using that mem by blast
  show "\<exists>k. held C_idle = Some i" if "unat i < unat n" "i \<notin># mset (map of_nat [0..<unat n])" for i :: u32
    using that mem by blast
qed simp_all

lemma inv_rs_start: "rs_start s \<Longrightarrow> rpc_inv e ok s"
proof (rule rpc_invI)
  assume s: "rs_start s"
  then have wf: "client_wf (rs_client s)" and idle: "rs_callers s = (\<lambda>k. C_idle)" by (simp_all add: rs_start_def)
  show "slots_ok (rs_client s) (rs_callers s)"
    unfolding idle by (rule slots_start [OF _ _ refl]) (use s wf in \<open>simp_all add: rs_start_def client_wf_def\<close>)
  show "count (busy e s) i \<le> 1" for i
    using s by (simp add: rs_start_def busy_def)
qed (simp_all add: rs_start_def callers_ok_def tokens_ok_def)

lemma late_stays: "rpc_step e ok s t \<Longrightarrow> rs_late s \<Longrightarrow> rs_late t"
  by (erule rpc_step.cases) simp_all

text \<open>The invariant holds as long as no send is reported failed whose message may still arrive, or has arrived.\<close>

lemma inv_rpc_step: "rpc_inv e ok s \<Longrightarrow> rpc_step e ok s t \<Longrightarrow> \<not> rs_late t \<Longrightarrow> rpc_inv e ok t"
proof (erule rpc_step.cases, goal_cases)
  case (1 s' k req i c) then show ?case using inv_acquire by blast
next
  case (2 s' k i req v c) then show ?case using inv_prepare by blast
next
  case (3 s' k i req ex c)
  then have "rpc_inv e ok s'" by simp
  from prepare_applies(1) [OF this 3(5)] 3(6) show ?case by simp
next
  case (4 s' k i req v m) then show ?case using inv_post by blast
next
  case (5 s' k i req v) then show ?case using inv_same_client [of e ok s' k i "C_failed i req"] by simp
next
  case (6 s' k i req m) then show ?case using inv_send_lost by blast
next
  case (7 s' k i req m) then show ?case by simp
next
  case (8 s' k i req m) then show ?case using inv_send_done by blast
next
  case (9 m s' r) then show ?case using inv_answer by blast
next
  case (10 r s' w v) then show ?case using inv_deliver by blast
next
  case (11 w s' m i c bufs) then show ?case using inv_handle by blast
next
  case (12 w s' m c bufs) then show ?case using worker_got [of e ok s' w m] by auto
next
  case (13 w s' m ex st) then show ?case using worker_got [of e ok s' w m] by auto
next
  case (14 w s' i k j req m n) then show ?case using inv_resume by blast
next
  case (15 w s' i k) then show ?case using worker_spun [of e ok s' w i k] by blast
next
  case (16 s' k i n) then show ?case using inv_release [of e ok s' k i "rs_failed s'"] by simp
next
  case (17 s' k i req) then show ?case using inv_release [of e ok s' k i "rs_failed s' @ [(k, req, 0, rs_before s' k, rs_bufs s' k)]"] by simp
next
  case (18 w s') then show ?case using inv_recv_fail by blast
qed

section \<open>What holds whatever the transport reports\<close>

text \<open>
  The part of the invariant that no late reply can break: clients keep their shape, and every slot is free or
  belongs to one call.
\<close>

definition rpc_shape :: "rpc_system \<Rightarrow> bool" where
  "rpc_shape s \<longleftrightarrow> client_wf (rs_client s) \<and> length (rs_workers s) = unat (cl_max_inflight (rs_client s)) \<and>
     (\<forall>k. length (rs_bufs s k) < 2 ^ 64) \<and> slots_ok (rs_client s) (rs_callers s) \<and>
     (\<forall>k i req. rs_callers s k = C_acquired i req \<longrightarrow> length req \<le> 256)"

lemma rpc_inv_shape: "rpc_inv e ok s \<Longrightarrow> rpc_shape s"
  unfolding rpc_inv_def rpc_shape_def callers_ok_def by (metis caller_ok.simps(1))

lemma recv_worker_keeps:
  assumes "recv_worker_handle e w nb (c, bufs) = (x, (c', bufs'))"
  shows "cl_free_slots c' = cl_free_slots c" and "cl_max_inflight c' = cl_max_inflight c"
    and "length (bufs' k) = length (bufs k)"
  using assms
  by (auto simp: recv_worker_handle_def se_defs Let_def mem_write_length split: sum.splits if_splits)

lemma deliver_wf:
  assumes "client_wf c" and "w < unat (cl_max_inflight c)" and "recv_view (of_nat w) c = Inr v" and "length r \<le> unat (view_length v)"
  shows "client_wf (c\<lparr>cl_recv_pool := write_at (unat (view_addr v - cl_recv_base c)) r (cl_recv_pool c)\<rparr>)"
proof -
  have addr: "unat (view_addr v - cl_recv_base c) = w * 4112" and r: "length r \<le> 4112"
    using recv_view_apply [OF assms(1,2)] assms(3,4) by (auto simp: rpc_sizes)
  have "pool_within 4112 w (cl_recv_pool c)" by (rule slot_within(2) [OF assms(1,2)])
  then have "length (write_at (w * 4112) r (cl_recv_pool c)) = length (cl_recv_pool c)"
    using r by (simp add: pool_within_def)
  then show ?thesis using assms(1) by (simp add: addr client_wf_def)
qed

lemma shape_handled:
  assumes "rpc_shape s" and "recv_worker_handle e i nb (rs_client s, rs_bufs s) = (x, (c, bufs))"
  shows "rpc_shape (set_worker w pc (s\<lparr>rs_client := c, rs_bufs := bufs\<rparr>))"
proof -
  have "client_wf c" using recv_worker_wf [of "rs_client s" e i nb "rs_bufs s"] assms by (simp add: rpc_shape_def)
  moreover have "slots_ok c (rs_callers s)"
    by (rule slots_same [of "rs_client s" "rs_callers s"]) (use assms recv_worker_keeps [OF assms(2)] in \<open>simp_all add: rpc_shape_def\<close>)
  ultimately show ?thesis using assms(1) recv_worker_keeps [OF assms(2)] by (simp add: rpc_shape_def)
qed

lemma shape_caller:
  assumes "rpc_shape s" and "held (rs_callers s k) = Some i" and "held pc = Some i" and "\<And>i req. pc \<noteq> C_acquired i req"
  shows "rpc_shape (set_caller k pc s)"
proof -
  have "slots_ok (rs_client s) ((rs_callers s)(k := pc))"
    by (rule slots_same [of "rs_client s" "rs_callers s"]) (use assms in \<open>auto simp: rpc_shape_def\<close>)
  with assms(1,4) show ?thesis by (auto simp: rpc_shape_def)
qed

lemma shape_client:
  assumes "rpc_shape s" and "client_wf c" and "cl_free_slots c = cl_free_slots (rs_client s)" and "cl_max_inflight c = cl_max_inflight (rs_client s)"
  shows "rpc_shape (s\<lparr>rs_client := c\<rparr>)"
proof -
  have "slots_ok c (rs_callers s)"
    by (rule slots_same [of "rs_client s" "rs_callers s"]) (use assms in \<open>auto simp: rpc_shape_def\<close>)
  with assms show ?thesis by (simp add: rpc_shape_def)
qed

text \<open>The parts of the state that the shape does not speak of.\<close>

lemma shape_other [simp]:
  "rpc_shape (s\<lparr>rs_to_server := A\<rparr>) = rpc_shape s" "rpc_shape (s\<lparr>rs_to_client := B\<rparr>) = rpc_shape s"
  "rpc_shape (s\<lparr>rs_returned := R\<rparr>) = rpc_shape s" "rpc_shape (s\<lparr>rs_failed := F\<rparr>) = rpc_shape s"
  "rpc_shape (s\<lparr>rs_before := P\<rparr>) = rpc_shape s" "rpc_shape (s\<lparr>rs_late := l\<rparr>) = rpc_shape s"
  "rpc_shape (s\<lparr>rs_fault := f\<rparr>) = rpc_shape s"
  "length W = length (rs_workers s) \<Longrightarrow> rpc_shape (s\<lparr>rs_workers := W\<rparr>) = rpc_shape s"
  by (simp_all add: rpc_shape_def)

lemma shape_prepare:
  assumes s: "rpc_shape s" and pc: "rs_callers s k = C_acquired i req"
  shows "call_prepare e k n req i (rs_client s) =
     (Inr (message_view (length req) i (rs_client s)), prepared e k n req i (rs_client s))"
    and "rpc_shape (set_caller k (C_prepared i req v) (s\<lparr>rs_client := prepared e k n req i (rs_client s)\<rparr>))"
proof -
  have wf: "client_wf (rs_client s)" and req: "length req \<le> 256" and ok: "slots_ok (rs_client s) (rs_callers s)"
    using s pc by (simp_all add: rpc_shape_def)
  have h: "held (rs_callers s k) = Some i" using pc by simp
  note fit = short_fits [OF wf slots_okD(2) [OF ok h] req]
  show "call_prepare e k n req i (rs_client s) =
     (Inr (message_view (length req) i (rs_client s)), prepared e k n req i (rs_client s))"
    by (rule call_prepare_apply [OF wf slots_okD(2) [OF ok h] fit])
  have "rpc_shape (s\<lparr>rs_client := prepared e k n req i (rs_client s)\<rparr>)"
    by (rule shape_client [OF s client_wf_prepared [OF wf fit]]) (simp_all add: prepared_def)
  from shape_caller [OF this, of k i "C_prepared i req v"] h
  show "rpc_shape (set_caller k (C_prepared i req v) (s\<lparr>rs_client := prepared e k n req i (rs_client s)\<rparr>))" by simp
qed

lemma shape_acquire:
  assumes s: "rpc_shape s" and "rs_callers s k = C_idle" and "length req \<le> 256" and deq: "try_dequeue i (rs_client s) = Some c"
  shows "rpc_shape (set_caller k (C_acquired i req) (s\<lparr>rs_client := c, rs_before := B\<rparr>))"
proof -
  from deq have i: "i \<in># cl_free_slots (rs_client s)" and c: "c = (rs_client s)\<lparr>cl_free_slots := cl_free_slots (rs_client s) - {#i#}\<rparr>"
    by (simp_all add: try_dequeue_def split: if_splits)
  have "slots_ok c ((rs_callers s)(k := C_acquired i req))"
    unfolding c by (rule slots_acquire) (use s assms(2) i in \<open>simp_all add: rpc_shape_def\<close>)
  then show ?thesis using s assms(3) by (auto simp: rpc_shape_def c)
qed

lemma shape_release:
  assumes s: "rpc_shape s" and h: "held (rs_callers s k) = Some i"
  shows "rpc_shape (set_caller k C_idle (s\<lparr>rs_client := call_release i (rs_client s), rs_failed := F\<rparr>))"
proof -
  have "slots_ok (call_release i (rs_client s)) ((rs_callers s)(k := C_idle))"
    by (rule slots_release) (use s h in \<open>simp_all add: rpc_shape_def\<close>)
  then show ?thesis using s by (auto simp: rpc_shape_def call_release_def client_wf_def)
qed

lemma shape_step: "rpc_shape s \<Longrightarrow> rpc_step e ok s t \<Longrightarrow> rpc_shape t"
proof (erule rpc_step.cases, goal_cases)
  case (1 s' k req i c) then show ?case using shape_acquire [of s' k req i c] by simp
next
  case (2 s' k i req v c)
  then show ?case using shape_prepare [of s' k i req e "of_nat (length (rs_bufs s' k))"] by simp
next
  case (3 s' k i req ex c) then show ?case by simp
next
  case (4 s' k i req v m) then show ?case using shape_caller [of "s'\<lparr>rs_to_server := add_mset m (rs_to_server s')\<rparr>" k i "C_sending i req m"] by simp
next
  case (5 s' k i req v) then show ?case using shape_caller [of s' k i "C_failed i req"] by simp
next
  case (6 s' k i req m) then show ?case using shape_caller [of "s'\<lparr>rs_to_server := rs_to_server s' - {#m#}\<rparr>" k i "C_failed i req"] by simp
next
  case (7 s' k i req m) then show ?case using shape_caller [of "s'\<lparr>rs_late := True\<rparr>" k i "C_failed i req"] by simp
next
  case (8 s' k i req m)
  have "rpc_shape (s'\<lparr>rs_client := response_await_suspend i k (rs_client s')\<rparr>)"
    by (rule shape_client) (use 8 in \<open>simp_all add: response_await_suspend_def rpc_shape_def\<close>)
  from shape_caller [OF this, of k i "C_awaiting i req m"] 8 show ?case by simp
next
  case (9 m s' r) then show ?case by simp
next
  case (10 r s' w v)
  have "rpc_shape (s'\<lparr>rs_client := (rs_client s')\<lparr>cl_recv_pool := write_at (unat (view_addr v - cl_recv_base (rs_client s'))) r
         (cl_recv_pool (rs_client s'))\<rparr>\<rparr>)"
    by (rule shape_client, use 10 in simp, rule deliver_wf [OF _ _ 10(7,8)]) (use 10 in \<open>simp_all add: rpc_shape_def\<close>)
  then show ?case using 10 by (simp add: rpc_shape_def)
next
  case (11 w s' m i c bufs) then show ?case using shape_handled [of s' e "of_nat w" _ _ c bufs] by blast
next
  case (12 w s' m c bufs) then show ?case using shape_handled [of s' e "of_nat w" _ _ c bufs] by blast
next
  case (13 w s' m ex st) then show ?case by simp
next
  case (14 w s' i k j req m n)
  then show ?case using shape_caller [of "s'\<lparr>rs_returned := rs_returned s' @ [(k, req, n, rs_bufs s' k)]\<rparr>" k j "C_resumed j n"] by simp
next
  case (15 w s' i k) then show ?case by simp
next
  case (16 s' k i n) then show ?case using shape_release [of s' k i "rs_failed s'"] by simp
next
  case (17 s' k i req) then show ?case using shape_release [of s' k i] by simp
next
  case (18 w s') then show ?case by simp
qed

section \<open>The buffers of calls without an answer\<close>

text \<open>Until a worker has handled the answer of a call, the response buffer is what it was when the call began.\<close>

definition unfilled :: "rpc_system \<Rightarrow> bool" where
  "unfilled s \<longleftrightarrow> (\<forall>k i. held (rs_callers s k) = Some i \<longrightarrow> (\<forall>n. rs_callers s k \<noteq> C_resumed i n) \<longrightarrow>
       W_spinning i \<notin> set (rs_workers s) \<longrightarrow> rs_bufs s k = rs_before s k) \<and>
     (\<forall>(k, req, n, before, buf) \<in> set (rs_failed s). n = 0 \<and> buf = before)"

lemma unfilledD:
  assumes "unfilled s" and "held (rs_callers s k) = Some i" and "\<And>n. rs_callers s k \<noteq> C_resumed i n" and "W_spinning i \<notin> set (rs_workers s)"
  shows "rs_bufs s k = rs_before s k"
  using assms unfolding unfilled_def by blast

text \<open>A step of one caller or worker that writes no buffer.\<close>

lemma unfilled_frame:
  assumes "unfilled s" and "rs_bufs t = rs_bufs s" and "rs_before t = rs_before s" and "rs_failed t = rs_failed s"
    and "\<And>k i n. held (rs_callers t k) = Some i \<Longrightarrow> (\<And>n. rs_callers t k \<noteq> C_resumed i n) \<Longrightarrow>
       held (rs_callers s k) = Some i \<and> (\<forall>n. rs_callers s k \<noteq> C_resumed i n) \<and>
       (W_spinning i \<notin> set (rs_workers t) \<longrightarrow> W_spinning i \<notin> set (rs_workers s))"
  shows "unfilled t"
  using assms(1,5) unfolding unfilled_def assms(2-4) by blast

lemma unfilled_caller:
  assumes "unfilled s" and "rs_callers t = (rs_callers s)(k := pc)" and "held pc = held (rs_callers s k)"
    and "\<And>i n. rs_callers s k \<noteq> C_resumed i n"
    and "rs_bufs t = rs_bufs s" "rs_before t = rs_before s" "rs_failed t = rs_failed s" "rs_workers t = rs_workers s"
  shows "unfilled t"
  by (rule unfilled_frame [OF assms(1,5-7)]) (use assms in \<open>auto split: if_splits\<close>)

lemma spinning_other:
  assumes "w < length ws" and "ws ! w \<noteq> x" and "x \<notin> set (ws[w := pc])"
  shows "x \<notin> set ws"
proof
  assume "x \<in> set ws"
  then obtain j where j: "j < length ws" "ws ! j = x" by (auto simp: in_set_conv_nth)
  with assms(2) have "j \<noteq> w" by blast
  with j have "x = ws[w := pc] ! j" "j < length (ws[w := pc])" by simp_all
  with assms(3) show False by (metis nth_mem)
qed

lemma spinning_busy: "W_spinning i \<in> set (rs_workers s) \<Longrightarrow> i \<in># busy e s"
  by (auto dest!: in_worker intro: worker_slot_busy)

lemma unfilled_handle:
  assumes inv: "rpc_inv e ok s" and u: "unfilled s" and w: "w < length (rs_workers s)" "rs_workers s ! w = W_got r"
    and run: "recv_worker_handle e (of_nat w) (of_nat (length r)) (rs_client s, rs_bufs s) = (Inr (Recv_resume i), (c, bufs))"
  shows "unfilled (set_worker w (W_spinning i) (s\<lparr>rs_client := c, rs_bufs := bufs\<rparr>))"
proof -
  from worker_got [OF inv w] obtain k i' req m d n where f': "flying (rs_callers s k) = Some (i', req, m)"
    and run': "recv_worker_handle e (of_nat w) (of_nat (length r)) (rs_client s, rs_bufs s) =
       (Inr (Recv_resume i'), (update_slot i' (\<lambda>sl. sl\<lparr>slot_actual_len := n\<rparr>) (rs_client s),
          (rs_bufs s)(k := write_at 0 (take (unat n) d) (rs_bufs s k))))" by blast
  have f: "flying (rs_callers s k) = Some (i, req, m)"
    and bufs: "bufs = (rs_bufs s)(k := write_at 0 (take (unat n) d) (rs_bufs s k))" using f' run run' by simp_all
  let ?t = "set_worker w (W_spinning i) (s\<lparr>rs_client := c, rs_bufs := bufs\<rparr>)"
  have "rs_bufs ?t k' = rs_before ?t k'"
    if h: "held (rs_callers ?t k') = Some j" "\<And>n. rs_callers ?t k' \<noteq> C_resumed j n" "W_spinning j \<notin> set (rs_workers ?t)" for k' j
  proof -
    have "W_spinning i \<in> set (rs_workers ?t)" using w(1) by (simp add: set_update_memI)
    then have "j \<noteq> i" using h(3) by blast
    then have "k' \<noteq> k" using flying_held [OF f] h(1) by auto
    moreover have "W_spinning j \<notin> set (rs_workers s)" by (rule spinning_other [OF w(1), of _ "W_spinning i"]) (use h(3) w(2) in simp_all)
    ultimately show ?thesis using unfilledD [OF u, of k' j] h by (simp add: bufs)
  qed
  moreover have "\<forall>(k, req, n, before, buf) \<in> set (rs_failed ?t). n = 0 \<and> buf = before" using u by (simp add: unfilled_def)
  ultimately show ?thesis unfolding unfilled_def by blast
qed

lemma unfilled_step: "rpc_inv e ok s \<Longrightarrow> unfilled s \<Longrightarrow> rpc_step e ok s t \<Longrightarrow> \<not> rs_late t \<Longrightarrow> unfilled t"
proof (erule rpc_step.cases, goal_cases)
  case (1 s' k req i c)
  then have "unfilled s'" by simp
  then show ?case using 1(4) unfolding 1(5) by (auto simp: unfilled_def)
next
  case (2 s' k i req v c) then show ?case by (intro unfilled_caller [of s' t k "C_prepared i req v"]) simp_all
next
  case (3 s' k i req ex c) then show ?case by (auto intro: unfilled_frame [of s])
next
  case (4 s' k i req v m) then show ?case by (intro unfilled_caller [of s' t k "C_sending i req m"]) simp_all
next
  case (5 s' k i req v) then show ?case by (intro unfilled_caller [of s' t k "C_failed i req"]) simp_all
next
  case (6 s' k i req m) then show ?case by (intro unfilled_caller [of s' t k "C_failed i req"]) simp_all
next
  case (7 s' k i req m) then show ?case by simp
next
  case (8 s' k i req m) then show ?case by (intro unfilled_caller [of s' t k "C_awaiting i req m"]) simp_all
next
  case (9 m s' r) then show ?case by (auto intro: unfilled_frame [of s])
next
  case (10 r s' w v)
  then show ?case using spinning_other [of w "rs_workers s'" _ "W_got r"] by (auto intro!: unfilled_frame [of s])
next
  case (11 w s' m i c bufs) then show ?case using unfilled_handle by blast
next
  case (12 w s' m c bufs) then show ?case using worker_got [of e ok s' w m] by auto
next
  case (13 w s' m ex st) then show ?case using worker_got [of e ok s' w m] by auto
next
  case (14 w s' i k j req m n)
  then have inv: "rpc_inv e ok s'" and u: "unfilled s'" by simp_all
  have slots: "slots_ok (rs_client s') (rs_callers s')" using inv by (simp add: rpc_inv_def)
  have j: "j = i" using worker_spun [OF inv 14(6-8)] 14(9) by auto
  have "held (rs_callers s' k) = Some i" using 14(9) j by simp
  then have other: "W_spinning i' \<notin> set (rs_workers s')"
    if "held (rs_callers s' k') = Some i'" "k' \<noteq> k" "W_spinning i' \<notin> set ((rs_workers s')[w := W_posted])" for k' i'
    using spinning_other [OF 14(6) _ that(3)] slots_okD(4) [OF slots, of k i k'] that(1,2) 14(7) by auto
  show ?case unfolding 14(5)
    by (rule unfilled_frame [OF u]) (auto simp: j dest: other split: if_splits)
next
  case (15 w s' i k) then show ?case by (auto intro: unfilled_frame [of s])
next
  case (16 s' k i n) then show ?case by (auto intro: unfilled_frame [of s] split: if_splits)
next
  case (17 s' k i req)
  then have inv: "rpc_inv e ok s'" and u: "unfilled s'" by simp_all
  have "i \<notin># busy e s'" by (rule quiet_slot [OF inv, of k]) (use 17(6) in simp_all)
  then have "rs_bufs s' k = rs_before s' k"
    using unfilledD [OF u, of k i] 17(6) spinning_busy [of i s' e] by auto
  then show ?case using u unfolding 17(5) by (auto simp: unfilled_def split: if_splits)
next
  case (18 w s')
  then show ?case using spinning_other [of w "rs_workers s'" _ "W_ended"] by (auto intro!: unfilled_frame [of s])
qed
section \<open>The two invariants together\<close>

text \<open>The shape holds in every run; the rest in the runs without a late failure, in which it is as strong as it can be.\<close>

definition rpc_safe :: "endian \<Rightarrow> (bytes \<Rightarrow> bytes \<Rightarrow> bool) \<Rightarrow> rpc_system \<Rightarrow> bool" where
  "rpc_safe e ok s \<longleftrightarrow> rpc_shape s \<and> (\<not> rs_late s \<longrightarrow> rpc_inv e ok s \<and> unfilled s)"

lemma rpc_safe_start: "rs_start s \<Longrightarrow> rpc_safe e ok s"
  using inv_rs_start [of s e ok] rpc_inv_shape [of e ok s] by (auto simp: rpc_safe_def rs_start_def unfilled_def)

lemma rpc_safe_step: "rpc_safe e ok s \<Longrightarrow> rpc_step e ok s t \<Longrightarrow> rpc_safe e ok t"
  using shape_step [of s e ok t] inv_rpc_step [of e ok s t] unfilled_step [of e ok s t] late_stays [of e ok s t]
  unfolding rpc_safe_def by blast

interpretation rpc: transition_system rs_start "rpc_step e ok" "rpc_safe e ok" for e ok
  by unfold_locales (rule rpc_safe_start, assumption, rule rpc_safe_step)

lemma reach_shape: "reach rs_start (rpc_step e ok) s \<Longrightarrow> rpc_shape s"
  using rpc.reach_inv unfolding rpc_safe_def by blast

lemma reach_timely: "reach rs_start (rpc_step e ok) s \<Longrightarrow> \<not> rs_late s \<Longrightarrow> rpc_inv e ok s"
  using rpc.reach_inv unfolding rpc_safe_def by blast

lemma reach_unfilled: "reach rs_start (rpc_step e ok) s \<Longrightarrow> \<not> rs_late s \<Longrightarrow> unfilled s"
  using rpc.reach_inv unfolding rpc_safe_def by blast

lemma steps_timely: "(rpc_step e ok)\<^sup>*\<^sup>* s t \<Longrightarrow> rpc_inv e ok s \<Longrightarrow> \<not> rs_late t \<Longrightarrow> rpc_inv e ok t"
  by (induction rule: rtranclp_induct) (auto intro: inv_rpc_step dest: late_stays)

section \<open>A run\<close>

lemma call_posts:
  assumes s: "rpc_shape s" and idle: "rs_callers s k = C_idle" and req: "length req \<le> 256"
    and i: "i \<in># cl_free_slots (rs_client s)"
  shows "\<exists>t m. (rpc_step e ok)\<^sup>*\<^sup>* s t \<and> rs_callers t = (rs_callers s)(k := C_sending i req m) \<and> m \<in># rs_to_server t \<and>
     rs_workers t = rs_workers s \<and> rs_returned t = rs_returned s \<and> rs_failed t = rs_failed s \<and> rs_late t = rs_late s \<and>
     rs_fault t = rs_fault s \<and> rs_bufs t = rs_bufs s \<and>
     msg_id e m = next_req_id i (rs_client s) \<and> cl_global_seq (rs_client t) = cl_global_seq (rs_client s) + 1 \<and>
     slot_actual_len (cl_slots (rs_client t) ! unat i) = slot_actual_len (cl_slots (rs_client s) ! unat i)"
proof -
  let ?s1 = "set_caller k (C_acquired i req) (s\<lparr>rs_client := (rs_client s)\<lparr>cl_free_slots := cl_free_slots (rs_client s) - {#i#}\<rparr>,
     rs_before := (rs_before s)(k := rs_bufs s k)\<rparr>)"
  have st1: "rpc_step e ok s ?s1"
    by (rule rpc_step.acquire [OF idle req]) (simp add: try_dequeue_def i)
  note s1 = shape_step [OF s st1]
  have pc1: "rs_callers ?s1 k = C_acquired i req" by simp
  let ?v = "message_view (length req) i (rs_client ?s1)" and ?n = "of_nat (length (rs_bufs ?s1 k)) :: size_t"
  let ?s2 = "set_caller k (C_prepared i req ?v) (?s1\<lparr>rs_client := prepared e k ?n req i (rs_client ?s1)\<rparr>)"
  have st2: "rpc_step e ok ?s1 ?s2"
    by (rule rpc_step.prepare [OF pc1]) (rule shape_prepare(1) [OF s1 pc1])
  have pc2: "rs_callers ?s2 k = C_prepared i req ?v" by simp
  let ?m = "view_bytes (cl_send_base (rs_client ?s2)) (cl_send_pool (rs_client ?s2)) ?v"
  let ?s3 = "set_caller k (C_sending i req ?m) (?s2\<lparr>rs_to_server := add_mset ?m (rs_to_server ?s2)\<rparr>)"
  have st3: "rpc_step e ok ?s2 ?s3" by (rule rpc_step.post [OF pc2 refl])
  have max: "unat i < unat (cl_max_inflight (rs_client s))"
    using s i slots_okD(6) [of "rs_client s" "rs_callers s" i] by (simp add: rpc_shape_def)
  then have len: "unat i < length (cl_slots (rs_client s))" using s by (simp add: rpc_shape_def wf_slots)
  have id: "msg_id e ?m = next_req_id i (rs_client s)"
  proof -
    have wf: "client_wf (rs_client ?s1)" using s1 by (simp add: rpc_shape_def)
    from prepared_message [OF wf _ req, of i e k ?n] max obtain pad where "length pad = 4"
      and "bytes_at 0 (16 + length req) (pool_part 272 (unat i) (cl_send_pool (prepared e k ?n req i (rs_client ?s1)))) =
        rpc_message e (next_req_id i (rs_client ?s1)) (of_nat (length req)) pad req" by auto
    moreover have "cl_send_base (prepared e k ?n req i (rs_client ?s1)) = cl_send_base (rs_client ?s1)" by (simp add: prepared_def)
    ultimately show ?thesis using view_bytes_part [OF req, of "rs_client ?s1" _ i] by simp
  qed
  define m t where "m = ?m" and "t = ?s3"
  have "(rpc_step e ok)\<^sup>*\<^sup>* s t"
    using st1 st2 st3 unfolding t_def by (meson converse_rtranclp_into_rtranclp r_into_rtranclp)
  moreover have "msg_id e m = next_req_id i (rs_client s)" unfolding m_def by (rule id)
  moreover have "cl_global_seq (rs_client t) = cl_global_seq (rs_client s) + 1"
    by (simp add: t_def prepared_def)
  moreover have "slot_actual_len (cl_slots (rs_client t) ! unat i) = slot_actual_len (cl_slots (rs_client s) ! unat i)"
    using len by (simp add: t_def prepared_def slot_same)
  moreover have "rs_callers t = (rs_callers s)(k := C_sending i req m)" "m \<in># rs_to_server t"
    by (simp_all add: t_def m_def)
  moreover have "rs_workers t = rs_workers s" "rs_returned t = rs_returned s" "rs_failed t = rs_failed s"
    "rs_late t = rs_late s" "rs_fault t = rs_fault s" "rs_bufs t = rs_bufs s" by (simp_all add: t_def)
  ultimately show ?thesis by (intro exI [of _ t] exI [of _ m]) (simp only: simp_thms)
qed

lemma answer_got:
  assumes inv: "rpc_inv e ok s" and pc: "rs_callers s k = C_sending i req m" and m: "m \<in># rs_to_server s"
    and d: "ok req d" "d \<noteq> []" "length d \<le> 4096" and w: "w < length (rs_workers s)" "rs_workers s ! w = W_posted"
    and timely: "\<not> rs_late s"
  shows "\<exists>t r mem. (rpc_step e ok)\<^sup>*\<^sup>* s t \<and> rpc_inv e ok t \<and> answers e ok m r \<and>
     t = set_worker w (W_got r) (s\<lparr>rs_to_server := rs_to_server s - {#m#}, rs_client := (rs_client s)\<lparr>cl_recv_pool := mem\<rparr>\<rparr>)"
proof -
  let ?r = "rpc_message e (msg_id e m) (of_nat (length d)) [0, 0, 0, 0] d"
  have fl: "flying (rs_callers s k) = Some (i, req, m)" using pc by simp
  have callers: "callers_ok e s" using inv by (simp add: rpc_inv_def)
  have "msg_payload m = req" using flying_ok [OF callers fl] request_of_payload by blast
  then have ans: "answers e ok m ?r" unfolding answers_def
    using d by (intro exI [of _ "[0, 0, 0, 0]"] exI [of _ d]) simp
  let ?s1 = "s\<lparr>rs_to_server := rs_to_server s - {#m#}, rs_to_client := add_mset ?r (rs_to_client s)\<rparr>"
  have st1: "rpc_step e ok s ?s1" by (rule rpc_step.answer [OF m ans])
  have inv1: "rpc_inv e ok ?s1" by (rule inv_rpc_step [OF inv st1]) (simp add: timely)
  have max: "w < unat (cl_max_inflight (rs_client ?s1))" using inv w by (simp add: rpc_inv_def)
  obtain v where v: "recv_view (of_nat w) (rs_client ?s1) = Inr v" "view_length v = kRecvBufferSize"
    using recv_view_apply(1) [OF inv_wf [OF inv1] max] by auto
  let ?mem = "write_at (unat (view_addr v - cl_recv_base (rs_client ?s1))) ?r (cl_recv_pool (rs_client ?s1))"
  let ?s2 = "set_worker w (W_got ?r) (?s1\<lparr>rs_to_client := rs_to_client ?s1 - {#?r#},
       rs_client := (rs_client ?s1)\<lparr>cl_recv_pool := ?mem\<rparr>\<rparr>)"
  have st2: "rpc_step e ok ?s1 ?s2"
    by (rule rpc_step.deliver [OF _ _ _ v(1)]) (use w d v(2) in \<open>simp_all add: rpc_sizes\<close>)
  have "rpc_inv e ok ?s2" by (rule inv_rpc_step [OF inv1 st2]) (simp add: timely)
  moreover have "(rpc_step e ok)\<^sup>*\<^sup>* s ?s2" using st1 st2 by (meson converse_rtranclp_into_rtranclp r_into_rtranclp)
  moreover have "?s2 = set_worker w (W_got ?r) (s\<lparr>rs_to_server := rs_to_server s - {#m#},
       rs_client := (rs_client s)\<lparr>cl_recv_pool := ?mem\<rparr>\<rparr>)"
    by (rule rpc_system.equality) simp_all
  ultimately show ?thesis using ans by metis
qed

lemma answer_arrives:
  assumes inv: "rpc_inv e ok s" and pc: "rs_callers s k = C_sending i req m" and m: "m \<in># rs_to_server s"
    and d: "ok req d" "d \<noteq> []" "length d \<le> 4096" and w: "w < length (rs_workers s)" "rs_workers s ! w = W_posted"
    and timely: "\<not> rs_late s"
  shows "\<exists>t. (rpc_step e ok)\<^sup>*\<^sup>* s t \<and> rs_callers t = rs_callers s \<and> length (rs_workers t) = length (rs_workers s) \<and>
     rs_workers t ! w = W_spinning i \<and> rs_returned t = rs_returned s \<and> rs_failed t = rs_failed s \<and> \<not> rs_late t \<and>
     rs_fault t = rs_fault s \<and> (\<forall>k'. k' \<noteq> k \<longrightarrow> rs_bufs t k' = rs_bufs s k')"
proof -
  obtain s2 r mem where run2: "(rpc_step e ok)\<^sup>*\<^sup>* s s2" and inv2: "rpc_inv e ok s2" and ans: "answers e ok m r"
    and s2: "s2 = set_worker w (W_got r) (s\<lparr>rs_to_server := rs_to_server s - {#m#},
       rs_client := (rs_client s)\<lparr>cl_recv_pool := mem\<rparr>\<rparr>)"
    using answer_got [OF assms] by blast
  have fl: "flying (rs_callers s k) = Some (i, req, m)" using pc by simp
  have callers: "callers_ok e s" using inv by (simp add: rpc_inv_def)
  have w2: "w < length (rs_workers s2)" "rs_workers s2 ! w = W_got r" using w by (simp_all add: s2)
  have id: "decode_slot_idx (msg_id e r) = i" using flying_ok [OF callers fl] answers_id [OF ans] by simp
  from worker_got [OF inv2 w2] obtain k' i' req' m' d' n where f': "flying (rs_callers s2 k') = Some (i', req', m')"
    and i': "decode_slot_idx (msg_id e r) = i'"
    and run': "recv_worker_handle e (of_nat w) (of_nat (length r)) (rs_client s2, rs_bufs s2) =
       (Inr (Recv_resume i'), (update_slot i' (\<lambda>sl. sl\<lparr>slot_actual_len := n\<rparr>) (rs_client s2),
          (rs_bufs s2)(k' := write_at 0 (take (unat n) d') (rs_bufs s2 k'))))" by blast
  have f2: "flying (rs_callers s k') = Some (i, req', m')" using f' id i' by (simp add: s2)
  have k': "k' = k" by (rule flying_slot_inject [OF _ fl flying_held [OF f2]]) (use inv in \<open>simp add: rpc_inv_def\<close>)
  define c bufs where "c = update_slot i' (\<lambda>sl. sl\<lparr>slot_actual_len := n\<rparr>) (rs_client s2)"
    and "bufs = (rs_bufs s2)(k' := write_at 0 (take (unat n) d') (rs_bufs s2 k'))"
  have run: "recv_worker_handle e (of_nat w) (of_nat (length r)) (rs_client s2, rs_bufs s2) =
      (Inr (Recv_resume i), (c, bufs))" using run' id unfolding c_def bufs_def i' by simp
  let ?s3 = "set_worker w (W_spinning i) (s2\<lparr>rs_client := c, rs_bufs := bufs\<rparr>)"
  have "rpc_step e ok s2 ?s3" by (rule rpc_step.handle [OF w2 run])
  with run2 have "(rpc_step e ok)\<^sup>*\<^sup>* s ?s3" by (rule rtranclp.rtrancl_into_rtrancl)
  then show ?thesis using w timely k' by (intro exI [of _ ?s3]) (simp add: bufs_def s2)
qed

lemma call_completes:
  assumes "reach rs_start (rpc_step e ok) s" and "rs_callers s k = C_idle" and "length req \<le> 256"
    and "i \<in># cl_free_slots (rs_client s)" and "w < length (rs_workers s)" and "rs_workers s ! w = W_posted"
    and "ok req d" and "d \<noteq> []" and "length d \<le> 4096" and timely: "\<not> rs_late s"
  shows "\<exists>t n buf. (rpc_step e ok)\<^sup>*\<^sup>* s t \<and> rs_returned t = rs_returned s @ [(k, req, n, buf)] \<and>
     rs_callers t = (rs_callers s)(k := C_resumed i n) \<and> \<not> rs_late t"
proof -
  note inv = reach_timely [OF assms(1) timely]
  obtain s1 m where r1: "(rpc_step e ok)\<^sup>*\<^sup>* s s1" and s1: "rs_callers s1 = (rs_callers s)(k := C_sending i req m)"
    "m \<in># rs_to_server s1" "rs_workers s1 = rs_workers s" "rs_returned s1 = rs_returned s" "\<not> rs_late s1"
    using call_posts [OF reach_shape [OF assms(1)] assms(2-4)] timely by metis
  have inv1: "rpc_inv e ok s1" by (rule steps_timely [OF r1 inv s1(5)])
  have pc1: "rs_callers s1 k = C_sending i req m" and w1: "w < length (rs_workers s1)" "rs_workers s1 ! w = W_posted"
    using s1 assms(5,6) by simp_all
  obtain s2 where r2: "(rpc_step e ok)\<^sup>*\<^sup>* s1 s2" and s2: "rs_callers s2 = rs_callers s1"
    "length (rs_workers s2) = length (rs_workers s1)" "rs_workers s2 ! w = W_spinning i" "rs_returned s2 = rs_returned s1" "\<not> rs_late s2"
    using answer_arrives [OF inv1 pc1 s1(2), of d w] assms(7-9) w1 s1(5) by metis
  have inv2: "rpc_inv e ok s2" by (rule steps_timely [OF r2 inv1 s2(5)])
  have pc2: "rs_callers s2 k = C_sending i req m" using s1 s2 by simp
  let ?s3 = "set_caller k (C_awaiting i req m) (s2\<lparr>rs_client := response_await_suspend i k (rs_client s2)\<rparr>)"
  have st3: "rpc_step e ok s2 ?s3" by (rule rpc_step.send_done [OF pc2])
  have "unat i < unat (cl_max_inflight (rs_client s2))" by (rule caller_of(2) [OF inv2, of k]) (simp add: pc2)
  then have wait: "slot_waiter (cl_slots (rs_client ?s3) ! unat i) = Some k"
    using wf_slots [OF inv_wf [OF inv2]] by (simp add: response_await_suspend_def slot_same)
  let ?n = "response_await_resume i (rs_client ?s3)"
  let ?t = "set_worker w W_posted (set_caller k (C_resumed i ?n)
       (?s3\<lparr>rs_returned := rs_returned ?s3 @ [(k, req, ?n, rs_bufs ?s3 k)]\<rparr>))"
  have st4: "rpc_step e ok ?s3 ?t"
    by (rule rpc_step.resume [where m = m, OF _ _ wait _ refl]) (use w1 s1 s2 in simp_all)
  have "(rpc_step e ok)\<^sup>*\<^sup>* s ?t" using r1 r2 st3 st4 by (meson rtranclp.rtrancl_into_rtrancl rtranclp_trans)
  then show ?thesis using s1 s2 by (intro exI [of _ ?t] exI [of _ ?n] exI [of _ "rs_bufs ?s3 k"]) simp
qed

lemma reach_more: "reach start step s \<Longrightarrow> step\<^sup>*\<^sup>* s t \<Longrightarrow> reach start step t"
  by (rotate_tac 1, induction rule: rtranclp_induct) (auto intro: reach.reach_step)

definition sample_rpc :: rpc_system where
  "sample_rpc = \<lparr>rs_client = sample_client, rs_bufs = (\<lambda>k. replicate 8 0), rs_callers = (\<lambda>k. C_idle),
     rs_workers = [W_posted, W_posted], rs_to_server = {#}, rs_to_client = {#}, rs_returned = [], rs_failed = [],
     rs_before = (\<lambda>k. []), rs_late = False, rs_fault = False\<rparr>"

lemma sample_rpc_start: "rs_start sample_rpc"
proof -
  have max: "unat (cl_max_inflight sample_client) = 2" by (simp add: sample_client_def)
  have "cl_free_slots sample_client = mset (map of_nat [0..<2])" by (simp add: sample_client_def upt_rec)
  moreover have "[W_posted, W_posted] = replicate 2 W_posted" by (simp add: numeral_2_eq_2)
  ultimately show ?thesis using sample_client_wf by (simp add: rs_start_def sample_rpc_def max)
qed

section \<open>Properties\<close>

text \<open>
  C5: however callers, workers, the transport and the peer interleave, as long as no send is reported failed whose
  message arrived or may still arrive: no assertion fails, \<open>std::terminate\<close> is never called, no coroutine is
  resumed that does not wait; every call that returned after a response got a prefix, as long as its buffer
  allows, of an answer to its own request; and every call whose send failed returned 0 and left its buffer as it was.
\<close>

theorem rpc_calls_get_their_answers:
  assumes "reach rs_start (rpc_step e ok) s" and "\<not> rs_late s"
  shows "\<not> rs_fault s \<and>
     (\<forall>(k, req, n, buf) \<in> set (rs_returned s).
        \<exists>d. ok req d \<and> d \<noteq> [] \<and> unat n = min (length d) (length buf) \<and> take (unat n) buf = take (unat n) d) \<and>
     (\<forall>(k, req, n, before, buf) \<in> set (rs_failed s). n = 0 \<and> buf = before)"
  using reach_timely [OF assms] reach_unfilled [OF assms] by (simp add: rpc_inv_def result_ok_def unfilled_def)

theorem rpc_calls_get_their_answers_witness:
  "\<exists>t n buf. reach rs_start (rpc_step Little (\<lambda>req d. d = [5, 6])) t \<and> \<not> rs_fault t \<and> \<not> rs_late t \<and>
     rs_returned t = [(7, [1, 2, 3], n, buf)] \<and> unat n = min 2 (length buf) \<and> take (unat n) buf = take (unat n) [5, 6]"
proof -
  let ?step = "rpc_step Little (\<lambda>req d. d = [5, 6])"
  have r: "reach rs_start ?step sample_rpc" by (rule reach_start) (rule sample_rpc_start)
  obtain t n buf where run: "?step\<^sup>*\<^sup>* sample_rpc t" and t: "rs_returned t = rs_returned sample_rpc @ [(7, [1, 2, 3], n, buf)]"
    and late: "\<not> rs_late t"
    using call_completes [OF r, of 7 "[1, 2, 3]" 0 0 "[5, 6]"] by (auto simp: sample_rpc_def sample_client_def)
  have rt: "reach rs_start ?step t" by (rule reach_more [OF r run])
  have len: "length [5 :: u8, 6] = 2" and none: "rs_returned sample_rpc = []" by (simp_all add: sample_rpc_def)
  from rpc_calls_get_their_answers [OF rt late] have "\<not> rs_fault t" and "unat n = min (length [5 :: u8, 6]) (length buf)"
    and "take (unat n) buf = take (unat n) [5, 6]" unfolding t by auto
  with rt t late show ?thesis unfolding len none append.simps by blast
qed

text \<open>
  C15: every slot is at every moment either once in the queue of free slots or held by exactly one
  call: none is lost, whether the call succeeded or failed, and none is used twice.
\<close>

theorem rpc_slots_exclusive:
  assumes "reach rs_start (rpc_step e ok) s" and "unat i < unat (cl_max_inflight (rs_client s))"
  shows "count (cl_free_slots (rs_client s)) i + card {k. held (rs_callers s k) = Some i} = 1"
proof -
  have ok: "slots_ok (rs_client s) (rs_callers s)" using reach_shape [OF assms(1)] by (simp add: rpc_shape_def)
  show ?thesis
  proof (cases "i \<in># cl_free_slots (rs_client s)")
    case True
    then have "{k. held (rs_callers s k) = Some i} = {}" using slots_okD(3) [OF ok] by blast
    moreover have "count (cl_free_slots (rs_client s)) i = 1"
      using True slots_okD(1) [OF ok, of i] by (simp add: le_antisym Suc_le_eq)
    ultimately show ?thesis by simp
  next
    case False
    with slots_okD(5) [OF ok assms(2)] obtain k where k: "held (rs_callers s k) = Some i" by blast
    then have "{k. held (rs_callers s k) = Some i} = {k}" using slots_okD(4) [OF ok] by blast
    with False show ?thesis by (simp add: not_in_iff)
  qed
qed

theorem rpc_slots_exclusive_witness:
  "count (cl_free_slots (rs_client sample_rpc)) 1 + card {k. held (rs_callers sample_rpc k) = Some 1} = 1"
proof -
  have "reach rs_start (rpc_step Little (\<lambda>req d. True)) sample_rpc" by (rule reach_start) (rule sample_rpc_start)
  then show ?thesis by (rule rpc_slots_exclusive) (simp add: sample_rpc_def sample_client_def)
qed

text \<open>
  A call can always be served: with a free slot and a posted receive, a request of at most
  \<open>kSendMsgSize\<close> bytes and any nonempty answer of at most \<open>kRecvMsgSize\<close> bytes, there is a run in which
  exactly this call returns.
\<close>

theorem rpc_call_can_return:
  assumes "reach rs_start (rpc_step e ok) s" and "rs_callers s k = C_idle" and "length req \<le> 256"
    and "i \<in># cl_free_slots (rs_client s)" and "w < length (rs_workers s)" and "rs_workers s ! w = W_posted"
    and "ok req d" and "d \<noteq> []" and "length d \<le> 4096" and "\<not> rs_late s"
  shows "\<exists>t n buf. (rpc_step e ok)\<^sup>*\<^sup>* s t \<and> rs_returned t = rs_returned s @ [(k, req, n, buf)] \<and>
     rs_callers t = (rs_callers s)(k := C_resumed i n) \<and> \<not> rs_late t"
  by (rule call_completes [OF assms])

theorem rpc_call_can_return_witness:
  "\<exists>t n buf. (rpc_step Little (\<lambda>req d. True))\<^sup>*\<^sup>* sample_rpc t \<and> rs_returned t = [(7, [1, 2, 3], n, buf)]"
proof -
  have r: "reach rs_start (rpc_step Little (\<lambda>req d. True)) sample_rpc" by (rule reach_start) (rule sample_rpc_start)
  show ?thesis
    using rpc_call_can_return [OF r, of 7 "[1, 2, 3]" 0 0 "[5, 6]"] by (auto simp: sample_rpc_def sample_client_def)
qed

end
