(* ===== verification/Rpc_Server.thy ===== *)
theory Rpc_Server
  imports Rpc_Wire Resources "HOL-Library.Signed_Division"
begin

text \<open>
  \<open>RpcServer\<close> and \<open>default_handler\<close> of \<^verbatim>\<open>examples/include/coro_rpc.hpp\<close>: what a server worker does
  between the arrival of a request and the post of its reply. The handler is a function pointer of the
  program, so it is an argument here; \<open>default_handler\<close> is the one the source has.
\<close>

section \<open>Handlers\<close>

text \<open>
  A handler sees the payload, which it leaves as it is, and the response buffer; it may change the latter and
  state of its own, and returns the length of the response.
\<close>

type_synonym 'g handler = "bytes \<Rightarrow> bytes \<Rightarrow> 'g \<Rightarrow> (exn + (size_t \<times> bytes)) \<times> 'g"

definition kBufferCnt :: int where "kBufferCnt = 1024"

definition kBufferSize :: int where "kBufferSize = 4096"

definition global_disk_pool :: bytes where
  "global_disk_pool = replicate (nat (kBufferSize * kBufferCnt)) 0xEE"

text \<open>\<open>g_disk_pool_cnt++ % kBufferCnt * kBufferSize\<close> in \<open>int\<close>, where an atomic wraps around and \<open>%\<close> truncates.\<close>

definition disk_offset :: "32 word \<Rightarrow> size_t" where
  "disk_offset cnt = word_of_int ((sint cnt smod kBufferCnt) * kBufferSize)"

definition default_handler :: "32 word handler" where
  "default_handler payload resp cnt =
     (let offset = disk_offset cnt; from_size = nat kBufferSize in
      (if length global_disk_pool < unat offset + from_size
       then Inl (Undefined_behaviour ''span outside global_disk_pool_'')
       else if length resp < from_size then Inl (Assert_failed ''from.size() <= resp.size()'')
       else Inr (word_of_int kBufferSize, write_at 0 (bytes_at (unat offset) from_size global_disk_pool) resp),
       cnt + 1))"

section \<open>State and construction\<close>

record rpc_server =
  sv_recv_depth :: size_t
  sv_recv_base :: ptr
  sv_recv_pool :: bytes
  sv_recv_mr :: local_mr
  sv_send_base :: ptr
  sv_send_pool :: bytes
  sv_send_mr :: local_mr

definition rpc_server_ctor :: "verbs \<Rightarrow> pd \<Rightarrow> size_t \<Rightarrow> ptr \<Rightarrow> ptr \<Rightarrow> (world, rpc_server) se" where
  "rpc_server_ctor V p recv_depth rbase sbase =
     (let rsize = recv_depth * kSendBufferSize; ssize = recv_depth * kRecvBufferSize in
      bindS (reg_mr V p rbase rsize reg_mr_default_flags) (\<lambda>rmr.
      bindS (unwindS (reg_mr V p sbase ssize reg_mr_default_flags) (local_mr_dtor V rmr)) (\<lambda>smr.
      returnS \<lparr>sv_recv_depth = recv_depth,
        sv_recv_base = rbase, sv_recv_pool = replicate (unat rsize) 0, sv_recv_mr = rmr,
        sv_send_base = sbase, sv_send_pool = replicate (unat ssize) 0, sv_send_mr = smr\<rparr>)))"

section \<open>One request\<close>

datatype server_outcome = Server_again | Server_send mr_view

text \<open>Access to the send pool with a possible failure, as in the client.\<close>

definition on_reply_pool :: "(bytes \<Rightarrow> exn + bytes) \<Rightarrow> (rpc_server \<times> 'g, unit) se" where
  "on_reply_pool f st = (case f (sv_send_pool (fst st)) of
     Inl ex \<Rightarrow> (Inl ex, st) | Inr p \<Rightarrow> (Inr (), ((fst st)\<lparr>sv_send_pool := p\<rparr>, snd st)))"

definition run_handler :: "'g handler \<Rightarrow> bytes \<Rightarrow> bytes \<Rightarrow> (rpc_server \<times> 'g, size_t \<times> bytes) se" where
  "run_handler h payload resp st = (case h payload resp (snd st) of (r, g) \<Rightarrow> (r, (fst st, g)))"

text \<open>
  \<open>server_worker\<close> from the completion of its receive to the view it sends; \<open>recv_view\<close> is what arrived,
  \<open>send_mr\<close> the whole slice. The handler writes into the slice behind the header.
\<close>

definition server_handle :: "endian \<Rightarrow> 'g handler \<Rightarrow> size_t \<Rightarrow> u32 \<Rightarrow> (rpc_server \<times> 'g, server_outcome) se" where
  "server_handle e h idx nbytes = bindS getS (\<lambda>(s, g).
     let recv_offset = idx * kSendBufferSize; send_offset = idx * kRecvBufferSize;
         rbase = sv_recv_base s; sbase = sv_send_base s in
     bindS (liftS (mr_view_local (sv_recv_mr s) recv_offset kSendBufferSize)) (\<lambda>recv_mr.
     bindS (liftS (mr_view_local (sv_send_mr s) send_offset kRecvBufferSize)) (\<lambda>send_mr.
     if ucast nbytes < sizeof_RpcHeader then returnS Server_again
     else bindS (liftS (mr_view_local (sv_recv_mr s) recv_offset (ucast nbytes))) (\<lambda>recv_view.
     bindS (liftS (header_payload_len e rbase (view_addr recv_mr) (sv_recv_pool s))) (\<lambda>len.
     if ucast len + sizeof_RpcHeader \<noteq> view_length recv_view
     then throwS (Assert_failed ''payload_len + sizeof(RpcHeader) == recv_view.length()'')
     else bindS (liftS (mem_read rbase (view_addr recv_view + sizeof_RpcHeader)
                    (unat (view_length recv_view - sizeof_RpcHeader)) (sv_recv_pool s))) (\<lambda>payload.
     bindS (liftS (mem_read sbase (view_addr send_mr + sizeof_RpcHeader)
                    (unat (view_length send_mr - sizeof_RpcHeader)) (sv_send_pool s))) (\<lambda>resp.
     bindS (run_handler h payload resp) (\<lambda>(resp_payload_len, resp').
     thenS (on_reply_pool (mem_write sbase (view_addr send_mr + sizeof_RpcHeader) resp'))
     (bindS (liftS (header_req_id e rbase (view_addr recv_mr) (sv_recv_pool s))) (\<lambda>req_id.
      thenS (on_reply_pool (write_header e sbase (view_addr send_mr) req_id (ucast resp_payload_len)))
      (let resp_len = sizeof_RpcHeader + resp_payload_len in
       bindS (liftS (mr_view_local (sv_send_mr s) send_offset resp_len)) (\<lambda>send_view.
       if kRecvBufferSize < resp_len then throwS (Assert_failed ''resp_len <= kRecvBufferSize'')
       else returnS (Server_send send_view)))))))))))))"

text \<open>
  What follows the send: its \<open>std::exception\<close>s are caught and logged, and the loop posts the next receive.
\<close>

definition server_after_send :: "(world, unit) se \<Rightarrow> (world, unit) se" where
  "server_after_send send = catchS std_exception send (\<lambda>e. returnS ())"

section \<open>The default handler\<close>

lemma disk_offset_nonneg:
  assumes "0 \<le> sint cnt \<or> 1024 dvd sint cnt"
  shows "unat (disk_offset cnt) \<le> 1023 * 4096"
proof -
  have rem: "0 \<le> sint cnt smod 1024 \<and> sint cnt smod 1024 \<le> 1023"
  proof (cases "0 \<le> sint cnt")
    case True
    then have "sint cnt smod 1024 = sint cnt mod 1024" by (simp add: signed_modulo_int_def sgn_if)
    then show ?thesis by simp
  next
    case False
    then have "sint cnt smod 1024 = - (\<bar>sint cnt\<bar> mod 1024)" by (simp add: signed_modulo_int_def)
    moreover have "1024 dvd \<bar>sint cnt\<bar>" using False assms by simp
    then have "\<bar>sint cnt\<bar> mod 1024 = 0" by (simp only: dvd_eq_mod_eq_0)
    ultimately show ?thesis by simp
  qed
  have "disk_offset cnt = word_of_int (sint cnt smod 1024 * 4096)"
    by (simp only: disk_offset_def kBufferCnt_def kBufferSize_def)
  then have "uint (disk_offset cnt) = sint cnt smod 1024 * 4096 mod 2 ^ 64"
    using uint_word_of_int [of "sint cnt smod 1024 * 4096", where 'a = 64] by simp
  with rem have "uint (disk_offset cnt) = sint cnt smod 1024 * 4096" by simp
  with rem show ?thesis by (simp add: unat_eq_nat_uint nat_le_iff)
qed

lemma disk_offset_neg:
  assumes "\<not> (0 \<le> sint cnt \<or> 1024 dvd sint cnt)"
  shows "2 ^ 64 - 1023 * 4096 \<le> unat (disk_offset cnt)"
proof -
  define r :: int where "r = \<bar>sint cnt\<bar> mod 1024"
  have "r \<noteq> 0" using assms by (simp add: r_def flip: dvd_eq_mod_eq_0)
  then have r: "0 < r" "r \<le> 1023" by (simp_all add: r_def order_less_le)
  have "sint cnt smod 1024 = - r" using assms by (simp add: signed_modulo_int_def r_def)
  then have "disk_offset cnt = word_of_int (- (r * 4096))"
    by (simp only: disk_offset_def kBufferCnt_def kBufferSize_def minus_mult_left)
  then have "uint (disk_offset cnt) = (- (r * 4096)) mod 2 ^ 64"
    using uint_word_of_int [of "- (r * 4096)", where 'a = 64] by simp
  also have "\<dots> = (2 ^ 64 - r * 4096) mod 2 ^ 64" by (simp add: mod_simps)
  also have "\<dots> = 2 ^ 64 - r * 4096" using r by (intro mod_pos_pos_trivial) simp_all
  finally show ?thesis using r by (simp add: unat_eq_nat_uint)
qed

lemma disk_pool_part: "off \<le> 1023 * 4096 \<Longrightarrow> bytes_at off 4096 global_disk_pool = replicate 4096 0xEE"
  by (simp add: bytes_at_def global_disk_pool_def kBufferCnt_def kBufferSize_def)

lemma default_handler_ok:
  assumes "0 \<le> sint cnt \<or> 1024 dvd sint cnt" and "4096 \<le> length resp"
  shows "default_handler payload resp cnt = (Inr (4096, replicate 4096 0xEE @ drop 4096 resp), cnt + 1)"
proof -
  have "unat (disk_offset cnt) + 4096 \<le> length global_disk_pool"
    using disk_offset_nonneg [OF assms(1)] by (simp add: global_disk_pool_def kBufferCnt_def kBufferSize_def)
  moreover have "bytes_at (unat (disk_offset cnt)) 4096 global_disk_pool = replicate 4096 0xEE"
    by (rule disk_pool_part) (rule disk_offset_nonneg [OF assms(1)])
  ultimately show ?thesis
    using assms(2) by (simp add: default_handler_def Let_def kBufferSize_def write_at_def)
qed

text \<open>
  C37: the default handler answers 4096 bytes \<open>0xEE\<close> as long as its counter is not negative; once the
  counter has wrapped around, after \<open>2\<^sup>3\<^sup>1\<close> requests, all but every 1024th request read outside the pool.
\<close>

theorem default_handler_outcome:
  assumes "4096 \<le> length resp"
  shows "default_handler payload resp cnt =
     (if 0 \<le> sint cnt \<or> 1024 dvd sint cnt then Inr (4096, replicate 4096 0xEE @ drop 4096 resp)
      else Inl (Undefined_behaviour ''span outside global_disk_pool_''), cnt + 1)"
proof (cases "0 \<le> sint cnt \<or> 1024 dvd sint cnt")
  case True
  with assms show ?thesis by (simp only: default_handler_ok if_True)
next
  case False
  then have "length global_disk_pool < unat (disk_offset cnt) + 4096"
    using disk_offset_neg [OF False] by (simp add: global_disk_pool_def kBufferCnt_def kBufferSize_def)
  then have "default_handler payload resp cnt = (Inl (Undefined_behaviour ''span outside global_disk_pool_''), cnt + 1)"
    by (simp add: default_handler_def Let_def kBufferSize_def)
  with False show ?thesis by (simp only: if_False)
qed

theorem default_handler_outcome_witness:
  "fst (default_handler [] (replicate 4096 0) 0x80000001) = Inl (Undefined_behaviour ''span outside global_disk_pool_'') \<and>
   fst (default_handler [] (replicate 4096 0) 0x7FFFFFFF) = Inr (4096, replicate 4096 0xEE)"
proof -
  have len: "4096 \<le> length (replicate 4096 0 :: bytes)" by simp
  have neg: "\<not> (0 \<le> sint (0x80000001 :: 32 word) \<or> 1024 dvd sint (0x80000001 :: 32 word))"
    and pos: "0 \<le> sint (0x7FFFFFFF :: 32 word)" by simp_all
  show ?thesis
    using default_handler_outcome [OF len, of "[]" "0x80000001"] default_handler_outcome [OF len, of "[]" "0x7FFFFFFF"]
      neg pos by simp
qed

section \<open>Replies\<close>

definition server_wf :: "rpc_server \<Rightarrow> bool" where
  "server_wf s \<longleftrightarrow> unat (sv_recv_depth s) < 2 ^ 32 \<and>
     length (sv_recv_pool s) = unat (sv_recv_depth s) * 272 \<and>
     length (sv_send_pool s) = unat (sv_recv_depth s) * 4112 \<and>
     (\<exists>mr. lmr_mr (sv_recv_mr s) = Some mr \<and> mr_addr mr = sv_recv_base s \<and> mr_length mr = sv_recv_depth s * 272) \<and>
     (\<exists>mr. lmr_mr (sv_send_mr s) = Some mr \<and> mr_addr mr = sv_send_base s \<and> mr_length mr = sv_recv_depth s * 4112)"

definition request_arrived :: "size_t \<Rightarrow> bytes \<Rightarrow> rpc_server \<Rightarrow> bool" where
  "request_arrived idx m s \<longleftrightarrow> idx < sv_recv_depth s \<and> length m \<le> 272 \<and>
     bytes_at 0 (length m) (pool_part 272 (unat idx) (sv_recv_pool s)) = m"

definition reply_bytes :: "rpc_server \<Rightarrow> mr_view \<Rightarrow> bytes" where
  "reply_bytes s v = bytes_at (unat (view_addr v - sv_send_base s)) (unat (view_length v)) (sv_send_pool s)"

lemma request_read:
  assumes "server_wf s" and "request_arrived idx m s" and "d + n \<le> length m"
  shows "mem_read (sv_recv_base s) (sv_recv_base s + idx * kSendBufferSize + of_nat d) n (sv_recv_pool s) = Inr (bytes_at d n m)"
proof (rule slice_read)
  show "length (sv_recv_pool s) = unat (sv_recv_depth s) * 272" and "unat (sv_recv_depth s) * 272 < 2 ^ 64"
    using assms(1) by (auto simp: server_wf_def)
  show "unat idx < unat (sv_recv_depth s)" using assms(2) by (simp add: request_arrived_def word_less_nat_alt)
  then show "unat (idx * kSendBufferSize) = unat idx * 272"
    using assms(1) unat_scale [of idx 272] by (simp add: rpc_sizes server_wf_def)
qed (use assms in \<open>auto simp: request_arrived_def\<close>)

lemma write_body_header:
  assumes "length mem = 16 + length d"
  shows "write_at 8 (to_memory e (n :: u32)) (write_at 0 (to_memory e (i :: u64)) (write_at 16 d mem)) =
     rpc_message e i n (bytes_at 12 4 mem) d"
  using assms by (simp add: write_at_def rpc_message_def bytes_at_def min_def take_drop)

lemma reply_part:
  assumes "pool_within 4112 i p" and "length d = 4096"
  shows "pool_part 4112 i (pool_patch 4112 i 8 (to_memory e (n :: u32)) (pool_patch 4112 i 0 (to_memory e (r :: u64))
           (pool_patch 4112 i 16 d p))) = rpc_message e r n (bytes_at 12 4 (pool_part 4112 i p)) d"
proof -
  have "length (pool_part 4112 i p) = 16 + length d" using assms by (simp add: pool.part_length)
  from write_body_header [OF this, of e n r] assms show ?thesis
    by (simp add: pool.part_patch pool.within_patch)
qed

lemma pool_patch_length:
  "length mem = N * w \<Longrightarrow> i < N \<Longrightarrow> d + length bs \<le> w \<Longrightarrow> length (pool_patch w i d bs mem) = N * w"
  using pool_inside [of mem N w i d "length bs"] by (simp add: pool_patch_def)

lemma write_header_pool:
  assumes "length mem = N * 4112" and "N * 4112 < 2 ^ 64" and "i < N" and "unat off = i * 4112"
  shows "write_header e base (base + off) r n mem =
     Inr (pool_patch 4112 i 8 (to_memory e n) (pool_patch 4112 i 0 (to_memory e r) mem))"
proof -
  have "mem_write base (base + off) (to_memory e r) mem = Inr (pool_patch 4112 i 0 (to_memory e r) mem)"
    using pool_write [OF assms, of 0 "to_memory e r" base] by simp
  moreover have "length (pool_patch 4112 i 0 (to_memory e r) mem) = N * 4112"
    by (rule pool_patch_length) (use assms in simp_all)
  ultimately show ?thesis
    using pool_write [OF _ assms(2-4), of "pool_patch 4112 i 0 (to_memory e r) mem" 8 "to_memory e n" base]
    by (simp add: write_header_def)
qed

definition replied :: "endian \<Rightarrow> nat \<Rightarrow> u64 \<Rightarrow> size_t \<Rightarrow> bytes \<Rightarrow> rpc_server \<Rightarrow> rpc_server" where
  "replied e i req_id n resp s = s\<lparr>sv_send_pool := pool_patch 4112 i 8 (to_memory e (ucast n :: u32))
     (pool_patch 4112 i 0 (to_memory e req_id) (pool_patch 4112 i 16 resp (sv_send_pool s)))\<rparr>"

definition reply_view :: "size_t \<Rightarrow> size_t \<Rightarrow> rpc_server \<Rightarrow> mr_view" where
  "reply_view idx n s = \<lparr>view_addr = sv_send_base s + idx * kRecvBufferSize, view_length = 16 + n,
     view_key = mr_lkey (the (lmr_mr (sv_send_mr s)))\<rparr>"

lemma server_slots:
  assumes "server_wf s" and "idx < sv_recv_depth s"
  shows "unat (idx * kSendBufferSize) = unat idx * 272" and "unat (idx * kRecvBufferSize) = unat idx * 4112"
    and "unat idx < unat (sv_recv_depth s)" and "unat (sv_recv_depth s) < 2 ^ 32"
proof -
  show d: "unat (sv_recv_depth s) < 2 ^ 32" using assms(1) by (simp add: server_wf_def)
  show i: "unat idx < unat (sv_recv_depth s)" using assms(2) by (simp add: word_less_nat_alt)
  show "unat (idx * kSendBufferSize) = unat idx * 272" using unat_scale [of idx 272] i d by (simp add: rpc_sizes)
  show "unat (idx * kRecvBufferSize) = unat idx * 4112" using i d by (intro unat_slot_offset) simp
qed

text \<open>The views of one worker lie inside its two slices.\<close>

lemma server_views:
  assumes wf: "server_wf s" and idx: "idx < sv_recv_depth s"
  shows "unat n \<le> 272 \<Longrightarrow> mr_view_local (sv_recv_mr s) (idx * kSendBufferSize) n =
      Inr \<lparr>view_addr = sv_recv_base s + idx * kSendBufferSize, view_length = n, view_key = mr_lkey (the (lmr_mr (sv_recv_mr s)))\<rparr>"
    and "unat n \<le> 4112 \<Longrightarrow> mr_view_local (sv_send_mr s) (idx * kRecvBufferSize) n =
      Inr \<lparr>view_addr = sv_send_base s + idx * kRecvBufferSize, view_length = n, view_key = mr_lkey (the (lmr_mr (sv_send_mr s)))\<rparr>"
proof -
  note at = server_slots [OF wf idx]
  from wf obtain rmr smr where rmr: "lmr_mr (sv_recv_mr s) = Some rmr" "mr_addr rmr = sv_recv_base s" "mr_length rmr = sv_recv_depth s * 272"
    and smr: "lmr_mr (sv_send_mr s) = Some smr" "mr_addr smr = sv_send_base s" "mr_length smr = sv_recv_depth s * 4112"
    unfolding server_wf_def by blast
  have "unat (mr_length rmr) = 272 * unat (sv_recv_depth s)" and "unat (mr_length smr) = 4112 * unat (sv_recv_depth s)"
    using unat_scale [of "sv_recv_depth s" 272] unat_scale [of "sv_recv_depth s" 4112] rmr(3) smr(3) at(4) by simp_all
  from slice_view [OF rmr(1,2) this(1) at(1,3), of n] slice_view [OF smr(1,2) this(2) at(2,3), of n]
  show "unat n \<le> 272 \<Longrightarrow> mr_view_local (sv_recv_mr s) (idx * kSendBufferSize) n =
      Inr \<lparr>view_addr = sv_recv_base s + idx * kSendBufferSize, view_length = n, view_key = mr_lkey (the (lmr_mr (sv_recv_mr s)))\<rparr>"
    and "unat n \<le> 4112 \<Longrightarrow> mr_view_local (sv_send_mr s) (idx * kRecvBufferSize) n =
      Inr \<lparr>view_addr = sv_send_base s + idx * kRecvBufferSize, view_length = n, view_key = mr_lkey (the (lmr_mr (sv_send_mr s)))\<rparr>"
    using rmr(1) smr(1) by simp_all
qed

text \<open>What the worker reads of a request in its slice.\<close>

lemma server_request:
  assumes wf: "server_wf s" and arr: "request_arrived idx m s"
    and m: "m = rpc_message e r (of_nat (length req)) pad req" "length pad = 4"
  shows "header_payload_len e (sv_recv_base s) (sv_recv_base s + idx * kSendBufferSize) (sv_recv_pool s) = Inr (of_nat (length req))"
    and "header_req_id e (sv_recv_base s) (sv_recv_base s + idx * kSendBufferSize) (sv_recv_pool s) = Inr r"
    and "mem_read (sv_recv_base s) (sv_recv_base s + idx * kSendBufferSize + 16) (length req) (sv_recv_pool s) = Inr req"
proof -
  have len: "length m = 16 + length req" using m by simp
  show "header_payload_len e (sv_recv_base s) (sv_recv_base s + idx * kSendBufferSize) (sv_recv_pool s) = Inr (of_nat (length req))"
    using request_read [OF wf arr, of 8 4] len message_len [of e r "of_nat (length req)" pad req]
    by (simp add: header_payload_len_def m(1) msg_len_def)
  show "header_req_id e (sv_recv_base s) (sv_recv_base s + idx * kSendBufferSize) (sv_recv_pool s) = Inr r"
    using request_read [OF wf arr, of 0 8] len message_id [of e r "of_nat (length req)" pad req]
    by (simp add: header_req_id_def m(1) msg_id_def)
  show "mem_read (sv_recv_base s) (sv_recv_base s + idx * kSendBufferSize + 16) (length req) (sv_recv_pool s) = Inr req"
    using request_read [OF wf arr, of 16 "length req"] len m(2) by (simp add: m(1) rpc_message_def bytes_at_def)
qed

lemma server_handle_apply:
  assumes wf: "server_wf s" and arr: "request_arrived idx m s"
    and m: "m = rpc_message e r (of_nat (length req)) pad req" "length pad = 4" "length req \<le> 256"
    and h: "h req (bytes_at 16 4096 (pool_part 4112 (unat idx) (sv_send_pool s))) g = (Inr (n, resp), g')"
    and resp: "length resp = 4096" and n: "unat n \<le> 4096"
  shows "server_handle e h idx (of_nat (length m)) (s, g) =
     (Inr (Server_send (reply_view idx n s)), (replied e (unat idx) r n resp s, g'))"
proof -
  let ?ro = "idx * kSendBufferSize" and ?so = "idx * kRecvBufferSize" and ?N = "unat (sv_recv_depth s)"
  let ?nb = "of_nat (length m) :: u32"
  have idx: "idx < sv_recv_depth s" using arr by (simp add: request_arrived_def)
  note at = server_slots [OF wf idx] and views = server_views [OF wf idx] and request = server_request [OF wf arr m(1,2)]
  have sl: "length (sv_send_pool s) = ?N * 4112" using wf by (simp add: server_wf_def)
  have nb: "unat ?nb = 16 + length req" using m by (simp add: unat_word_ariths unat_of_nat)
  have n16: "unat (16 + n) = 16 + unat n" using n by (simp add: unat_word_ariths)
  have v: "unat (kSendBufferSize) \<le> 272" "unat kRecvBufferSize \<le> 4112" "unat (ucast ?nb :: u64) \<le> 272" "unat (16 + n) \<le> 4112"
    using nb m(3) n16 n by (simp_all add: rpc_sizes)
  have v4: "mr_view_local (sv_send_mr s) ?so (16 + n) = Inr (reply_view idx n s)"
    using views(2) [OF v(4)] by (simp add: reply_view_def)
  have big: "\<not> ucast ?nb < sizeof_RpcHeader" using nb by (simp add: sizeof_RpcHeader_def word_less_nat_alt)
  have same: "ucast (of_nat (length req) :: u32) + sizeof_RpcHeader = (ucast ?nb :: u64)"
    using nb m(3) by (simp add: word_unat_eq_iff unat_word_ariths sizeof_RpcHeader_def unat_of_nat)
  have plen: "unat (ucast ?nb - 16 :: u64) = length req"
    using nb unat_sub_le [of 16 "ucast ?nb :: u64"] by (simp add: word_le_nat_alt)
  have span: "mem_read (sv_send_base s) (sv_send_base s + ?so + 16) 4096 (sv_send_pool s) =
      Inr (bytes_at 16 4096 (pool_part 4112 (unat idx) (sv_send_pool s)))"
    using pool_read [OF sl _ at(3,2), of 16 4096 "sv_send_base s"] at(4) by simp
  let ?p = "pool_patch 4112 (unat idx) 16 resp (sv_send_pool s)"
  have body: "mem_write (sv_send_base s) (sv_send_base s + ?so + 16) resp (sv_send_pool s) = Inr ?p"
    using pool_write [OF sl _ at(3,2), of 16 resp "sv_send_base s"] at(4) resp by simp
  have pl2: "length ?p = ?N * 4112" by (rule pool_patch_length) (use sl at(3) resp in simp_all)
  have hdr: "write_header e (sv_send_base s) (sv_send_base s + ?so) r (ucast n) ?p =
      Inr (pool_patch 4112 (unat idx) 8 (to_memory e (ucast n :: u32)) (pool_patch 4112 (unat idx) 0 (to_memory e r) ?p))"
    using pl2 at by (intro write_header_pool) simp_all
  have fits: "\<not> 4112 < 16 + n" using n n16 by (simp add: word_less_nat_alt)
  have k: "unat (kRecvBufferSize - 16) = 4096" by (simp add: rpc_sizes)
  show ?thesis
    using views(1) [OF v(1)] views(2) [OF v(2)] views(1) [OF v(3)] v4 big request same plen span body hdr fits k h
    by (simp add: server_handle_def se_defs Let_def on_reply_pool_def run_handler_def replied_def
        sizeof_RpcHeader_def rpc_sizes)
qed

lemma server_within: "server_wf s \<Longrightarrow> i < unat (sv_recv_depth s) \<Longrightarrow> pool_within 4112 i (sv_send_pool s)"
  by (auto simp: server_wf_def pool_within_def)

lemma server_wf_replied:
  assumes "server_wf s" and "i < unat (sv_recv_depth s)" and "length resp = 4096"
  shows "server_wf (replied e i r n resp s)"
proof -
  have "length (sv_send_pool s) = unat (sv_recv_depth s) * 4112" using assms(1) by (simp add: server_wf_def)
  then have "length (sv_send_pool (replied e i r n resp s)) = unat (sv_recv_depth s) * 4112"
    unfolding replied_def using assms(2,3) by (simp add: pool_patch_length)
  then show ?thesis using assms(1) by (simp add: server_wf_def) (simp add: replied_def)
qed

lemma reply_message:
  assumes "server_wf s" and "unat idx < unat (sv_recv_depth s)" and "length resp = 4096" and "unat n \<le> 4096"
  shows "\<exists>pad. length pad = 4 \<and> reply_bytes (replied e (unat idx) r n resp s) (reply_view idx n s) =
     rpc_message e r (ucast n) pad (take (unat n) resp)"
proof -
  let ?p = "sv_send_pool (replied e (unat idx) r n resp s)"
  let ?pad = "bytes_at 12 4 (pool_part 4112 (unat idx) (sv_send_pool s))"
  have within: "pool_within 4112 (unat idx) (sv_send_pool s)" by (rule server_within [OF assms(1,2)])
  have pad: "length ?pad = 4" using within by (simp add: pool.part_length)
  have so: "unat (idx * kRecvBufferSize) = unat idx * 4112"
    using assms(1,2) by (intro unat_slot_offset) (simp add: server_wf_def)
  have n16: "unat (16 + n) = 16 + unat n" using assms(4) by (simp add: unat_word_ariths)
  have part: "pool_part 4112 (unat idx) ?p = rpc_message e r (ucast n) ?pad resp"
    using reply_part [OF within assms(3)] by (simp add: replied_def)
  have "reply_bytes (replied e (unat idx) r n resp s) (reply_view idx n s) = bytes_at (unat idx * 4112) (16 + unat n) ?p"
    by (simp add: reply_bytes_def reply_view_def n16 so replied_def)
  also have "\<dots> = bytes_at 0 (16 + unat n) (pool_part 4112 (unat idx) ?p)"
    using assms(4) by (simp add: pool_part_def bytes_at_bytes_at)
  also have "\<dots> = rpc_message e r (ucast n) ?pad (take (unat n) resp)"
    using pad unfolding part by (simp add: rpc_message_def bytes_at_def)
  finally show ?thesis using pad by blast
qed

text \<open>
  A server worker answers a request with its own identifier: it posts one message of header
  and response, exactly the bytes the handler returned for exactly the bytes of the
  request, and touches no other worker's slice.
\<close>

theorem rpc_server_replies:
  assumes "server_wf s" and "request_arrived idx m s"
    and "m = rpc_message e r (of_nat (length req)) pad req" and "length pad = 4" and "length req \<le> 256"
    and "h req (bytes_at 16 4096 (pool_part 4112 (unat idx) (sv_send_pool s))) g = (Inr (n, resp), g')"
    and "length resp = 4096" and "unat n \<le> 4096"
  shows "\<exists>v s' pad'. server_handle e h idx (of_nat (length m)) (s, g) = (Inr (Server_send v), (s', g')) \<and>
     server_wf s' \<and> length pad' = 4 \<and> reply_bytes s' v = rpc_message e r (ucast n) pad' (take (unat n) resp) \<and>
     (\<forall>j < unat (sv_recv_depth s). j \<noteq> unat idx \<longrightarrow>
        pool_part 4112 j (sv_send_pool s') = pool_part 4112 j (sv_send_pool s))"
proof -
  let ?s = "replied e (unat idx) r n resp s"
  have i: "unat idx < unat (sv_recv_depth s)" using assms(2) by (simp add: request_arrived_def word_less_nat_alt)
  have "pool_part 4112 j (sv_send_pool ?s) = pool_part 4112 j (sv_send_pool s)"
    if "j < unat (sv_recv_depth s)" "j \<noteq> unat idx" for j
    using that i assms(7) server_within [OF assms(1)]
    by (simp add: replied_def pool.part_other pool.within_patch)
  moreover obtain pad' where "length pad' = 4"
    "reply_bytes ?s (reply_view idx n s) = rpc_message e r (ucast n) pad' (take (unat n) resp)"
    using reply_message [OF assms(1) i assms(7,8)] by blast
  ultimately show ?thesis
    using server_handle_apply [where h = h, OF assms] server_wf_replied [OF assms(1) i assms(7)] by blast
qed

definition sample_server :: "bytes \<Rightarrow> rpc_server" where
  "sample_server m = \<lparr>sv_recv_depth = 1, sv_recv_base = 4096, sv_recv_pool = m @ replicate (272 - length m) 0,
     sv_recv_mr = local_mr_ctor 1 \<lparr>mr_handle = 5, mr_addr = 4096, mr_length = 272, mr_lkey = 1, mr_rkey = 2\<rparr>,
     sv_send_base = 8192, sv_send_pool = replicate 4112 0,
     sv_send_mr = local_mr_ctor 1 \<lparr>mr_handle = 6, mr_addr = 8192, mr_length = 4112, mr_lkey = 1, mr_rkey = 2\<rparr>\<rparr>"

lemma default_handler_4096:
  "length resp = 4096 \<Longrightarrow> default_handler payload resp 0 = (Inr (4096, replicate 4096 0xEE), 1)"
  using default_handler_ok [of 0 resp payload] by simp

theorem rpc_server_replies_witness:
  "\<exists>v s' pad'. server_handle Little default_handler 0 19 (sample_server (rpc_message Little 5 3 [0, 0, 0, 0] [1, 2, 3]), 0) =
      (Inr (Server_send v), (s', 1)) \<and> length pad' = 4 \<and>
     reply_bytes s' v = rpc_message Little 5 4096 pad' (replicate 4096 0xEE)"
proof -
  let ?m = "rpc_message Little 5 (of_nat (length [1 :: u8, 2, 3])) [0, 0, 0, 0] [1, 2, 3]" and ?resp = "replicate 4096 (0xEE :: u8)"
  let ?s = "sample_server ?m"
  have wf: "server_wf ?s" by (simp add: server_wf_def sample_server_def local_mr_ctor_def)
  have arr: "request_arrived 0 ?m ?s"
    by (simp add: request_arrived_def sample_server_def pool_part_def bytes_at_def)
  have "length (bytes_at 16 4096 (pool_part 4112 (unat (0 :: size_t)) (sv_send_pool ?s))) = 4096"
    by (simp add: pool_part_def sample_server_def)
  then have h: "default_handler [1, 2, 3] (bytes_at 16 4096 (pool_part 4112 (unat (0 :: size_t)) (sv_send_pool ?s))) 0 =
      (Inr (4096, ?resp), 1)" by (rule default_handler_4096)
  have len: "length ?resp = 4096" and n: "unat (4096 :: size_t) \<le> 4096" and m: "length ?m = 19" and pad: "length [0 :: u8, 0, 0, 0] = 4"
    and req: "length [1 :: u8, 2, 3] \<le> 256" by simp_all
  have whole: "take (unat (4096 :: size_t)) ?resp = ?resp" by simp
  from rpc_server_replies [where h = default_handler and g = 0 and req = "[1, 2, 3]" and e = Little and r = 5,
      OF wf arr refl pad req h len n] show ?thesis
    unfolding m whole by auto
qed

end
