(* ===== verification/Rpc_System.thy ===== *)
theory Rpc_System
  imports Rpc_Steps Rpc_Server
begin

text \<open>
  Client and server of \<^verbatim>\<open>examples/include/coro_rpc.hpp\<close> together, and the checks of
  \<^verbatim>\<open>examples/async_rpc.cc\<close>.
\<close>

section \<open>The server keeps the client's contract\<close>

text \<open>The responses a handler can give to a request, from any state of its own and any old content of the buffer.\<close>

definition handled :: "'g handler \<Rightarrow> bytes \<Rightarrow> bytes \<Rightarrow> bool" where
  "handled h req d \<longleftrightarrow> (\<exists>old g n resp g'. h req old g = (Inr (n, resp), g') \<and> length old = 4096 \<and>
     unat n \<le> 4096 \<and> d = take (unat n) resp)"

lemma answers_rpc_message:
  assumes "length pad = 4" and "d \<noteq> []" and "length d \<le> 4096" and "ok (msg_payload m) d"
  shows "answers e ok m (rpc_message e (msg_id e m) (of_nat (length d)) pad d)"
  unfolding answers_def using assms by blast

lemma server_answers:
  assumes "server_wf s" and "request_arrived idx m s" and "request_of e i req m" and "length req \<le> 256"
    and "h req (bytes_at 16 4096 (pool_part 4112 (unat idx) (sv_send_pool s))) g = (Inr (n, resp), g')"
    and "length resp = 4096" and "n \<noteq> 0" and "unat n \<le> 4096"
  shows "\<exists>v s'. server_handle e h idx (of_nat (length m)) (s, g) = (Inr (Server_send v), (s', g')) \<and>
     server_wf s' \<and> sv_recv_depth s' = sv_recv_depth s \<and> answers e (handled h) m (reply_bytes s' v)"
proof -
  from assms(3) obtain r pad where pad: "length pad = 4" and m: "m = rpc_message e r (of_nat (length req)) pad req"
    unfolding request_of_def by blast
  have idx: "unat idx < unat (sv_recv_depth s)" using assms(2) by (simp add: request_arrived_def word_less_nat_alt)
  let ?s = "replied e (unat idx) r n resp s" and ?v = "reply_view idx n s" and ?d = "take (unat n) resp"
  have run: "server_handle e h idx (of_nat (length m)) (s, g) = (Inr (Server_send ?v), (?s, g'))"
    by (rule server_handle_apply [where h = h, OF assms(1,2) m pad assms(4,5,6,8)])
  obtain pad' where pad': "length pad' = 4" and reply: "reply_bytes ?s ?v = rpc_message e r (ucast n) pad' ?d"
    using reply_message [OF assms(1) idx assms(6,8)] by blast
  have len: "length ?d = unat n" using assms(6,8) by simp
  then have nd: "of_nat (length ?d) = (ucast n :: u32)" by (simp only: of_nat_unat)
  have "unat n \<noteq> 0" using assms(7) by (simp add: unat_eq_zero)
  then have ne: "?d \<noteq> []" using len by force
  have short: "length ?d \<le> 4096" using assms(8) len by linarith
  have "length (bytes_at 16 4096 (pool_part 4112 (unat idx) (sv_send_pool s))) = 4096"
    using pool.part_length [OF server_within [OF assms(1) idx]] by simp
  with assms(5,8) have "handled h req ?d" unfolding handled_def by blast
  moreover have "msg_payload m = req" "msg_id e m = r" using pad by (simp_all add: m)
  ultimately have "answers e (handled h) m (reply_bytes ?s ?v)"
    using answers_rpc_message [OF pad' ne short, of "handled h" m e] unfolding reply nd by (simp only:)
  moreover have "sv_recv_depth ?s = sv_recv_depth s" by (simp add: replied_def)
  ultimately show ?thesis using run server_wf_replied [OF assms(1) idx assms(6)] by blast
qed

text \<open>
  C19: the server keeps the contract the client's steps rest on: what a worker posts for a request of a client is an
  answer to it, with its identifier and a response the handler gives to exactly its payload.
\<close>

theorem rpc_server_refines_peer:
  assumes "server_wf s" and "request_arrived idx m s" and "request_of e i req m" and "length req \<le> 256"
    and "h req (bytes_at 16 4096 (pool_part 4112 (unat idx) (sv_send_pool s))) g = (Inr (n, resp), g')"
    and "length resp = 4096" and "n \<noteq> 0" and "unat n \<le> 4096"
  shows "\<exists>v s'. server_handle e h idx (of_nat (length m)) (s, g) = (Inr (Server_send v), (s', g')) \<and>
     server_wf s' \<and> answers e (handled h) m (reply_bytes s' v)"
proof -
  have "\<exists>v s'. server_handle e h idx (of_nat (length m)) (s, g) = (Inr (Server_send v), (s', g')) \<and>
     server_wf s' \<and> sv_recv_depth s' = sv_recv_depth s \<and> answers e (handled h) m (reply_bytes s' v)"
    by (rule server_answers, rule assms, rule assms, rule assms, rule assms, rule assms, rule assms, rule assms, rule assms)
  then show ?thesis by blast
qed

theorem rpc_server_refines_peer_witness:
  "\<exists>v s'. server_handle Little default_handler 0 19 (sample_server (rpc_message Little 5 3 [0, 0, 0, 0] [1, 2, 3]), 0) =
      (Inr (Server_send v), (s', 1)) \<and>
     answers Little (handled default_handler) (rpc_message Little 5 3 [0, 0, 0, 0] [1, 2, 3]) (reply_bytes s' v)"
proof -
  let ?m = "rpc_message Little 5 3 [0, 0, 0, 0] [1, 2, 3]" and ?resp = "replicate 4096 (0xEE :: u8)"
  let ?s = "sample_server ?m"
  have wf: "server_wf ?s" by (simp add: server_wf_def sample_server_def local_mr_ctor_def)
  have arr: "request_arrived 0 ?m ?s"
    by (simp add: request_arrived_def sample_server_def pool_part_def bytes_at_def)
  have req: "request_of Little 5 [1, 2, 3] ?m" unfolding request_of_def
    by (intro exI [of _ 5] exI [of _ "[0, 0, 0, 0]"]) (simp add: decode_slot_eq)
  have "length (bytes_at 16 4096 (pool_part 4112 (unat (0 :: size_t)) (sv_send_pool ?s))) = 4096"
    by (simp add: pool_part_def sample_server_def)
  then have h: "default_handler [1, 2, 3] (bytes_at 16 4096 (pool_part 4112 (unat (0 :: size_t)) (sv_send_pool ?s))) 0 =
      (Inr (4096, ?resp), 1)" by (rule default_handler_4096)
  have short: "length [1 :: u8, 2, 3] \<le> 256" and len: "length ?resp = 4096" and n: "(4096 :: size_t) \<noteq> 0" "unat (4096 :: size_t) \<le> 4096"
    and m: "length ?m = 19" by simp_all
  from rpc_server_refines_peer [where h = default_handler and g = 0, OF wf arr req short h len n] show ?thesis
    unfolding m by auto
qed

section \<open>The checks of async_rpc.cc\<close>

text \<open>What the example logs as errors, in order, as \<open>sync_rpc_test_worker\<close> and \<open>rpc_test_worker\<close> both do.\<close>

datatype rpc_error =
    Resp_length_mismatch (expected_size: nat) (got_size: size_t)
  | Content_mismatch u8

definition check_response :: "size_t \<Rightarrow> bytes \<Rightarrow> rpc_error list" where
  "check_response n resp =
     (if n \<noteq> of_nat (length resp) then [Resp_length_mismatch (length resp) n] else []) @
     (if resp ! 0 \<noteq> 0xEE then [Content_mismatch (resp ! 0)] else [])"

lemma handled_default:
  assumes "handled default_handler req d"
  shows "d = replicate 4096 0xEE"
proof -
  from assms obtain old g n resp g' where run: "default_handler req old g = (Inr (n, resp), g')" and old: "length old = 4096"
    and d: "d = take (unat n) resp" unfolding handled_def by blast
  have out: "0 \<le> sint g \<or> 1024 dvd sint g"
  proof (rule ccontr)
    assume "\<not> ?thesis"
    then have "length global_disk_pool < unat (disk_offset g) + nat kBufferSize"
      using disk_offset_neg [of g] by (simp add: global_disk_pool_def kBufferCnt_def kBufferSize_def)
    with run show False by (simp add: default_handler_def Let_def)
  qed
  have "default_handler req old g = (Inr (4096, replicate 4096 0xEE @ drop 4096 old), g + 1)"
    using default_handler_ok [OF out] old by simp
  with run old have "n = 4096" "resp = replicate 4096 0xEE" by simp_all
  then show ?thesis using d by simp
qed

text \<open>
  C10: client, transport and server together, as long as no send is reported failed whose message arrived or may
  still arrive: with the server's default handler, every call that
  returned after a response filled its buffer with the 4096 bytes of the handler, as many as fit, and a buffer of
  \<open>kRecvMsgSize\<close> bytes passes both checks of the example; a call whose send failed returned 0 and left its
  buffer as it was, and the example's check reports a length mismatch for it.
\<close>

theorem rpc_end_to_end:
  assumes "reach rs_start (rpc_step e (handled default_handler)) s" and "\<not> rs_late s"
  shows "(\<forall>(k, req, n, buf) \<in> set (rs_returned s).
       unat n = min 4096 (length buf) \<and> take (unat n) buf = replicate (unat n) 0xEE \<and>
       (length buf = 4096 \<longrightarrow> check_response n buf = [])) \<and>
     (\<forall>(k, req, n, before, buf) \<in> set (rs_failed s). n = 0 \<and> buf = before \<and>
       (length buf = 4096 \<longrightarrow> Resp_length_mismatch 4096 0 \<in> set (check_response n buf)))"
proof -
  have answered: "unat n = min 4096 (length buf) \<and> take (unat n) buf = replicate (unat n) 0xEE \<and>
       (length buf = 4096 \<longrightarrow> check_response n buf = [])" if "(k, req, n, buf) \<in> set (rs_returned s)" for k req n buf
  proof -
    have "rpc_inv e (handled default_handler) s" by (rule reach_timely [OF assms])
    with that have "result_ok (handled default_handler) req n buf" unfolding rpc_inv_def by blast
    then obtain d where d: "d = replicate 4096 0xEE" and n: "unat n = min (length d) (length buf)"
      and t: "take (unat n) buf = take (unat n) d"
      using handled_default unfolding result_ok_def by blast
    have n4: "unat n = min 4096 (length buf)" and buf: "take (unat n) buf = replicate (unat n) 0xEE"
      using n t by (simp_all add: d)
    moreover have "check_response n buf = []" if "length buf = 4096"
    proof -
      have "n = 4096" using n4 that by (simp add: word_unat_eq_iff)
      moreover have "buf = replicate 4096 0xEE" using buf n4 that by simp
      then have "buf ! 0 = 0xEE" by (simp del: replicate.simps)
      ultimately show ?thesis using that by (simp add: check_response_def)
    qed
    ultimately show ?thesis by blast
  qed
  have "n = 0 \<and> buf = before \<and> (length buf = 4096 \<longrightarrow> Resp_length_mismatch 4096 0 \<in> set (check_response n buf))"
    if "(k, req, n, before, buf) \<in> set (rs_failed s)" for k req n before buf
    using that reach_unfilled [OF assms] by (auto simp: unfilled_def check_response_def)
  with answered show ?thesis by blast
qed

theorem rpc_end_to_end_witness:
  "\<exists>t n buf. reach rs_start (rpc_step Little (handled default_handler)) t \<and> rs_returned t = [(7, [1, 2, 3], n, buf)] \<and>
     unat n = min 4096 (length buf) \<and> take (unat n) buf = replicate (unat n) 0xEE"
proof -
  let ?step = "rpc_step Little (handled default_handler)" and ?d = "replicate 4096 (0xEE :: u8)"
  have r: "reach rs_start ?step sample_rpc" by (rule reach_start) (rule sample_rpc_start)
  have "handled default_handler [1, 2, 3] ?d" unfolding handled_def
    using default_handler_4096 [of "replicate 4096 0" "[1, 2, 3]"]
    by (intro exI [of _ "replicate 4096 0"] exI [of _ 0] exI [of _ 4096] exI [of _ ?d] exI [of _ 1]) simp
  then obtain t n buf where run: "?step\<^sup>*\<^sup>* sample_rpc t" and t: "rs_returned t = rs_returned sample_rpc @ [(7, [1, 2, 3], n, buf)]"
    and late: "\<not> rs_late t"
    using call_completes [OF r, of 7 "[1, 2, 3]" 0 0 ?d] by (auto simp: sample_rpc_def sample_client_def)
  have rt: "reach rs_start ?step t" by (rule reach_more [OF r run])
  have ret: "rs_returned t = [(7, [1, 2, 3], n, buf)]" using t by (simp add: sample_rpc_def)
  from rpc_end_to_end [OF rt late] rt ret show ?thesis by auto
qed

end
