(* ===== verification/Spin_Future.thy ===== *)
theory Spin_Future
  imports Rdmapp_Prelude
begin

text \<open>
  \<^verbatim>\<open>examples/include/future.hpp\<close>: the state a promise and its future share, the operations of both, and
  the busy loop of \<open>wait\<close>. \<open>SpinPromise<void>\<close> has its own specialisation, without a value.
\<close>

section \<open>Shared state\<close>

record 'a shared_state =
  ss_ready :: bool
  ss_exception :: "exn option"
  ss_value :: "'a option"

definition shared_state_init :: "'a shared_state" where
  "shared_state_init = \<lparr>ss_ready = False, ss_exception = None, ss_value = None\<rparr>"

definition promise_notify :: "'a shared_state \<Rightarrow> 'a shared_state" where
  "promise_notify s = s\<lparr>ss_ready := True\<rparr>"

definition promise_set_exception :: "exn \<Rightarrow> bool \<Rightarrow> 'a shared_state \<Rightarrow> 'a shared_state" where
  "promise_set_exception ex notify s =
     (let s' = s\<lparr>ss_exception := Some ex\<rparr> in if notify then promise_notify s' else s')"

definition promise_set_value :: "'a \<Rightarrow> bool \<Rightarrow> 'a shared_state \<Rightarrow> 'a shared_state" where
  "promise_set_value v notify s =
     (let s' = s\<lparr>ss_value := Some v\<rparr> in if notify then promise_notify s' else s')"

definition promise_set_void :: "bool \<Rightarrow> unit shared_state \<Rightarrow> unit shared_state" where
  "promise_set_void notify s = (if notify then promise_notify s else s)"

definition future_is_ready :: "'a shared_state \<Rightarrow> bool" where
  "future_is_ready s = ss_ready s"

text \<open>
  \<open>get\<close> behind its \<open>wait\<close>: the exception first; then the value is moved out, which leaves \<open>moved v\<close> in the
  optional. An optional without value is undefined behaviour.
\<close>

definition future_get :: "('a \<Rightarrow> 'a) \<Rightarrow> ('a shared_state, 'a) se" where
  "future_get moved = bindS getS (\<lambda>s. case ss_exception s of
     Some ex \<Rightarrow> throwS ex
   | None \<Rightarrow> (case ss_value s of
       None \<Rightarrow> throwS (Undefined_behaviour ''empty optional'')
     | Some v \<Rightarrow> thenS (modifyS (\<lambda>s. s\<lparr>ss_value := Some (moved v)\<rparr>)) (returnS v)))"

definition future_get_void :: "(unit shared_state, unit) se" where
  "future_get_void = bindS getS (\<lambda>s. case ss_exception s of Some ex \<Rightarrow> throwS ex | None \<Rightarrow> returnS ())"

section \<open>Waiting\<close>

text \<open>
  \<open>obs i\<close> is what the \<open>i\<close>-th test of the flag sees; the result is how many tests it took, and \<open>None\<close> is a
  loop that never ends.
\<close>

partial_function (option) spin_wait :: "(nat \<Rightarrow> bool) \<Rightarrow> nat \<Rightarrow> nat option" where
  "spin_wait obs i = (if obs i = False then spin_wait obs (Suc i) else Some (Suc i))"

definition future_wait :: "(nat \<Rightarrow> bool) \<Rightarrow> nat option" where
  "future_wait obs = spin_wait obs 0"

lemma spin_wait_until: "\<forall>j. i \<le> j \<and> j < n \<longrightarrow> \<not> obs j \<Longrightarrow> i \<le> n \<Longrightarrow> spin_wait obs i = spin_wait obs n"
proof (induction "n - i" arbitrary: i)
  case (Suc d)
  then have "\<not> obs i" by simp
  then have "spin_wait obs i = spin_wait obs (Suc i)" by (subst spin_wait.simps) simp
  also have "\<dots> = spin_wait obs n" by (rule Suc.hyps(1)) (use Suc.prems Suc.hyps(2) in auto)
  finally show ?case .
qed simp

lemma spin_wait_result:
  assumes "spin_wait obs i = Some n"
  shows "\<exists>j \<ge> i. obs j"
proof (rule spin_wait.raw_induct [of "\<lambda>obs i n. \<exists>j \<ge> i. obs j"])
  show "spin_wait obs i = Some n" by (rule assms)
next
  fix f :: "(nat \<Rightarrow> bool) \<Rightarrow> nat \<Rightarrow> nat option" and obs i n
  assume IH: "\<And>obs i n. f obs i = Some n \<Longrightarrow> \<exists>j \<ge> i. obs j"
    and run: "(if obs i = False then f obs (Suc i) else Some (Suc i)) = Some n"
  show "\<exists>j \<ge> i. obs j"
  proof (cases "obs i")
    case False
    then have "f obs (Suc i) = Some n" using run by simp
    from IH [OF this] show ?thesis by (meson Suc_leD)
  qed blast
qed

text \<open>
  \<open>wait\<close> returns exactly if the flag is ever set, at the first test that sees it.
\<close>

theorem future_wait_returns:
  "future_wait obs = (if \<exists>n. obs n then Some (Suc (LEAST n. obs n)) else None)"
proof (cases "\<exists>n. obs n")
  case True
  let ?n = "LEAST n. obs n"
  have "obs ?n" using True by (rule LeastI_ex)
  moreover have "\<forall>j. 0 \<le> j \<and> j < ?n \<longrightarrow> \<not> obs j" using not_less_Least by blast
  then have "spin_wait obs 0 = spin_wait obs ?n" by (rule spin_wait_until) simp
  moreover have "spin_wait obs ?n = Some (Suc ?n)" using \<open>obs ?n\<close> by (subst spin_wait.simps) simp
  ultimately show ?thesis using True by (simp add: future_wait_def)
next
  case False
  then have "spin_wait obs 0 = None" using spin_wait_result [of obs 0] by (cases "spin_wait obs 0") auto
  with False show ?thesis by (simp add: future_wait_def)
qed

end
