(* ===== verification/Task.thy ===== *)
theory Task
  imports Spin_Future
begin

text \<open>
  \<^verbatim>\<open>examples/include/task.hpp\<close>: a coroutine that starts eagerly, the awaiter through which another coroutine
  waits for it, and the destructor of its owner. The body may end on one thread while the owner
  awaits or destroys the task on another; each access to the frame is one step.
\<close>

section \<open>The promise\<close>

text \<open>The frame of the coroutine: its promise, whether it is suspended at its end, whether it still exists.\<close>

record 'a task_frame =
  tf_state :: "'a shared_state"
  tf_done :: bool
  tf_continuation :: bool
  tf_alive :: bool

definition promise_type_ctor :: "'a task_frame" where
  "promise_type_ctor = \<lparr>tf_state = shared_state_init, tf_done = False, tf_continuation = False, tf_alive = True\<rparr>"

text \<open>\<open>return_value\<close> and \<open>unhandled_exception\<close> store the result without setting the flag.\<close>

definition return_value :: "'a \<Rightarrow> 'a task_frame \<Rightarrow> 'a task_frame" where
  "return_value v f = f\<lparr>tf_state := promise_set_value v False (tf_state f)\<rparr>"

definition unhandled_exception :: "exn \<Rightarrow> 'a task_frame \<Rightarrow> 'a task_frame" where
  "unhandled_exception ex f = f\<lparr>tf_state := promise_set_exception ex False (tf_state f)\<rparr>"

text \<open>The end of a body with the given outcome, and the suspension of \<open>final_suspend\<close>.\<close>

definition body_ends :: "exn + 'a \<Rightarrow> 'a task_frame \<Rightarrow> 'a task_frame" where
  "body_ends outcome f = (case outcome of Inl ex \<Rightarrow> unhandled_exception ex f | Inr v \<Rightarrow> return_value v f)\<lparr>tf_done := True\<rparr>"

definition set_return_value :: "'a task_frame \<Rightarrow> 'a task_frame" where
  "set_return_value f = f\<lparr>tf_state := promise_notify (tf_state f)\<rparr>"

definition task_await_ready :: "'a task_frame \<Rightarrow> bool" where
  "task_await_ready f = tf_done f"

definition task_await_suspend :: "'a task_frame \<Rightarrow> 'a task_frame" where
  "task_await_suspend f = f\<lparr>tf_continuation := True\<rparr>"

definition task_await_resume :: "('a \<Rightarrow> 'a) \<Rightarrow> ('a task_frame, 'a) se" where
  "task_await_resume moved f = (case future_get moved (tf_state f) of (r, st) \<Rightarrow> (r, f\<lparr>tf_state := st\<rparr>))"

text \<open>The destructor behind its \<open>wait\<close>.\<close>

definition task_dtor :: "('a task_frame, unit) se" where
  "task_dtor = bindS getS (\<lambda>f.
     if \<not> tf_done f then throwS (Assert_failed ''h_.done()'')
     else modifyS (\<lambda>f. f\<lparr>tf_alive := False\<rparr>))"

section \<open>Threads\<close>

text \<open>
  The thread that runs the coroutine: in its body; suspended at its end, inside the final awaiter; behind
  \<open>set_return_value\<close>, before the read of \<open>continuation_\<close>; finished with the frame.
\<close>

datatype runner_pc = R_running | R_final | R_notified | R_finished

text \<open>
  The owner: before \<open>co_await\<close>; between \<open>await_ready\<close> and \<open>await_suspend\<close>; suspended; in \<open>await_resume\<close>; with the result;
  after \<open>~task\<close>.
\<close>

datatype owner_pc = O_begin | O_suspending | O_suspended | O_resumed | O_got | O_destroyed

record 'a task_system =
  ts_frame :: "'a task_frame"
  ts_runner :: runner_pc
  ts_owner :: owner_pc
  ts_got :: "(exn + 'a) list"
  ts_fault :: bool

definition ts_start :: "'a task_system \<Rightarrow> bool" where
  "ts_start s \<longleftrightarrow> s = \<lparr>ts_frame = promise_type_ctor, ts_runner = R_running, ts_owner = O_begin, ts_got = [], ts_fault = False\<rparr>"

text \<open>
  \<open>read_continuation\<close> resumes the owner if it finds its handle. A step of the runner on a frame
  that is gone is a fault, as is a failed assertion of the destructor. The owner may also destroy a task it
  never awaited.
\<close>

inductive task_step :: "exn + 'a \<Rightarrow> ('a \<Rightarrow> 'a) \<Rightarrow> 'a task_system \<Rightarrow> 'a task_system \<Rightarrow> bool" for outcome moved where
  ends: "ts_runner s = R_running \<Longrightarrow>
     task_step outcome moved s (s\<lparr>ts_frame := body_ends outcome (ts_frame s), ts_runner := R_final\<rparr>)"
| notify: "ts_runner s = R_final \<Longrightarrow>
     task_step outcome moved s (s\<lparr>ts_frame := set_return_value (ts_frame s), ts_runner := R_notified\<rparr>)"
| read_continuation: "ts_runner s = R_notified \<Longrightarrow> tf_alive (ts_frame s) \<Longrightarrow>
     task_step outcome moved s (s\<lparr>ts_runner := R_finished,
       ts_owner := (if tf_continuation (ts_frame s) then O_resumed else ts_owner s)\<rparr>)"
| read_freed: "ts_runner s = R_notified \<Longrightarrow> \<not> tf_alive (ts_frame s) \<Longrightarrow>
     task_step outcome moved s (s\<lparr>ts_runner := R_finished, ts_fault := True\<rparr>)"
| ready: "ts_owner s = O_begin \<Longrightarrow> task_await_ready (ts_frame s) \<Longrightarrow>
     task_step outcome moved s (s\<lparr>ts_owner := O_resumed\<rparr>)"
| not_ready: "ts_owner s = O_begin \<Longrightarrow> \<not> task_await_ready (ts_frame s) \<Longrightarrow>
     task_step outcome moved s (s\<lparr>ts_owner := O_suspending\<rparr>)"
| suspend: "ts_owner s = O_suspending \<Longrightarrow>
     task_step outcome moved s (s\<lparr>ts_frame := task_await_suspend (ts_frame s), ts_owner := O_suspended\<rparr>)"
| get: "ts_owner s = O_resumed \<Longrightarrow> future_is_ready (tf_state (ts_frame s)) \<Longrightarrow>
     task_await_resume moved (ts_frame s) = (r, f) \<Longrightarrow>
     task_step outcome moved s (s\<lparr>ts_frame := f, ts_owner := O_got, ts_got := ts_got s @ [r]\<rparr>)"
| destroy: "ts_owner s = O_got \<or> ts_owner s = O_begin \<Longrightarrow> future_is_ready (tf_state (ts_frame s)) \<Longrightarrow>
     task_dtor (ts_frame s) = (Inr (), f) \<Longrightarrow>
     task_step outcome moved s (s\<lparr>ts_frame := f, ts_owner := O_destroyed\<rparr>)"
| destroy_fails: "ts_owner s = O_got \<or> ts_owner s = O_begin \<Longrightarrow> future_is_ready (tf_state (ts_frame s)) \<Longrightarrow>
     task_dtor (ts_frame s) = (Inl ex, f) \<Longrightarrow>
     task_step outcome moved s (s\<lparr>ts_fault := True\<rparr>)"

lemmas frame_ops = body_ends_def return_value_def unhandled_exception_def set_return_value_def promise_notify_def
  promise_set_value_def promise_set_exception_def task_await_suspend_def

lemmas task_starts = ts_start_def promise_type_ctor_def shared_state_init_def

section \<open>Every interleaving\<close>

definition holds_outcome :: "exn + 'a \<Rightarrow> 'a shared_state \<Rightarrow> bool" where
  "holds_outcome outcome st \<longleftrightarrow> (case outcome of
     Inl ex \<Rightarrow> ss_exception st = Some ex
   | Inr v \<Rightarrow> ss_exception st = None \<and> ss_value st = Some v)"

definition task_inv :: "exn + 'a \<Rightarrow> 'a task_system \<Rightarrow> bool" where
  "task_inv outcome s \<longleftrightarrow>
     (tf_done (ts_frame s) \<longleftrightarrow> ts_runner s \<noteq> R_running) \<and>
     (ss_ready (tf_state (ts_frame s)) \<longleftrightarrow> ts_runner s = R_notified \<or> ts_runner s = R_finished) \<and>
     (ts_runner s = R_running \<longrightarrow> ss_exception (tf_state (ts_frame s)) = None) \<and>
     (ts_runner s \<noteq> R_running \<longrightarrow> ts_got s = [] \<longrightarrow> holds_outcome outcome (tf_state (ts_frame s))) \<and>
     (tf_alive (ts_frame s) \<longleftrightarrow> ts_owner s \<noteq> O_destroyed) \<and>
     (tf_continuation (ts_frame s) \<longrightarrow> ts_runner s \<noteq> R_finished \<longrightarrow> ts_owner s = O_suspended) \<and>
     (case ts_owner s of O_got \<Rightarrow> ts_got s = [outcome] | O_destroyed \<Rightarrow> ts_got s = [] \<or> ts_got s = [outcome] | _ \<Rightarrow> ts_got s = []) \<and>
     (ts_fault s \<longrightarrow> ts_owner s = O_destroyed)"

lemma body_ends_holds: "ss_exception (tf_state f) = None \<Longrightarrow> holds_outcome outcome (tf_state (body_ends outcome f))"
  by (auto simp: holds_outcome_def frame_ops split: sum.splits)

lemma body_ends_simps [simp]:
  "tf_done (body_ends outcome f)" "tf_continuation (body_ends outcome f) = tf_continuation f"
  "tf_alive (body_ends outcome f) = tf_alive f" "ss_ready (tf_state (body_ends outcome f)) = ss_ready (tf_state f)"
  by (auto simp: frame_ops split: sum.splits)

lemma await_resume_outcome:
  assumes "holds_outcome outcome (tf_state f)"
  shows "\<exists>st. task_await_resume moved f = (outcome, f\<lparr>tf_state := st\<rparr>) \<and> ss_ready st = ss_ready (tf_state f)"
proof (cases outcome)
  case (Inl ex)
  with assms have "task_await_resume moved f = (outcome, f\<lparr>tf_state := tf_state f\<rparr>)"
    by (simp add: holds_outcome_def task_await_resume_def future_get_def se_defs)
  then show ?thesis by blast
next
  case (Inr v)
  with assms show ?thesis
    by (auto simp: holds_outcome_def task_await_resume_def future_get_def se_defs)
qed

lemma task_dtor_simps: "task_dtor f = (if tf_done f then (Inr (), f\<lparr>tf_alive := False\<rparr>) else (Inl (Assert_failed ''h_.done()''), f))"
  by (simp add: task_dtor_def se_defs)

lemma task_inv_start: "ts_start s \<Longrightarrow> task_inv outcome s"
  by (simp add: task_inv_def task_starts)

lemma task_inv_step: "task_inv outcome s \<Longrightarrow> task_step outcome moved s t \<Longrightarrow> task_inv outcome t"
proof (erule task_step.cases, goal_cases)
  case (1 s') then show ?case
    using body_ends_holds [of "ts_frame s'" outcome] by (auto simp: task_inv_def split: owner_pc.splits)
next
  case (2 s') then show ?case
    by (auto simp: task_inv_def set_return_value_def promise_notify_def holds_outcome_def split: owner_pc.splits sum.splits)
next
  case (3 s') then show ?case by (auto simp: task_inv_def split: owner_pc.splits)
next
  case (4 s') then show ?case by (auto simp: task_inv_def split: owner_pc.splits)
next
  case (5 s') then show ?case by (auto simp: task_inv_def split: owner_pc.splits)
next
  case (6 s') then show ?case by (auto simp: task_inv_def split: owner_pc.splits)
next
  case (7 s') then show ?case by (auto simp: task_inv_def task_await_suspend_def split: owner_pc.splits)
next
  case (8 s' r f)
  then have "holds_outcome outcome (tf_state (ts_frame s'))" by (auto simp: task_inv_def future_is_ready_def)
  from await_resume_outcome [OF this, of moved] 8 show ?case
    by (auto simp: task_inv_def future_is_ready_def)
next
  case (9 s' f) then show ?case by (auto simp: task_inv_def task_dtor_simps future_is_ready_def split: owner_pc.splits if_splits)
next
  case (10 s' ex f) then show ?case by (auto simp: task_inv_def task_dtor_simps future_is_ready_def split: if_splits)
qed

interpretation task: transition_system ts_start "task_step outcome moved" "task_inv outcome" for outcome moved
  by unfold_locales (rule task_inv_start, assumption, rule task_inv_step)

section \<open>Awaited in time\<close>

definition in_time :: "exn + 'a \<Rightarrow> 'a task_system \<Rightarrow> bool" where
  "in_time outcome s \<longleftrightarrow> task_inv outcome s \<and> tf_continuation (ts_frame s) \<and> \<not> ts_fault s \<and>
     (ts_owner s = O_suspended \<and> ts_runner s \<noteq> R_finished \<or>
      ts_owner s \<in> {O_resumed, O_got, O_destroyed} \<and> ts_runner s = R_finished) \<and>
     (ts_owner s = O_destroyed \<longrightarrow> ts_got s = [outcome])"

lemma in_time_step: "in_time outcome s \<Longrightarrow> task_step outcome moved s t \<Longrightarrow> in_time outcome t"
proof -
  assume it: "in_time outcome s" and st: "task_step outcome moved s t"
  have inv: "task_inv outcome t" using task_inv_step [OF _ st] it by (simp add: in_time_def)
  from it have inv0: "task_inv outcome s" by (simp add: in_time_def)
  from st show ?thesis
  proof cases
    case (get r f)
    then have "holds_outcome outcome (tf_state (ts_frame s))" using inv0 by (auto simp: task_inv_def future_is_ready_def)
    from await_resume_outcome [OF this, of moved] get it inv show ?thesis by (auto simp: in_time_def)
  next
    case (destroy f)
    then have "ts_owner s = O_got" using it by (auto simp: in_time_def)
    then have "ts_got s = [outcome]" using inv0 by (simp add: task_inv_def)
    then show ?thesis using it inv destroy by (auto simp: in_time_def task_dtor_simps split: if_splits)
  next
    case read_freed
    then have "ts_owner s = O_destroyed" using inv0 by (simp add: task_inv_def)
    then show ?thesis using it read_freed by (simp add: in_time_def)
  next
    case (destroy_fails ex f)
    then have "ts_runner s = R_running" using inv0 by (simp add: task_inv_def task_dtor_simps split: if_splits)
    then show ?thesis using it destroy_fails by (auto simp: in_time_def)
  qed (use it inv in \<open>simp_all add: in_time_def set_return_value_def task_await_suspend_def\<close>)
qed

lemma in_time_run: "(task_step outcome moved)\<^sup>*\<^sup>* s t \<Longrightarrow> in_time outcome s \<Longrightarrow> in_time outcome t"
  by (induction rule: rtranclp_induct) (auto intro: in_time_step)

lemma in_time_moves:
  assumes "in_time outcome s"
  shows "(\<exists>t. task_step outcome moved s t) \<or> ts_owner s = O_destroyed \<and> ts_runner s = R_finished \<and> ts_got s = [outcome]"
proof (cases "ts_runner s")
  case R_running then show ?thesis using task_step.ends by blast
next
  case R_final then show ?thesis using task_step.notify by blast
next
  case R_notified then show ?thesis using task_step.read_continuation task_step.read_freed by blast
next
  case R_finished
  then have rdy: "future_is_ready (tf_state (ts_frame s))" and dn: "tf_done (ts_frame s)"
    using assms by (auto simp: in_time_def task_inv_def future_is_ready_def)
  consider "ts_owner s = O_resumed" | "ts_owner s = O_got" | "ts_owner s = O_destroyed"
    using assms R_finished by (auto simp: in_time_def)
  then show ?thesis
  proof cases
    case 1
    obtain r f where "task_await_resume moved (ts_frame s) = (r, f)" by fastforce
    then show ?thesis using task_step.get [OF 1 rdy] by blast
  next
    case 2
    have "task_dtor (ts_frame s) = (Inr (), (ts_frame s)\<lparr>tf_alive := False\<rparr>)" using dn by (simp add: task_dtor_simps)
    then show ?thesis using task_step.destroy [OF disjI1 [OF 2] rdy] by blast
  next
    case 3
    then show ?thesis using assms R_finished by (auto simp: in_time_def)
  qed
qed

section \<open>Two races\<close>

lemma task_run:
  assumes "reach ts_start (task_step outcome moved) s" and "task_step outcome moved s t"
  shows "reach ts_start (task_step outcome moved) t"
  using assms by (rule reach.reach_step)

lemma nobody_moves:
  "ts_owner s = O_suspended \<Longrightarrow> ts_runner s = R_finished \<Longrightarrow> \<not> task_step outcome moved s t"
  by (auto elim: task_step.cases)

text \<open>The state in which the owner has seen the body unfinished and has not yet stored its handle.\<close>

definition looked_once :: "'a task_system" where
  "looked_once = \<lparr>ts_frame = promise_type_ctor, ts_runner = R_running, ts_owner = O_suspending, ts_got = [], ts_fault = False\<rparr>"

lemma looked_once_reached: "reach ts_start (task_step outcome moved) looked_once"
proof -
  let ?s = "\<lparr>ts_frame = promise_type_ctor, ts_runner = R_running, ts_owner = O_begin, ts_got = [], ts_fault = False\<rparr> :: 'a task_system"
  have "reach ts_start (task_step outcome moved) ?s" by (rule reach_start) (simp add: ts_start_def)
  moreover have "task_step outcome moved ?s (?s\<lparr>ts_owner := O_suspending\<rparr>)"
    by (rule task_step.not_ready) (simp_all add: task_await_ready_def promise_type_ctor_def)
  ultimately show ?thesis unfolding looked_once_def by (simp add: task_run)
qed

lemma freed_run:
  "\<exists>s. reach ts_start (task_step outcome moved) s \<and> ts_fault s \<and> ts_got s = [outcome]"
proof -
  let ?s0 = "\<lparr>ts_frame = promise_type_ctor, ts_runner = R_running, ts_owner = O_begin, ts_got = [], ts_fault = False\<rparr> :: 'a task_system"
  let ?s1 = "?s0\<lparr>ts_frame := body_ends outcome (ts_frame ?s0), ts_runner := R_final\<rparr>"
  let ?s2 = "?s1\<lparr>ts_frame := set_return_value (ts_frame ?s1), ts_runner := R_notified\<rparr>"
  let ?s3 = "?s2\<lparr>ts_owner := O_resumed\<rparr>"
  have dn: "tf_done (ts_frame ?s3)" by (simp add: set_return_value_def)
  have rdy: "future_is_ready (tf_state (ts_frame ?s3))"
    by (simp add: future_is_ready_def set_return_value_def promise_notify_def)
  have "holds_outcome outcome (tf_state (body_ends outcome promise_type_ctor))"
    by (rule body_ends_holds) (simp add: promise_type_ctor_def shared_state_init_def)
  then have "holds_outcome outcome (tf_state (ts_frame ?s3))"
    by (simp add: holds_outcome_def set_return_value_def promise_notify_def split: sum.splits)
  from await_resume_outcome [OF this, of moved] obtain st where
    get: "task_await_resume moved (ts_frame ?s3) = (outcome, (ts_frame ?s3)\<lparr>tf_state := st\<rparr>)"
    and st: "ss_ready st = ss_ready (tf_state (ts_frame ?s3))" by blast
  let ?s4 = "?s3\<lparr>ts_frame := (ts_frame ?s3)\<lparr>tf_state := st\<rparr>, ts_owner := O_got, ts_got := [outcome]\<rparr>"
  let ?s5 = "?s4\<lparr>ts_frame := (ts_frame ?s4)\<lparr>tf_alive := False\<rparr>, ts_owner := O_destroyed\<rparr>"
  let ?s6 = "?s5\<lparr>ts_runner := R_finished, ts_fault := True\<rparr>"
  have r0: "reach ts_start (task_step outcome moved) ?s0" by (rule reach_start) (simp add: ts_start_def)
  have r1: "task_step outcome moved ?s0 ?s1" by (rule task_step.ends) simp
  have r2: "task_step outcome moved ?s1 ?s2" by (rule task_step.notify) simp
  have r3: "task_step outcome moved ?s2 ?s3" by (rule task_step.ready) (use dn in \<open>simp_all add: task_await_ready_def\<close>)
  have r4: "task_step outcome moved ?s3 ?s4" using task_step.get [OF _ rdy get] by simp
  have r5: "task_step outcome moved ?s4 ?s5"
    by (rule task_step.destroy) (use dn rdy st in \<open>simp_all add: future_is_ready_def task_dtor_simps\<close>)
  have r6: "task_step outcome moved ?s5 ?s6" by (rule task_step.read_freed) simp_all
  have "reach ts_start (task_step outcome moved) ?s6"
    by (rule task_run [OF task_run [OF task_run [OF task_run [OF task_run [OF task_run [OF r0 r1] r2] r3] r4] r5] r6])
  then show ?thesis by (intro exI [of _ ?s6]) simp
qed

section \<open>Properties\<close>

text \<open>
  In every interleaving of the thread that ends the coroutine and the one that owns the task, the
  owner gets at most one result, and it is the outcome of the body, value or exception; the
  process can only fail in an access to a frame that its owner has already destroyed.
\<close>

theorem task_result_right:
  assumes "reach ts_start (task_step outcome moved) s"
  shows "(ts_got s = [] \<or> ts_got s = [outcome]) \<and> (ts_fault s \<longrightarrow> ts_owner s = O_destroyed)"
  using task.reach_inv [OF assms] by (cases "ts_owner s") (auto simp: task_inv_def)

theorem task_result_right_witness:
  "\<exists>s. reach ts_start (task_step (Inr 5) id) s \<and> ts_fault s \<and> ts_got s = [Inr (5 :: u32)] \<and> ts_owner s = O_destroyed"
  using freed_run [of "Inr (5 :: u32)" id] task_result_right by blast

text \<open>
  C24: an owner that is suspended before the body ends is safe: whatever follows, no access fails, and it never
  gets stuck before the owner has the outcome and has destroyed the task.
\<close>

theorem task_awaited_in_time:
  assumes "reach ts_start (task_step outcome moved) s" and "ts_owner s = O_suspended" and "ts_runner s = R_running"
    and "tf_continuation (ts_frame s)" and "(task_step outcome moved)\<^sup>*\<^sup>* s t"
  shows "\<not> ts_fault t \<and>
     ((\<exists>u. task_step outcome moved t u) \<or> ts_owner t = O_destroyed \<and> ts_runner t = R_finished \<and> ts_got t = [outcome])"
proof -
  have "task_inv outcome s" by (rule task.reach_inv [OF assms(1)])
  then have "in_time outcome s" using assms(2-4) by (auto simp: in_time_def task_inv_def)
  from in_time_run [OF assms(5) this] have it: "in_time outcome t" .
  from in_time_moves [OF it, of moved] it show ?thesis by (auto simp: in_time_def)
qed

theorem task_awaited_in_time_witness:
  "\<exists>s. reach ts_start (task_step (Inl (Runtime_error ''x'')) id) s \<and> ts_owner s = O_suspended \<and> \<not> ts_fault (s :: u32 task_system)"
proof -
  let ?s = "looked_once\<lparr>ts_frame := task_await_suspend (ts_frame looked_once), ts_owner := O_suspended\<rparr> :: u32 task_system"
  let ?step = "task_step (Inl (Runtime_error ''x'')) id :: u32 task_system \<Rightarrow> _"
  have "?step looked_once ?s" by (rule task_step.suspend) (simp add: looked_once_def)
  then have r: "reach ts_start ?step ?s" by (rule task_run [OF looked_once_reached])
  have "ts_owner ?s = O_suspended" "ts_runner ?s = R_running" "tf_continuation (ts_frame ?s)"
    by (simp_all add: looked_once_def task_await_suspend_def)
  from task_awaited_in_time [OF r this rtranclp.rtrancl_refl] r show ?thesis by auto
qed

text \<open>
  C25: an owner on another thread can wait for ever: the body ends, and the final awaiter finds no
  continuation, between its \<open>await_ready\<close> and its \<open>await_suspend\<close>; then nothing ever resumes it.
\<close>

theorem task_wakeup_can_be_lost:
  "\<exists>s. reach ts_start (task_step outcome moved) s \<and> ts_owner s = O_suspended \<and> ts_got s = [] \<and>
     (\<forall>t. \<not> task_step outcome moved s t)"
proof -
  let ?s0 = "looked_once :: 'a task_system"
  let ?s1 = "?s0\<lparr>ts_frame := body_ends outcome (ts_frame ?s0), ts_runner := R_final\<rparr>"
  let ?s2 = "?s1\<lparr>ts_frame := set_return_value (ts_frame ?s1), ts_runner := R_notified\<rparr>"
  let ?s3 = "?s2\<lparr>ts_runner := R_finished\<rparr>"
  let ?s4 = "?s3\<lparr>ts_frame := task_await_suspend (ts_frame ?s3), ts_owner := O_suspended\<rparr>"
  have cont: "\<not> tf_continuation (ts_frame ?s2)" "tf_alive (ts_frame ?s2)"
    by (simp_all add: looked_once_def promise_type_ctor_def set_return_value_def)
  have r1: "task_step outcome moved ?s0 ?s1" by (rule task_step.ends) (simp add: looked_once_def)
  have r2: "task_step outcome moved ?s1 ?s2" by (rule task_step.notify) simp
  have r3: "task_step outcome moved ?s2 ?s3"
    using task_step.read_continuation [of ?s2 outcome moved] cont by simp
  have r4: "task_step outcome moved ?s3 ?s4" by (rule task_step.suspend) (simp add: looked_once_def)
  have reached: "reach ts_start (task_step outcome moved) ?s4"
    by (rule task_run [OF task_run [OF task_run [OF task_run [OF looked_once_reached r1] r2] r3] r4])
  have stuck: "\<not> task_step outcome moved ?s4 t" for t by (rule nobody_moves) simp_all
  show ?thesis using reached stuck by (intro exI [of _ ?s4]) (simp add: looked_once_def)
qed

text \<open>
  C36: the destructor does not wait long enough: it is released by the flag that the final awaiter
  sets before its last look at the frame, which can by then be destroyed.
\<close>

theorem task_frame_used_after_free:
  "\<exists>s. reach ts_start (task_step outcome moved) s \<and> ts_fault s \<and> ts_got s = [outcome]"
  by (rule freed_run)

end
