(* ===== verification/Fabric.thy ===== *)
theory Fabric
  imports Operations
begin

text \<open>
  Two peers connected by a queue pair each: the memory of a process, what the two cards do with
  a posted work request, and coroutines that suspend in an operation of the queue pair. The
  programs of \<^verbatim>\<open>examples\<close> are translated to such coroutines in the theories that follow. A work request is the
  one the queue pair posts for the operation (\<open>wr_of\<close>), and what \<open>co_await\<close> returns is \<open>value_of\<close>: both are
  shown of the code in \<open>Operations\<close>.
\<close>

section \<open>Processes\<close>

text \<open>A process logs a text with some numbers or bytes.\<close>

datatype line =
    Log string | Log_nat string nat | Log_pair string nat nat | Log_bytes string bytes | Log_both string nat bytes

record peer =
  p_world :: world
  p_bytes :: "ptr \<Rightarrow> u8"
  p_regions :: "ibv_mr list"
  p_log :: "line list"
  p_count :: u64

definition store :: "ptr \<Rightarrow> bytes \<Rightarrow> peer \<Rightarrow> peer" where
  "store a bs p = p\<lparr>p_bytes := (\<lambda>x. if unat (x - a) < length bs then bs ! unat (x - a) else p_bytes p x)\<rparr>"

definition load :: "ptr \<Rightarrow> nat \<Rightarrow> peer \<Rightarrow> bytes" where
  "load a n p = map (\<lambda>i. p_bytes p (a + of_nat i)) [0..<n]"

lemma load_store_prefix: "n \<le> length bs \<Longrightarrow> length bs \<le> 2 ^ 64 \<Longrightarrow> load a n (store a bs p) = take n bs"
  by (rule nth_equalityI) (simp_all add: load_def store_def unat_of_nat)

lemma load_store_same [simp]: "length bs \<le> 2 ^ 64 \<Longrightarrow> n = length bs \<Longrightarrow> load a n (store a bs p) = bs"
  by (simp add: load_store_prefix)

text \<open>No byte of the first range is in the second.\<close>

definition apart :: "ptr \<Rightarrow> nat \<Rightarrow> ptr \<Rightarrow> nat \<Rightarrow> bool" where
  "apart a n b k \<longleftrightarrow> (\<forall>i < n. k \<le> unat (a + of_nat i - b))"

lemma apart_code [code]: "apart a n b k = list_all (\<lambda>i. k \<le> unat (a + of_nat i - b)) [0..<n]"
  by (auto simp: apart_def list_all_iff)

lemma load_store_apart: "apart a n b (length bs) \<Longrightarrow> load a n (store b bs p) = load a n p"
  by (auto simp: apart_def load_def store_def)

lemma load_length [simp]: "length (load a n p) = n"
  by (simp add: load_def)

lemma load_log [simp]: "load a n (p\<lparr>p_log := l\<rparr>) = load a n p" "load a n (p\<lparr>p_count := c\<rparr>) = load a n p"
  "load a n (p\<lparr>p_world := w\<rparr>) = load a n p" "load a n (p\<lparr>p_regions := r\<rparr>) = load a n p"
  by (simp_all add: load_def)

lemma store_fields [simp]: "p_log (store a bs p) = p_log p" "p_count (store a bs p) = p_count p"
  "p_world (store a bs p) = p_world p" "p_regions (store a bs p) = p_regions p"
  by (simp_all add: store_def)

section \<open>What the cards do\<close>

text \<open>
  A remote access is allowed inside a region registered under the key it carries; every region of this
  program is registered with all remote rights (\<open>reg_mr_default_flags\<close>).
\<close>

definition allowed :: "u32 \<Rightarrow> ptr \<Rightarrow> nat \<Rightarrow> peer \<Rightarrow> bool" where
  "allowed key a n p \<longleftrightarrow> (\<exists>mr \<in> set (p_regions p). mr_rkey mr = key \<and> unat (mr_addr mr) \<le> unat a \<and>
     unat a + n \<le> unat (mr_addr mr) + unat (mr_length mr))"

fun gather :: "ibv_sge list \<Rightarrow> peer \<Rightarrow> bytes" where
  "gather [] p = []"
| "gather (s # ss) p = load (sge_addr s) (unat (sge_length s)) p @ gather ss p"

text \<open>
  A request that needs nothing from the other program: both memories afterwards and the \<open>byte_len\<close> of the
  completion, or \<open>None\<close> if access is denied. Atomics work on 8 bytes in the byte order of the hosts.
\<close>

fun one_sided :: "endian \<Rightarrow> ibv_send_wr \<Rightarrow> peer \<Rightarrow> peer \<Rightarrow> (peer \<times> peer \<times> u32) option" where
  "one_sided e wr p r = (case (swr_opcode wr, swr_sg_list wr, swr_wr wr) of
     (IBV_WR_RDMA_WRITE, ss, Wr_rdma a key) \<Rightarrow>
       (let bs = gather ss p in if allowed key a (length bs) r then Some (p, store a bs r, 0) else None)
   | (IBV_WR_RDMA_READ, [s], Wr_rdma a key) \<Rightarrow>
       (let n = unat (sge_length s) in
        if allowed key a n r then Some (store (sge_addr s) (load a n r) p, r, sge_length s) else None)
   | (IBV_WR_ATOMIC_FETCH_AND_ADD, [s], Wr_atomic a key x _) \<Rightarrow>
       (if allowed key a 8 r then
          (let old = of_memory e (load a 8 r) :: u64 in
           Some (store (sge_addr s) (to_memory e old) p, store a (to_memory e (old + x)) r, 8))
        else None)
   | (IBV_WR_ATOMIC_CMP_AND_SWP, [s], Wr_atomic a key x y) \<Rightarrow>
       (if allowed key a 8 r then
          (let old = of_memory e (load a 8 r) :: u64 in
           Some (store (sge_addr s) (to_memory e old) p, if old = x then store a (to_memory e y) r else r, 8))
        else None)
   | _ \<Rightarrow> None)"

declare one_sided.simps [simp del]

text \<open>
  A request that consumes a posted receive (with its buffer, if any): the receiver's memory, length and immediate
  value, or \<open>None\<close> if the message is too long or access is denied.
\<close>

fun two_sided :: "ibv_send_wr \<Rightarrow> peer \<Rightarrow> ibv_sge list \<Rightarrow> peer \<Rightarrow> (peer \<times> u32 \<times> u32 option) option" where
  "two_sided wr p into r = (let bs = gather (swr_sg_list wr) p in
     case (swr_opcode wr, swr_wr wr) of
       (IBV_WR_SEND, _) \<Rightarrow>
         (case into of
            [] \<Rightarrow> if bs = [] then Some (r, 0, None) else None
          | s # _ \<Rightarrow> if length bs \<le> unat (sge_length s)
                    then Some (store (sge_addr s) bs r, of_nat (length bs), None) else None)
     | (IBV_WR_RDMA_WRITE_WITH_IMM, Wr_rdma a key) \<Rightarrow>
         (if allowed key a (length bs) r then Some (store a bs r, of_nat (length bs), Some (swr_imm_data wr)) else None)
     | _ \<Rightarrow> None)"

declare two_sided.simps [simp del]

fun needs_receive :: "request \<Rightarrow> bool" where
  "needs_receive R_send = True"
| "needs_receive (R_write_with_imm _ _) = True"
| "needs_receive _ = False"

definition send_wr :: "request \<Rightarrow> mr_view \<Rightarrow> ibv_send_wr" where
  "send_wr q v = wr_of q (fill_local_sge v) 0"

definition recv_sges :: "mr_view \<Rightarrow> ibv_sge list" where
  "recv_sges v = (if mr_view_bool v then [fill_local_sge v] else [])"

lemma recv_sges_wr: "rwr_sg_list (build_recv_wr (recv_awaitable_view i v) n) = recv_sges v"
  by (simp add: build_recv_wr_def recv_awaitable_view_def recv_sges_def)

definition value_returned :: "request \<Rightarrow> mr_view \<Rightarrow> u32 \<Rightarrow> u32" where
  "value_returned q v n = value_of q v \<lparr>wc_wr_id = 0, wc_status = IBV_WC_SUCCESS, wc_byte_len = n, wc_imm_data = 0, wc_flags = 0\<rparr>"

text \<open>
  The cards are not part of the program: what they do with a request is a parameter, and what the program relies on is that
  they do what is described above whenever that is a success.
\<close>

record cards =
  card_one_sided :: "ibv_send_wr \<Rightarrow> peer \<Rightarrow> peer \<Rightarrow> (peer \<times> peer \<times> u32) option"
  card_two_sided :: "ibv_send_wr \<Rightarrow> peer \<Rightarrow> ibv_sge list \<Rightarrow> peer \<Rightarrow> (peer \<times> u32 \<times> u32 option) option"

definition serves :: "endian \<Rightarrow> cards \<Rightarrow> bool" where
  "serves e X \<longleftrightarrow> (\<forall>wr p r x. one_sided e wr p r = Some x \<longrightarrow> card_one_sided X wr p r = Some x) \<and>
     (\<forall>wr p ss r x. two_sided wr p ss r = Some x \<longrightarrow> card_two_sided X wr p ss r = Some x)"

definition plain_cards :: "endian \<Rightarrow> cards" where
  "plain_cards e = \<lparr>card_one_sided = one_sided e, card_two_sided = two_sided\<rparr>"

lemma plain_cards_serve: "serves e (plain_cards e)"
  by (simp add: serves_def plain_cards_def)

section \<open>Coroutines\<close>

text \<open>
  A coroutine returned, or awaits an operation and goes on with its result; between two suspensions
  it computes on the memory of its process and may throw.
\<close>

datatype co =
    Co_return
  | Co_send request mr_view "u32 \<Rightarrow> peer \<Rightarrow> (exn + co) \<times> peer"
  | Co_recv mr_view "u32 \<times> u32 option \<Rightarrow> peer \<Rightarrow> (exn + co) \<times> peer"

type_synonym body = "(peer, co) se"

definition co_return :: body where
  "co_return = returnS Co_return"

text \<open>\<open>legal\<close> is what the factory of the awaitable asserts.\<close>

definition await_send :: "qp \<Rightarrow> request \<Rightarrow> mr_view \<Rightarrow> (u32 \<Rightarrow> body) \<Rightarrow> body" where
  "await_send q req v k = (if legal q req then returnS (Co_send req v k) else throwS (Assert_failed ''remote view''))"

definition await_recv :: "mr_view \<Rightarrow> (u32 \<times> u32 option \<Rightarrow> body) \<Rightarrow> body" where
  "await_recv v k = returnS (Co_recv v k)"

definition writeP :: "ptr \<Rightarrow> bytes \<Rightarrow> (peer, unit) se" where
  "writeP a bs = modifyS (store a bs)"

definition readP :: "ptr \<Rightarrow> nat \<Rightarrow> (peer, bytes) se" where
  "readP a n p = (Inr (load a n p), p)"

definition logP :: "line \<Rightarrow> (peer, unit) se" where
  "logP l = modifyS (\<lambda>p. p\<lparr>p_log := p_log p @ [l]\<rparr>)"

definition on_world :: "(world, 'a) se \<Rightarrow> (peer, 'a) se" where
  "on_world m p = (case m (p_world p) of (r, w) \<Rightarrow> (r, p\<lparr>p_world := w\<rparr>))"

text \<open>A region that stays registered, and the view of one that an operation on a buffer registers for itself.\<close>

definition reg_mrP :: "verbs \<Rightarrow> qp \<Rightarrow> ptr \<Rightarrow> size_t \<Rightarrow> (peer, local_mr) se" where
  "reg_mrP V q a n = bindS (on_world (reg_mr V (qp_pd q) a n reg_mr_default_flags)) (\<lambda>m.
     thenS (modifyS (\<lambda>p. case lmr_mr m of None \<Rightarrow> p | Some mr \<Rightarrow> p\<lparr>p_regions := p_regions p @ [mr]\<rparr>)) (returnS m))"

definition span_view :: "verbs \<Rightarrow> qp \<Rightarrow> ptr \<Rightarrow> size_t \<Rightarrow> (peer, mr_view) se" where
  "span_view V q a n = bindS (on_world (reg_mr V (qp_pd q) a n reg_mr_default_flags)) (\<lambda>m.
     liftS (mr_view_local m 0 whole_length))"

definition assertP :: "string \<Rightarrow> bool \<Rightarrow> (peer, unit) se" where
  "assertP s b = (if b then returnS () else throwS (Assert_failed s))"

text \<open>\<open>for (int i = from; n more rounds; i++) body\<close>.\<close>

primrec for_rounds :: "nat \<Rightarrow> nat \<Rightarrow> (nat \<Rightarrow> body \<Rightarrow> body) \<Rightarrow> body \<Rightarrow> body" where
  "for_rounds i 0 step k = k"
| "for_rounds i (Suc n) step k = step i (for_rounds (Suc i) n step k)"

section \<open>Both sides at work\<close>

text \<open>
  A peer waits for a completion (or has returned), was completed and is to be resumed, or has failed. Of the two
  sides only the left one issues one-sided requests, as in all examples.
\<close>

datatype status = Waiting co | Resumed body | Failed exn

type_synonym connection = "(status \<times> peer) \<times> (status \<times> peer)"

definition rem_error :: exn where
  "rem_error = Runtime_error ''work request failed''"

inductive link_step :: "cards \<Rightarrow> connection \<Rightarrow> connection \<Rightarrow> bool" for X where
  resume_left: "f p = (Inr c, p') \<Longrightarrow> link_step X ((Resumed f, p), R) ((Waiting c, p'), R)"
| throw_left: "f p = (Inl ex, p') \<Longrightarrow> link_step X ((Resumed f, p), R) ((Failed ex, p'), R)"
| resume_right: "f r = (Inr c, r') \<Longrightarrow> link_step X (L, (Resumed f, r)) (L, (Waiting c, r'))"
| throw_right: "f r = (Inl ex, r') \<Longrightarrow> link_step X (L, (Resumed f, r)) (L, (Failed ex, r'))"
| one_sided: "\<not> needs_receive q \<Longrightarrow> card_one_sided X (send_wr q v) p r = Some (p', r', n) \<Longrightarrow>
     link_step X ((Waiting (Co_send q v k), p), (st, r)) ((Resumed (k (value_returned q v n)), p'), (st, r'))"
| denied: "\<not> needs_receive q \<Longrightarrow> card_one_sided X (send_wr q v) p r = None \<Longrightarrow>
     link_step X ((Waiting (Co_send q v k), p), (st, r)) ((Failed rem_error, p), (st, r))"
| to_right: "needs_receive q \<Longrightarrow> card_two_sided X (send_wr q v) p (recv_sges w) r = Some (r', n, imm) \<Longrightarrow>
     link_step X ((Waiting (Co_send q v k), p), (Waiting (Co_recv w h), r))
       ((Resumed (k (value_returned q v 0)), p), (Resumed (h (n, imm)), r'))"
| to_left: "needs_receive q \<Longrightarrow> card_two_sided X (send_wr q v) r (recv_sges w) p = Some (p', n, imm) \<Longrightarrow>
     link_step X ((Waiting (Co_recv w h), p), (Waiting (Co_send q v k), r))
       ((Resumed (h (n, imm)), p'), (Resumed (k (value_returned q v 0)), r))"
| refused_right: "needs_receive q \<Longrightarrow> card_two_sided X (send_wr q v) p (recv_sges w) r = None \<Longrightarrow>
     link_step X ((Waiting (Co_send q v k), p), (Waiting (Co_recv w h), r)) ((Failed rem_error, p), (Failed rem_error, r))"
| refused_left: "needs_receive q \<Longrightarrow> card_two_sided X (send_wr q v) r (recv_sges w) p = None \<Longrightarrow>
     link_step X ((Waiting (Co_recv w h), p), (Waiting (Co_send q v k), r)) ((Failed rem_error, p), (Failed rem_error, r))"

end
