(* ===== verification/Dialogue.thy ===== *)
theory Dialogue
  imports Fabric
begin

text \<open>
  Two coroutines over a pair of connected queue pairs: whatever the interleaving, they end as one canonical run does, if they
  do not race. With the rules that build such a run, and the exchange every example starts with.
\<close>

section \<open>Every interleaving\<close>

text \<open>
  The canonical run of two coroutines: after each exchange the left side continues, and the right side has
  continued already. The right side may really be late: then its memory is \<open>late\<close> and what it still has to
  compute is \<open>f\<close>. So every one-sided request of the left side must find the same and leave the same behind whether
  the right side continued before or not: the two sides do not race. \<open>Q\<close> holds of the final state.
\<close>

inductive agrees :: "endian \<Rightarrow> (co \<Rightarrow> peer \<Rightarrow> co \<Rightarrow> peer \<Rightarrow> bool) \<Rightarrow> nat \<Rightarrow> co \<Rightarrow> peer \<Rightarrow> co \<Rightarrow> peer \<Rightarrow> body \<Rightarrow> peer \<Rightarrow> bool"
  for e Q where
  ended: "Q Co_return p c r \<Longrightarrow> c = Co_return \<or> (\<exists>w h. c = Co_recv w h) \<Longrightarrow> agrees e Q 0 Co_return p c r f late"
| alone: "\<not> needs_receive q \<Longrightarrow> one_sided e (send_wr q v) p r = Some (p1, r1, n) \<Longrightarrow>
     one_sided e (send_wr q v) p late = Some (p1, late1, n) \<Longrightarrow> f late1 = (Inr c, r1) \<Longrightarrow>
     k (value_returned q v n) p1 = (Inr a, p2) \<Longrightarrow> agrees e Q N a p2 c r1 f late1 \<Longrightarrow>
     agrees e Q (Suc N) (Co_send q v k) p c r f late"
| right: "needs_receive q \<Longrightarrow> two_sided (send_wr q v) p (recv_sges w) r = Some (r1, n, imm) \<Longrightarrow>
     k (value_returned q v 0) p = (Inr a, p1) \<Longrightarrow> h (n, imm) r1 = (Inr c, r2) \<Longrightarrow>
     agrees e Q N a p1 c r2 (h (n, imm)) r1 \<Longrightarrow>
     agrees e Q (Suc N) (Co_send q v k) p (Co_recv w h) r f late"
| left: "needs_receive q \<Longrightarrow> two_sided (send_wr q v) r (recv_sges w) p = Some (p1, n, imm) \<Longrightarrow>
     h (n, imm) p1 = (Inr a, p2) \<Longrightarrow> k (value_returned q v 0) r = (Inr c, r1) \<Longrightarrow>
     agrees e Q N a p2 c r1 (k (value_returned q v 0)) r \<Longrightarrow>
     agrees e Q (Suc N) (Co_recv w h) p (Co_send q v k) r f late"

definition side :: "status \<times> peer \<Rightarrow> co \<Rightarrow> peer \<Rightarrow> nat \<Rightarrow> bool" where
  "side s c p n \<longleftrightarrow> s = (Waiting c, p) \<and> n = 0 \<or> (\<exists>f p0. s = (Resumed f, p0) \<and> f p0 = (Inr c, p) \<and> n = 1)"

text \<open>What all interleavings of a canonical run of \<open>N\<close> exchanges keep; \<open>M\<close> bounds the steps still to come.\<close>

definition on_course :: "endian \<Rightarrow> (co \<Rightarrow> peer \<Rightarrow> co \<Rightarrow> peer \<Rightarrow> bool) \<Rightarrow> nat \<Rightarrow> connection \<Rightarrow> bool" where
  "on_course e Q M s \<longleftrightarrow> (\<exists>N a p c r f late i j. agrees e Q N a p c r f late \<and> f late = (Inr c, r) \<and>
     side (fst s) a p i \<and> (snd s = (Waiting c, r) \<and> j = 0 \<or> snd s = (Resumed f, late) \<and> j = 1) \<and> M = 3 * N + i + j)"

inductive_cases ended_stepE: "link_step X ((Waiting Co_return, p), (Waiting c, r)) t"
inductive_cases agreesE: "agrees e Q N a p c r f late"

lemma agrees_aloneE:
  assumes "agrees e Q N (Co_send q v k) p c r f late" and "\<not> needs_receive q"
  obtains p1 r1 n late1 a p2 M where "one_sided e (send_wr q v) p r = Some (p1, r1, n)"
    and "one_sided e (send_wr q v) p late = Some (p1, late1, n)" and "f late1 = (Inr c, r1)"
    and "k (value_returned q v n) p1 = (Inr a, p2)" and "agrees e Q M a p2 c r1 f late1" and "N = Suc M"
  using assms by (auto elim: agreesE)

lemma agrees_rightE:
  assumes "agrees e Q N (Co_send q v k) p (Co_recv w h) r f late" and "needs_receive q"
  obtains r1 n imm a p1 c r2 M where "two_sided (send_wr q v) p (recv_sges w) r = Some (r1, n, imm)"
    and "k (value_returned q v 0) p = (Inr a, p1)" and "h (n, imm) r1 = (Inr c, r2)"
    and "agrees e Q M a p1 c r2 (h (n, imm)) r1" and "N = Suc M"
  using assms by (auto elim: agreesE)

lemma agrees_leftE:
  assumes "agrees e Q N (Co_recv w h) p (Co_send q v k) r f late"
  obtains p1 n imm a p2 c r1 M where "two_sided (send_wr q v) r (recv_sges w) p = Some (p1, n, imm)"
    and "h (n, imm) p1 = (Inr a, p2)" and "k (value_returned q v 0) r = (Inr c, r1)"
    and "agrees e Q M a p2 c r1 (k (value_returned q v 0)) r" and "N = Suc M"
  using assms by (auto elim: agreesE)

lemma on_courseI:
  "agrees e Q N a p c r f late \<Longrightarrow> f late = (Inr c, r) \<Longrightarrow> side L a p i \<Longrightarrow>
   R = (Waiting c, r) \<and> j = 0 \<or> R = (Resumed f, late) \<and> j = 1 \<Longrightarrow> M = 3 * N + i + j \<Longrightarrow> on_course e Q M (L, R)"
  unfolding on_course_def by (metis fst_conv snd_conv)

text \<open>What cards that serve do with a request of a canonical run: they carry it out, and the run stays on course.\<close>

lemma alone_served:
  assumes X: "serves e X" and ag: "agrees e Q N (Co_send q v k) p c r f late" and "\<not> needs_receive q"
    and rt: "R = (Waiting c, r) \<and> j = 0 \<or> R = (Resumed f, late) \<and> j = 1"
  shows "\<exists>p' r' n M. card_one_sided X (send_wr q v) p (snd R) = Some (p', r', n) \<and> N = Suc M \<and>
     on_course e Q (3 * M + 1 + j) ((Resumed (k (value_returned q v n)), p'), (fst R, r'))"
proof -
  from agrees_aloneE [OF ag assms(3)] obtain p1 r1 n late1 b p2 M where
    x: "one_sided e (send_wr q v) p r = Some (p1, r1, n)" "one_sided e (send_wr q v) p late = Some (p1, late1, n)"
      "f late1 = (Inr c, r1)" "k (value_returned q v n) p1 = (Inr b, p2)" "agrees e Q M b p2 c r1 f late1" "N = Suc M" .
  have served: "card_one_sided X (send_wr q v) p r = Some (p1, r1, n)" "card_one_sided X (send_wr q v) p late = Some (p1, late1, n)"
    using X x(1,2) unfolding serves_def by blast+
  have left: "side (Resumed (k (value_returned q v n)), p1) b p2 1" using x(4) by (simp add: side_def)
  have "on_course e Q (3 * M + 1 + j) ((Resumed (k (value_returned q v n)), p1), (fst R, if j = 0 then r1 else late1))"
    by (rule on_courseI [OF x(5,3) left]) (use rt in auto)
  then show ?thesis using rt served x(6) by auto
qed

lemma right_served:
  assumes X: "serves e X" and ag: "agrees e Q N (Co_send q v k) p (Co_recv w h) r f late" and "needs_receive q"
  shows "\<exists>r' n imm M. card_two_sided X (send_wr q v) p (recv_sges w) r = Some (r', n, imm) \<and> N = Suc M \<and>
     on_course e Q (3 * M + 2) ((Resumed (k (value_returned q v 0)), p), (Resumed (h (n, imm)), r'))"
proof -
  from agrees_rightE [OF ag assms(3)] obtain r1 n imm b p1 d r2 M where
    y: "two_sided (send_wr q v) p (recv_sges w) r = Some (r1, n, imm)" and
    x: "k (value_returned q v 0) p = (Inr b, p1)" "h (n, imm) r1 = (Inr d, r2)" "agrees e Q M b p1 d r2 (h (n, imm)) r1" "N = Suc M" .
  have "on_course e Q (3 * M + 2) ((Resumed (k (value_returned q v 0)), p), (Resumed (h (n, imm)), r1))"
    by (rule on_courseI [OF x(3,2), where i = 1 and j = 1]) (use x(1) in \<open>auto simp: side_def\<close>)
  then show ?thesis using X y x(4) unfolding serves_def by blast
qed

lemma left_served:
  assumes X: "serves e X" and ag: "agrees e Q N (Co_recv w h) p (Co_send q v k) r f late"
  shows "\<exists>p' n imm M. card_two_sided X (send_wr q v) r (recv_sges w) p = Some (p', n, imm) \<and> N = Suc M \<and>
     on_course e Q (3 * M + 2) ((Resumed (h (n, imm)), p'), (Resumed (k (value_returned q v 0)), r))"
proof -
  from agrees_leftE [OF ag] obtain p1 n imm b p2 d r1 M where
    y: "two_sided (send_wr q v) r (recv_sges w) p = Some (p1, n, imm)" and
    x: "h (n, imm) p1 = (Inr b, p2)" "k (value_returned q v 0) r = (Inr d, r1)" "agrees e Q M b p2 d r1 (k (value_returned q v 0)) r" "N = Suc M" .
  have "on_course e Q (3 * M + 2) ((Resumed (h (n, imm)), p1), (Resumed (k (value_returned q v 0)), r))"
    by (rule on_courseI [OF x(3,2), where i = 1 and j = 1]) (use x(1) in \<open>auto simp: side_def\<close>)
  then show ?thesis using X y x(4) unfolding serves_def by blast
qed

lemma on_course_step:
  assumes X: "serves e X" and "on_course e Q M s" and "link_step X s t"
  shows "\<exists>M' < M. on_course e Q M' t"
proof -
  obtain N a p c r f late i j where ag: "agrees e Q N a p c r f late" and f: "f late = (Inr c, r)"
    and l: "side (fst s) a p i" and rt: "snd s = (Waiting c, r) \<and> j = 0 \<or> snd s = (Resumed f, late) \<and> j = 1"
    and M: "M = 3 * N + i + j"
    using assms(2) unfolding on_course_def by blast
  from assms(3) show ?thesis
  proof cases
    case (resume_left g p0 b p' R)
    then have now: "side (Waiting b, p') a p 0" "i = 1" using l by (auto simp: side_def)
    have "on_course e Q (3 * N + j) t" unfolding resume_left(2)
      by (rule on_courseI [OF ag f, where i = 0 and j = j]) (use now rt resume_left(1) in auto)
    then show ?thesis using M now by (intro exI [of _ "3 * N + j"]) simp
  next
    case (resume_right g r0 b r' L)
    then have now: "b = c" "r' = r" "j = 1" using rt f by auto
    have "on_course e Q (3 * N + i) t" unfolding resume_right(2)
      by (rule on_courseI [OF ag f, where i = i and j = 0]) (use now l resume_right(1) in auto)
    then show ?thesis using M now by (intro exI [of _ "3 * N + i"]) simp
  next
    case (one_sided q v p0 r0 p' r' n k st)
    then have a: "a = Co_send q v k" "p0 = p" using l by (auto simp: side_def)
    from alone_served [OF X ag [unfolded a(1)] one_sided(3) rt] obtain N' where "N = Suc N'" "on_course e Q (3 * N' + 1 + j) t"
      using one_sided(1,2,4) a(2) by auto
    then show ?thesis using M by (intro exI [of _ "3 * N' + 1 + j"]) simp
  next
    case (to_right q v p0 w r0 r' n imm k h)
    then have a: "a = Co_send q v k" "p0 = p" and c: "c = Co_recv w h" "r0 = r" using l rt by (auto simp: side_def)
    from right_served [OF X ag [unfolded a(1) c(1)] to_right(3)] obtain N' where "N = Suc N'" "on_course e Q (3 * N' + 2) t"
      using to_right(2,4) a(2) c(2) by auto
    then show ?thesis using M by (intro exI [of _ "3 * N' + 2"]) simp
  next
    case (to_left q v r0 w p0 p' n imm h k)
    then have a: "a = Co_recv w h" "p0 = p" and c: "c = Co_send q v k" "r0 = r" using l rt by (auto simp: side_def)
    from left_served [OF X ag [unfolded a(1) c(1)]] obtain N' where "N = Suc N'" "on_course e Q (3 * N' + 2) t"
      using to_left(2,4) a(2) c(2) by auto
    then show ?thesis using M by (intro exI [of _ "3 * N' + 2"]) simp
  next
    case (denied q v p0 r0 k st)
    then have a: "a = Co_send q v k" "p0 = p" using l by (auto simp: side_def)
    from alone_served [OF X ag [unfolded a(1)] denied(3) rt] show ?thesis using denied(1,4) a(2) by auto
  next
    case (refused_right q v p0 w r0 k h)
    then have a: "a = Co_send q v k" "p0 = p" "c = Co_recv w h" "r0 = r" using l rt by (auto simp: side_def)
    from right_served [OF X ag [unfolded a(1,3)] refused_right(3)] show ?thesis using refused_right(4) a by simp
  next
    case (refused_left q v r0 w p0 h k)
    then have a: "a = Co_recv w h" "p0 = p" "c = Co_send q v k" "r0 = r" using l rt by (auto simp: side_def)
    from left_served [OF X ag [unfolded a(1,3)]] show ?thesis using refused_left(4) a by simp
  qed (use l rt f in \<open>auto simp: side_def\<close>)
qed

lemma on_course_end:
  assumes X: "serves e X" and "on_course e Q M s" and "\<And>t. \<not> link_step X s t"
  shows "\<exists>p c r. s = ((Waiting Co_return, p), (Waiting c, r)) \<and> Q Co_return p c r"
proof -
  note serve = serves_def [THEN iffD1, OF X, THEN conjunct1, rule_format] serves_def [THEN iffD1, OF X, THEN conjunct2, rule_format]
  obtain N a p c r f late i j where ag: "agrees e Q N a p c r f late" and f: "f late = (Inr c, r)"
    and l: "side (fst s) a p i" and rt: "snd s = (Waiting c, r) \<and> j = 0 \<or> snd s = (Resumed f, late) \<and> j = 1"
    using assms(2) unfolding on_course_def by blast
  have "\<exists>t. link_step X s t" if "snd s = (Resumed f, late)"
    using link_step.resume_right [where f = f and r = late and c = c and r' = r and X = X and L = "fst s"] f that
    by (metis prod.collapse)
  moreover have "\<exists>t. link_step X s t" if "fst s = (Resumed g, p0)" "g p0 = (Inr a, p)" for g p0
    using link_step.resume_left [where f = g and p = p0 and c = a and p' = p and X = X and R = "snd s"] that
    by (metis prod.collapse)
  ultimately have s: "s = ((Waiting a, p), (Waiting c, r))"
    using l rt assms(3) by (auto simp: side_def prod_eq_iff)
  from ag show ?thesis
  proof cases
    case ended
    then show ?thesis using s by auto
  next
    case alone
    then show ?thesis using s assms(3) link_step.one_sided serve(1) by blast
  next
    case right
    then show ?thesis using s assms(3) link_step.to_right serve(2) by blast
  next
    case left
    then show ?thesis using s assms(3) link_step.to_left serve(2) by blast
  qed
qed

definition failed :: "connection \<Rightarrow> bool" where
  "failed s \<longleftrightarrow> (\<exists>ex p. fst s = (Failed ex, p) \<or> snd s = (Failed ex, p))"

lemma on_course_ok: "on_course e Q M s \<Longrightarrow> \<not> failed s"
  by (auto simp: on_course_def failed_def side_def)

definition connected :: "body \<Rightarrow> peer \<Rightarrow> body \<Rightarrow> peer \<Rightarrow> connection" where
  "connected f p g r = ((Resumed f, p), (Resumed g, r))"

text \<open>The steps of a run, counted.\<close>

inductive run_of :: "cards \<Rightarrow> connection \<Rightarrow> nat \<Rightarrow> connection \<Rightarrow> bool" for X s where
  run_0: "run_of X s 0 s"
| run_Suc: "run_of X s n t \<Longrightarrow> link_step X t u \<Longrightarrow> run_of X s (Suc n) u"

lemma on_course_run: "run_of X s n t \<Longrightarrow> serves e X \<Longrightarrow> on_course e Q M s \<Longrightarrow> \<exists>M'. n + M' \<le> M \<and> on_course e Q M' t"
proof (induction rule: run_of.induct)
  case (run_Suc n t u)
  then obtain M' where M': "n + M' \<le> M" "on_course e Q M' t" by blast
  from on_course_step [OF run_Suc.prems(1) M'(2) run_Suc.hyps(2)] obtain M'' where "M'' < M'" "on_course e Q M'' u" by blast
  with M'(1) show ?case by (intro exI [of _ M'']) simp
qed auto

text \<open>Two bodies, both still to be resumed, with a canonical run of \<open>N\<close> exchanges.\<close>

definition meets :: "endian \<Rightarrow> (co \<Rightarrow> peer \<Rightarrow> co \<Rightarrow> peer \<Rightarrow> bool) \<Rightarrow> nat \<Rightarrow> body \<Rightarrow> peer \<Rightarrow> body \<Rightarrow> peer \<Rightarrow> bool" where
  "meets e Q N f p g r \<longleftrightarrow> (\<exists>a p1 c r1. f p = (Inr a, p1) \<and> g r = (Inr c, r1) \<and> agrees e Q N a p1 c r1 g r)"

lemma meets_ended:
  "f p = (Inr Co_return, p1) \<Longrightarrow> g r = (Inr c, r1) \<Longrightarrow> c = Co_return \<or> (\<exists>w h. c = Co_recv w h) \<Longrightarrow>
   Q Co_return p1 c r1 \<Longrightarrow> meets e Q 0 f p g r"
  unfolding meets_def by (blast intro: agrees.ended)

lemma meets_alone:
  assumes "f p = (Inr (Co_send q v k), p1)" and "\<not> needs_receive q" and "g r = (Inr c, r1)"
    and "one_sided e (send_wr q v) p1 r = Some (p2, r2, n)" and "one_sided e (send_wr q v) p1 r1 = Some (p2, r3, n)"
    and "g r2 = (Inr c, r3)" and "meets e Q N (k (value_returned q v n)) p2 g r2"
  shows "meets e Q (Suc N) f p g r"
  using assms unfolding meets_def by (auto intro!: agrees.alone)

lemma meets_right:
  assumes "f p = (Inr (Co_send q v k), p1)" and "needs_receive q" and "g r = (Inr (Co_recv w h), r1)"
    and "two_sided (send_wr q v) p1 (recv_sges w) r1 = Some (r2, n, imm)"
    and "meets e Q N (k (value_returned q v 0)) p1 (h (n, imm)) r2"
  shows "meets e Q (Suc N) f p g r"
  using assms unfolding meets_def by (auto intro!: agrees.right)

lemma meets_left:
  assumes "f p = (Inr (Co_recv w h), p1)" and "g r = (Inr (Co_send q v k), r1)" and "needs_receive q"
    and "two_sided (send_wr q v) r1 (recv_sges w) p1 = Some (p2, n, imm)"
    and "meets e Q N (h (n, imm)) p2 (k (value_returned q v 0)) r1"
  shows "meets e Q (Suc N) f p g r"
  using assms unfolding meets_def by (auto intro!: agrees.left)

text \<open>
  Two bodies with a canonical run: no interleaving fails, none is longer than \<open>3 * N + 2\<close>
  steps, and one that cannot go on has ended as the canonical run does.
\<close>

definition concludes :: "cards \<Rightarrow> nat \<Rightarrow> connection \<Rightarrow> (co \<Rightarrow> peer \<Rightarrow> co \<Rightarrow> peer \<Rightarrow> bool) \<Rightarrow> bool" where
  "concludes X B s Q \<longleftrightarrow> (\<forall>n t. run_of X s n t \<longrightarrow> \<not> failed t \<and> n \<le> B \<and>
     ((\<exists>u. link_step X t u) \<or> (\<exists>p c r. t = ((Waiting Co_return, p), (Waiting c, r)) \<and> Q Co_return p c r)))"

lemma dialogue_outcome:
  assumes X: "serves e X" and m: "meets e Q N f p g r"
  shows "concludes X (3 * N + 2) (connected f p g r) Q"
  unfolding concludes_def
proof (intro allI impI)
  fix n t assume run: "run_of X (connected f p g r) n t"
  obtain a p1 c r1 where m: "f p = (Inr a, p1)" "g r = (Inr c, r1)" "agrees e Q N a p1 c r1 g r"
    using m unfolding meets_def by blast
  have "on_course e Q (3 * N + 2) (connected f p g r)"
    unfolding connected_def using on_courseI [OF m(3,2), of "(Resumed f, p)" 1 "(Resumed g, r)" 1 "3 * N + 2"] m(1)
    by (simp add: side_def)
  from on_course_run [OF run X this] obtain M' where M': "n + M' \<le> 3 * N + 2" "on_course e Q M' t" by blast
  have "(\<exists>u. link_step X t u) \<or> (\<exists>p c r. t = ((Waiting Co_return, p), (Waiting c, r)) \<and> Q Co_return p c r)"
    using on_course_end [OF X M'(2)] by blast
  with M' on_course_ok [OF M'(2)] show "\<not> failed t \<and> n \<le> 3 * N + 2 \<and>
     ((\<exists>u. link_step X t u) \<or> (\<exists>p c r. t = ((Waiting Co_return, p), (Waiting c, r)) \<and> Q Co_return p c r))" by simp
qed

text \<open>A run that ends exists whenever there is a bound on all runs.\<close>

lemma run_reaches_end:
  assumes "\<And>n t. run_of X s n t \<Longrightarrow> n \<le> B"
  shows "\<exists>n t. run_of X s n t \<and> (\<forall>u. \<not> link_step X t u)"
proof (rule ccontr)
  assume no_end: "\<not> ?thesis"
  have "\<exists>t. run_of X s n t" for n
  proof (induction n)
    case 0 show ?case using run_of.run_0 by blast
  next
    case (Suc n) then show ?case using no_end run_of.run_Suc by blast
  qed
  from this [of "Suc B"] assms show False using not_less_eq_eq by blast
qed

lemma concludes_ends:
  assumes "concludes X B s Q"
  shows "\<exists>n p c r. run_of X s n ((Waiting Co_return, p), (Waiting c, r)) \<and> n \<le> B \<and> Q Co_return p c r"
proof -
  obtain n t where run: "run_of X s n t" and final: "\<forall>u. \<not> link_step X t u"
    using run_reaches_end [of X s B] assms unfolding concludes_def by blast
  with assms obtain p c r where "t = ((Waiting Co_return, p), (Waiting c, r))" "Q Co_return p c r" "n \<le> B"
    unfolding concludes_def by blast
  with run show ?thesis by blast
qed

section \<open>Evaluation of bodies\<close>

text \<open>Every registration succeeds.\<close>

definition works :: "verbs \<Rightarrow> bool" where
  "works V \<longleftrightarrow> (\<forall>cs c. v_ptr V cs c \<noteq> 0)"

definition region_of :: "verbs \<Rightarrow> qp \<Rightarrow> ptr \<Rightarrow> size_t \<Rightarrow> world \<Rightarrow> ibv_mr" where
  "region_of V q a n w = \<lparr>mr_handle = v_ptr V (calls w) (reg_call q (a, n)), mr_addr = a, mr_length = n,
     mr_lkey = fst (v_keys V (calls w)), mr_rkey = snd (v_keys V (calls w))\<rparr>"

lemma lmr_new_region [simp]: "lmr_mr (new_region V q (a, n) w) = Some (region_of V q a n w)"
  by (simp add: new_region_def region_of_def local_mr_ctor_def)

definition registered :: "qp \<Rightarrow> ptr \<Rightarrow> size_t \<Rightarrow> peer \<Rightarrow> peer" where
  "registered q a n p = p\<lparr>p_world := record_call (reg_call q (a, n)) (p_world p)\<rparr>"

lemma reg_mr_works:
  "works V \<Longrightarrow> reg_mr V (qp_pd q) a n reg_mr_default_flags w = (Inr (new_region V q (a, n) w), record_call (reg_call q (a, n)) w)"
  by (auto simp: works_def reg_mr_def reg_call_def new_region_def local_mr_ctor_def se_defs se_simps Let_def split: prod.split)

lemma reg_mrP_works:
  "works V \<Longrightarrow> reg_mrP V q a n p = (Inr (new_region V q (a, n) (p_world p)),
     (registered q a n p)\<lparr>p_regions := p_regions p @ [region_of V q a n (p_world p)]\<rparr>)"
  by (simp add: reg_mrP_def on_world_def reg_mr_works se_defs registered_def)

lemma span_view_works:
  "works V \<Longrightarrow> span_view V q a n p = (Inr (whole_view V (a, n) (p_world p)), registered q a n p)"
  by (simp add: span_view_def on_world_def reg_mr_works se_defs registered_def new_region_def local_mr_ctor_def
      whole_view_def mr_view_local_def)

lemma region_of_fields [simp]:
  "mr_addr (region_of V q a n w) = a" "mr_length (region_of V q a n w) = n"
  by (simp_all add: region_of_def)

lemma registered_fields [simp]:
  "p_log (registered q a n p) = p_log p" "p_count (registered q a n p) = p_count p"
  "p_regions (registered q a n p) = p_regions p" "p_bytes (registered q a n p) = p_bytes p"
  "load b k (registered q a n p) = load b k p"
  by (simp_all add: registered_def load_def)

section \<open>Regions that travel\<close>

text \<open>
  How every example begins: one side serializes a region into an array at \<open>s\<close> and sends it; the other receives into
  an array of \<open>kSerializedSize\<close> bytes and reads it back.
\<close>

definition ascii :: "string \<Rightarrow> bytes" where
  "ascii s = map of_char s"

definition send_region :: "verbs \<Rightarrow> endian \<Rightarrow> qp \<Rightarrow> ptr \<Rightarrow> local_mr \<Rightarrow> body \<Rightarrow> body" where
  "send_region V e q s m k = bindS (liftS (local_mr_serialize e m)) (\<lambda>bs. thenS (writeP s bs)
     (bindS (span_view V q s (of_nat (length bs))) (\<lambda>v. await_send q R_send v (\<lambda>n. k))))"

definition recv_region :: "verbs \<Rightarrow> endian \<Rightarrow> qp \<Rightarrow> ptr \<Rightarrow> (remote_mr \<Rightarrow> body) \<Rightarrow> body" where
  "recv_region V e q s k = bindS (span_view V q s (of_nat remote_mr_kSerializedSize)) (\<lambda>v. await_recv v (\<lambda>(n, imm).
     bindS (readP s remote_mr_kSerializedSize) (\<lambda>bs. case remote_mr_deserialize e bs of
       None \<Rightarrow> throwS (Undefined_behaviour ''read past the serialized region'') | Some r \<Rightarrow> k r)))"

definition remote_of :: "ibv_mr \<Rightarrow> remote_mr" where
  "remote_of mr = \<lparr>rmr_addr = mr_addr mr, rmr_length = mr_length mr, rmr_rkey = mr_rkey mr\<rparr>"

lemma serialize_region:
  "lmr_mr m = Some mr \<Longrightarrow> local_mr_serialize e m = Inr (remote_mr_write e (remote_of mr))"
  by (simp add: local_mr_serialize_def remote_mr_write_def remote_of_def)

lemma deserialize_region: "remote_mr_deserialize e2 (remote_mr_write e1 r) = Some r"
  using remote_mr_codec.dec_enc [of e2 e1 r "[]"] by (simp add: remote_mr_deserialize_def)

lemma meets_leftI: "f p = f' p' \<Longrightarrow> meets e Q N f' p' g r \<Longrightarrow> meets e Q N f p g r"
  by (simp add: meets_def)

text \<open>Before an exchange that needs both sides it makes no difference what the right side has still to compute.\<close>

definition patient :: "body \<Rightarrow> peer \<Rightarrow> bool" where
  "patient f p \<longleftrightarrow> (\<forall>q v k p1. f p = (Inr (Co_send q v k), p1) \<longrightarrow> needs_receive q)"

lemma agrees_pending:
  "agrees e Q N a p c r f late \<Longrightarrow> (\<And>q v k. a = Co_send q v k \<Longrightarrow> needs_receive q) \<Longrightarrow> agrees e Q N a p c r f' late'"
  by (induction rule: agrees.induct) (auto intro: agrees.intros)

lemma meets_rightI: "g r = g' r' \<Longrightarrow> patient f p \<Longrightarrow> meets e Q N f p g' r' \<Longrightarrow> meets e Q N f p g r"
  unfolding meets_def patient_def by (metis agrees_pending)

lemma patient_recv [simp]: "f p = (Inr (Co_recv v k), p1) \<Longrightarrow> patient f p" "f p = (Inr Co_return, p1) \<Longrightarrow> patient f p"
  by (simp_all add: patient_def)

lemma nonzero_bool: "mr_view_bool (whole_view V (a, n) w) = (a \<noteq> 0)"
  by (simp add: mr_view_bool_def whole_view_def)

lemmas view_simps = whole_view_def fill_local_sge_def mr_view_lkey_def mr_view_bool_def recv_sges_def

lemma send_region_apply:
  assumes "works W" and "lmr_mr m = Some mr"
  shows "send_region W er q t m h r =
     (Inr (Co_send R_send (whole_view W (t, 20) (p_world r)) (\<lambda>n. h)), registered q t 20 (store t (remote_mr_write er (remote_of mr)) r))"
proof -
  have "length (remote_mr_write er (remote_of mr)) = 20" by (rule remote_mr_codec.enc_width)
  with assms show ?thesis
    by (simp add: send_region_def se_defs serialize_region writeP_def span_view_works await_send_def)
qed

lemma meets_region:
  assumes "works V" and "works W" and "lmr_mr m = Some mr" and "s \<noteq> 0"
    and "meets e Q N (k (remote_of mr)) (store s (remote_mr_write er (remote_of mr)) (registered q s 20 p))
           h (registered q' t 20 (store t (remote_mr_write er (remote_of mr)) r))"
  shows "meets e Q (Suc N) (recv_region V el q s k) p (send_region W er q' t m h) r"
proof -
  let ?bs = "remote_mr_write er (remote_of mr)" and ?r = "registered q' t 20 (store t (remote_mr_write er (remote_of mr)) r)"
  let ?p = "registered q s 20 p" and ?w = "whole_view V (s, 20) (p_world p)"
  let ?v = "whole_view W (t, 20) (p_world r)"
  let ?k = "\<lambda>(n :: u32, imm :: u32 option). bindS (readP s remote_mr_kSerializedSize) (\<lambda>bs. case remote_mr_deserialize el bs of
       None \<Rightarrow> throwS (Undefined_behaviour ''read past the serialized region'') | Some r \<Rightarrow> k r)"
  have len: "length ?bs = 20" by (rule remote_mr_codec.enc_width)
  have size: "remote_mr_kSerializedSize = 20" by (simp add: remote_mr_kSerializedSize_def)
  have l: "recv_region V el q s k p = (Inr (Co_recv ?w ?k), ?p)"
    using assms(1) by (simp add: recv_region_def se_defs span_view_works await_recv_def size)
  have g: "send_region W er q' t m h r = (Inr (Co_send R_send ?v (\<lambda>n. h)), ?r)"
    by (rule send_region_apply) (rule assms(2), rule assms(3))
  have x: "two_sided (send_wr R_send ?v) ?r (recv_sges ?w) ?p = Some (store s ?bs ?p, 20, None)"
    using assms(4) len by (simp add: two_sided.simps send_wr_def view_simps)
  have "?k (20, None) (store s ?bs ?p) = k (remote_of mr) (store s ?bs ?p)"
    using len by (simp add: se_defs readP_def deserialize_region size)
  with assms(5) have "meets e Q N (?k (20, None)) (store s ?bs ?p) h ?r" by (auto intro: meets_leftI)
  then show ?thesis by - (rule meets_left, rule l, rule g, simp, rule x, simp)
qed

lemma recv_region_patient: "works V \<Longrightarrow> patient (recv_region V e q s k) p"
  by (simp add: patient_def recv_region_def se_defs span_view_works await_recv_def)

text \<open>Both sides compute up to the next suspension.\<close>

lemma meets_resume:
  "f p = f' p' \<Longrightarrow> g r = g' r' \<Longrightarrow> patient f' p' \<Longrightarrow> meets e Q N f' p' g' r' \<Longrightarrow> meets e Q N f p g r"
  by (rule meets_leftI, assumption, rule meets_rightI)

section \<open>Loops\<close>

text \<open>Two bodies of which the left one does not begin with a one-sided request; both may be replaced by what they compute.\<close>

definition ready :: "endian \<Rightarrow> (co \<Rightarrow> peer \<Rightarrow> co \<Rightarrow> peer \<Rightarrow> bool) \<Rightarrow> nat \<Rightarrow> body \<Rightarrow> peer \<Rightarrow> body \<Rightarrow> peer \<Rightarrow> bool" where
  "ready e Q N f p g r \<longleftrightarrow> patient f p \<and> meets e Q N f p g r"

lemma ready_resume: "f p = f' p' \<Longrightarrow> g r = g' r' \<Longrightarrow> ready e Q N f' p' g' r' \<Longrightarrow> ready e Q N f p g r"
  unfolding ready_def by (metis meets_resume patient_def)

lemma meets_ready: "f p = f' p' \<Longrightarrow> g r = g' r' \<Longrightarrow> ready e Q N f' p' g' r' \<Longrightarrow> meets e Q N f p g r"
  unfolding ready_def by (metis meets_resume)

lemma ready_right:
  assumes "f p = (Inr (Co_send q v k), p1)" and "needs_receive q" and "g r = (Inr (Co_recv w h), r1)"
    and "two_sided (send_wr q v) p1 (recv_sges w) r1 = Some (r2, n, imm)"
    and "ready e Q N (k (value_returned q v 0)) p1 (h (n, imm)) r2"
  shows "ready e Q (Suc N) f p g r"
  using assms meets_right [of f p q v k p1 g r w h r1 r2 n imm e Q N] by (simp add: ready_def patient_def)

lemma ready_left:
  assumes "f p = (Inr (Co_recv w h), p1)" and "g r = (Inr (Co_send q v k), r1)" and "needs_receive q"
    and "two_sided (send_wr q v) r1 (recv_sges w) p1 = Some (p2, n, imm)"
    and "ready e Q N (h (n, imm)) p2 (k (value_returned q v 0)) r1"
  shows "ready e Q (Suc N) f p g r"
  using assms meets_left [of f p w h p1 g r q v k r1 p2 n imm e Q N] by (simp add: ready_def patient_def)

lemma ready_ended:
  "f p = (Inr Co_return, p1) \<Longrightarrow> g r = (Inr c, r1) \<Longrightarrow> c = Co_return \<or> (\<exists>w h. c = Co_recv w h) \<Longrightarrow>
   Q Co_return p1 c r1 \<Longrightarrow> ready e Q 0 f p g r"
  by (simp add: ready_def meets_ended)

text \<open>Both sides in step through a loop, with an invariant of the round and the two memories.\<close>

lemma ready_rounds:
  assumes "\<And>i kl kr p r N. I i p r \<Longrightarrow> (\<And>p' r'. I (Suc i) p' r' \<Longrightarrow> ready e Q N kl p' kr r') \<Longrightarrow>
      ready e Q (Suc N) (bl i kl) p (br i kr) r"
    and "\<And>p r. I (i + n) p r \<Longrightarrow> ready e Q M kl p kr r" and "I i p r"
  shows "ready e Q (n + M) (for_rounds i n bl kl) p (for_rounds i n br kr) r"
  using assms(2,3)
proof (induction n arbitrary: i p r)
  case 0
  then show ?case by simp
next
  case (Suc n)
  have "ready e Q (Suc (n + M)) (bl i (for_rounds (Suc i) n bl kl)) p (br i (for_rounds (Suc i) n br kr)) r"
    using Suc.prems by (intro assms(1) Suc.IH) simp_all
  then show ?case by simp
qed

lemma ready_region:
  assumes "works V" and "works W" and "lmr_mr m = Some mr" and "s \<noteq> 0"
    and "meets e Q N (k (remote_of mr)) (store s (remote_mr_write er (remote_of mr)) (registered q s 20 p))
           h (registered q' t 20 (store t (remote_mr_write er (remote_of mr)) r))"
  shows "ready e Q (Suc N) (recv_region V el q s k) p (send_region W er q' t m h) r"
  unfolding ready_def
  by (rule conjI, rule recv_region_patient, rule assms(1), rule meets_region, rule assms(1), rule assms(2), rule assms(3),
      rule assms(4), rule assms(5))

section \<open>One-sided requests\<close>

text \<open>
  A body that only logs before it suspends does not race with one-sided requests, whatever they access.
\<close>

definition logged :: "line list \<Rightarrow> peer \<Rightarrow> peer" where
  "logged ls p = p\<lparr>p_log := p_log p @ ls\<rparr>"

definition suspends :: "body \<Rightarrow> co \<Rightarrow> line list \<Rightarrow> bool" where
  "suspends g c ls \<longleftrightarrow> (\<forall>r. g r = (Inr c, logged ls r))"

lemma logged_fields [simp]: "p_log (logged ls p) = p_log p @ ls" "p_regions (logged ls p) = p_regions p"
  "p_count (logged ls p) = p_count p" "p_world (logged ls p) = p_world p" "load a n (logged ls p) = load a n p"
  "allowed key a n (logged ls p) = allowed key a n p"
  by (simp_all add: logged_def load_def allowed_def)

lemma store_logged [simp]: "store a bs (logged ls p) = logged ls (store a bs p)"
  by (rule peer.equality) (simp_all add: logged_def store_def cong: if_cong)

lemma allowed_store [simp]: "allowed key a n (store b bs p) = allowed key a n p"
  by (simp add: allowed_def)

lemma one_sided_logged:
  "one_sided e wr p r = Some (p', r', n) \<Longrightarrow> one_sided e wr p (logged ls r) = Some (p', logged ls r', n)"
  by (auto simp: one_sided.simps Let_def split: ibv_wr_opcode.splits list.splits ibv_wr_union.splits if_splits)

lemma meets_alone_quiet:
  assumes "suspends g c ls" and "f p = (Inr (Co_send q v k), p1)" and "\<not> needs_receive q"
    and "one_sided e (send_wr q v) p1 r = Some (p2, r2, n)" and "meets e Q N (k (value_returned q v n)) p2 g r2"
  shows "meets e Q (Suc N) f p g r"
proof -
  have g: "g r = (Inr c, logged ls r)" "g r2 = (Inr c, logged ls r2)" using assms(1) by (simp_all add: suspends_def)
  show ?thesis
    by (rule meets_alone, rule assms(2), rule assms(3), rule g(1), rule assms(4), rule one_sided_logged, rule assms(4),
        rule g(2), rule assms(5))
qed

section \<open>Symbolic evaluation\<close>

lemma logP_apply: "logP l p = (Inr (), logged [l] p)"
  by (simp add: logP_def logged_def se_defs)

lemma writeP_apply: "writeP a bs p = (Inr (), store a bs p)"
  by (simp add: writeP_def se_defs)

lemma thenS_Inr: "m p = (Inr x, p') \<Longrightarrow> thenS m k p = k p'"
  by (simp add: se_defs)

lemmas body_simps = thenS_def bindS_def logP_apply writeP_apply readP_def await_send_def await_recv_def returnS_def
  throwS_def liftS_def co_return_def assertP_def

lemmas card_simps = one_sided.simps two_sided.simps send_wr_def view_simps mr_view_remote_def mr_view_rkey_def remote_of_def

section \<open>An instance\<close>

definition steady_verbs :: verbs where
  "steady_verbs = quiet_verbs\<lparr>v_ptr := (\<lambda>h c. 1)\<rparr>"

lemma steady_works: "works steady_verbs"
  by (simp add: works_def steady_verbs_def)

definition sample_peer :: peer where
  "sample_peer = \<lparr>p_world = \<lparr>calls = [], next_sq_psn = 0\<rparr>, p_bytes = (\<lambda>a. 0), p_regions = [], p_log = [], p_count = 0\<rparr>"

end
