(* ===== verification/Simple_Rpc.thy ===== *)
theory Simple_Rpc
  imports Dialogue
begin

text \<open>
  \<^verbatim>\<open>examples/rpc.cc\<close>: the client writes 20 times with an immediate value, and the server runs the function registered under
  each value it receives.
\<close>

section \<open>Programs\<close>

definition rpc_msg :: bytes where
  "rpc_msg = ascii ''this is an rdmapp based rpc simple example''"

definition kRpcCnt :: nat where
  "kRpcCnt = 20"

text \<open>
  \<open>registered_rpc_fn[imm]()\<close>: the map has the keys 0 to 19; a missing key inserts an empty function, and
  calling that throws. The key is an \<open>int\<close>.
\<close>

definition run_rpc_fn :: "u32 \<Rightarrow> (peer, unit) se" where
  "run_rpc_fn imm = (if 0 \<le> sint imm \<and> sint imm < int kRpcCnt then logP (Log_nat ''rpc_{}'' (unat imm))
     else throwS Bad_function_call)"

text \<open>\<open>b\<close> is the address of \<open>buffer\<close>, \<open>s\<close> that of the serialized region.\<close>

definition rpc_round :: "nat \<Rightarrow> body \<Rightarrow> body" where
  "rpc_round i k = await_recv mr_view_empty (\<lambda>(n, imm). case imm of
     None \<Rightarrow> throwS (Assert_failed ''imm.has_value()'')
   | Some x \<Rightarrow> thenS (logP (Log_pair ''[{}] written by client: imm={}'' i (unat x))) (thenS (run_rpc_fn x) k))"

definition rpc_handle_qp :: "verbs \<Rightarrow> endian \<Rightarrow> qp \<Rightarrow> ptr \<Rightarrow> ptr \<Rightarrow> body" where
  "rpc_handle_qp V e q b s = thenS (writeP b rpc_msg)
     (bindS (reg_mrP V q b (of_nat (length rpc_msg))) (\<lambda>local_mr.
      send_region V e q s local_mr (thenS (logP (Log ''sent mr to client''))
        (for_rounds 0 kRpcCnt rpc_round co_return))))"

definition rpc_write :: "verbs \<Rightarrow> qp \<Rightarrow> ptr \<Rightarrow> remote_mr \<Rightarrow> nat \<Rightarrow> body \<Rightarrow> body" where
  "rpc_write V q b remote_mr i k = bindS (span_view V q b (of_nat (length rpc_msg))) (\<lambda>v.
     await_send q (R_write_with_imm (mr_view_remote remote_mr 0 whole_length) (of_nat i)) v (\<lambda>n. k))"

definition simple_rpc_client :: "verbs \<Rightarrow> endian \<Rightarrow> qp \<Rightarrow> ptr \<Rightarrow> ptr \<Rightarrow> body" where
  "simple_rpc_client V e q b s = recv_region V e q s (\<lambda>remote_mr.
     thenS (logP (Log ''received mr from server'')) (thenS (writeP b rpc_msg)
       (for_rounds 0 kRpcCnt (rpc_write V q b remote_mr) co_return)))"

section \<open>The calls arrive in order\<close>

lemma rpc_msg_length [simp]: "length rpc_msg = 42"
  by (simp add: rpc_msg_def ascii_def)

text \<open>What the server logs from round \<open>i\<close> on, \<open>n\<close> rounds long.\<close>

definition rpc_lines :: "nat \<Rightarrow> nat \<Rightarrow> line list" where
  "rpc_lines i n = concat (map (\<lambda>j. [Log_pair ''[{}] written by client: imm={}'' j j, Log_nat ''rpc_{}'' j]) [i..<i + n])"

lemma rpc_lines_Suc: "rpc_lines i (Suc n) = [Log_pair ''[{}] written by client: imm={}'' i i, Log_nat ''rpc_{}'' i] @ rpc_lines (Suc i) n"
  by (simp add: rpc_lines_def upt_conv_Cons)

lemma rpc_rounds:
  assumes "works V" and "legal q (R_write_with_imm (mr_view_remote m 0 whole_length) 0)"
    and "allowed (rmr_rkey m) (rmr_addr m) 42 r" and "i + n \<le> 20"
    and "\<And>p' r'. p_log r' = p_log r @ rpc_lines i n \<Longrightarrow> Q Co_return p' Co_return r'"
  shows "meets e Q n (for_rounds i n (rpc_write V q b m) co_return) p (for_rounds i n rpc_round co_return) r"
  using assms(3-)
proof (induction n arbitrary: i p r)
  case 0
  then show ?case
    by - (rule meets_ended, simp add: co_return_def returnS_def, simp add: co_return_def returnS_def, simp, simp add: rpc_lines_def)
next
  case (Suc n)
  let ?x = "of_nat i :: u32" and ?v = "whole_view V (b, 42) (p_world p)" and ?p = "registered q b 42 p"
  let ?rest = "for_rounds (Suc i) n rpc_round co_return" and ?next = "for_rounds (Suc i) n (rpc_write V q b m) co_return"
  let ?h = "\<lambda>(n :: u32, imm). case imm of None \<Rightarrow> throwS (Assert_failed ''imm.has_value()'')
      | Some x \<Rightarrow> thenS (logP (Log_pair ''[{}] written by client: imm={}'' i (unat x))) (thenS (run_rpc_fn x) ?rest)"
  let ?r = "store (rmr_addr m) (load b 42 p) r"
  let ?l = "?r\<lparr>p_log := p_log r @ [Log_pair ''[{}] written by client: imm={}'' i i, Log_nat ''rpc_{}'' i]\<rparr>"
  have i: "unat ?x = i" "sint ?x = int i" using Suc.prems(2) by (simp_all add: unat_of_nat signed_of_nat signed_take_bit_int_eq_self)
  have l: "for_rounds i (Suc n) (rpc_write V q b m) co_return p =
      (Inr (Co_send (R_write_with_imm (mr_view_remote m 0 whole_length) ?x) ?v (\<lambda>n. ?next)), ?p)"
    using assms(1,2) by (simp add: rpc_write_def se_defs span_view_works await_send_def)
  have g: "for_rounds i (Suc n) rpc_round co_return r = (Inr (Co_recv mr_view_empty ?h), r)"
    by (simp add: rpc_round_def await_recv_def returnS_def)
  have x: "two_sided (send_wr (R_write_with_imm (mr_view_remote m 0 whole_length) ?x) ?v) ?p (recv_sges mr_view_empty) r =
      Some (?r, 42, Some ?x)"
    using Suc.prems(1) by (simp add: two_sided.simps send_wr_def view_simps mr_view_remote_def mr_view_rkey_def)
  have now: "?h (42, Some ?x) ?r = ?rest ?l"
    using Suc.prems(2) i by (simp add: se_defs logP_def run_rpc_fn_def kRpcCnt_def)
  have later: "meets e Q n ?next ?p ?rest ?l"
    by (rule Suc.IH) (use Suc.prems in \<open>simp_all add: allowed_def rpc_lines_Suc\<close>)
  have waits: "patient ?next ?p"
    using assms(1,2)
    by (cases n) (simp_all add: patient_def rpc_write_def se_defs span_view_works await_send_def co_return_def)
  have "meets e Q n ?next ?p (?h (42, Some ?x)) ?r" by (rule meets_rightI, rule now, rule waits, rule later)
  then show ?case by - (rule meets_right, rule l, simp, rule g, rule x, simp)
qed

text \<open>
  Whatever the interleaving of client and server, no run of the RPC example fails or is longer than 65 steps, and each ends with
  both coroutines finished, after the server ran the functions 0 to 19 once each, in the order of the calls.
\<close>

theorem rpc_functions_in_order:
  assumes "serves e X" and "works V" and "works W" and "b \<noteq> 0" and "s \<noteq> 0"
  shows "concludes X 65 (connected (simple_rpc_client V el q a s) p (rpc_handle_qp W er q' b t) r)
     (\<lambda>_ p' c r'. c = Co_return \<and> p_log r' = p_log r @ [Log ''sent mr to client''] @ rpc_lines 0 20)"
proof -
  let ?m = "new_region W q' (b, 42) (p_world r)" and ?mr = "region_of W q' b 42 (p_world r)"
  let ?r = "(registered q' b 42 (store b rpc_msg r))\<lparr>p_regions := p_regions r @ [?mr]\<rparr>"
  let ?r1 = "registered q' t 20 (store t (remote_mr_write er (remote_of ?mr)) ?r)"
  let ?p1 = "store s (remote_mr_write er (remote_of ?mr)) (registered q s 20 p)"
  let ?p2 = "store a rpc_msg (?p1\<lparr>p_log := p_log p @ [Log ''received mr from server'']\<rparr>)"
  let ?r2 = "?r1\<lparr>p_log := p_log r @ [Log ''sent mr to client'']\<rparr>"
  let ?Q = "\<lambda>_ p' c r'. c = Co_return \<and> p_log r' = p_log r @ [Log ''sent mr to client''] @ rpc_lines 0 20"
  let ?loop = "for_rounds 0 kRpcCnt (rpc_write V q a (remote_of ?mr)) co_return"
  have legal: "legal q (R_write_with_imm (mr_view_remote (remote_of ?mr) 0 whole_length) 0)"
    using assms(4) by (simp add: mr_view_remote_def remote_of_def)
  have ok: "allowed (rmr_rkey (remote_of ?mr)) (rmr_addr (remote_of ?mr)) 42 ?r2"
    by (auto simp: allowed_def remote_of_def)
  have loop: "meets e ?Q 20 ?loop ?p2 (for_rounds 0 kRpcCnt rpc_round co_return) ?r2"
    using rpc_rounds [OF assms(2) legal ok, of 0 20 ?Q] by (simp add: kRpcCnt_def)
  have waits: "patient ?loop ?p2"
    using assms(2) legal by (simp add: kRpcCnt_def numeral_eq_Suc patient_def rpc_write_def se_defs span_view_works await_send_def)
  let ?k = "\<lambda>m. thenS (logP (Log ''received mr from server'')) (thenS (writeP a rpc_msg) (for_rounds 0 kRpcCnt (rpc_write V q a m) co_return))"
  let ?h = "thenS (logP (Log ''sent mr to client'')) (for_rounds 0 kRpcCnt rpc_round co_return)"
  have "meets e ?Q 20 (?k (remote_of ?mr)) ?p1 ?h ?r1"
    by (rule meets_resume [where f' = ?loop and p' = ?p2 and g' = "for_rounds 0 kRpcCnt rpc_round co_return" and r' = ?r2])
      (simp add: se_defs logP_def writeP_def, simp add: se_defs logP_def, rule waits, rule loop)
  then have "meets e ?Q 21 (simple_rpc_client V el q a s) p (send_region W er q' t ?m ?h) ?r"
    using meets_region [OF assms(2,3) _ assms(5), where m = ?m and mr = ?mr and N = 20 and k = ?k and h = ?h]
    by (simp add: simple_rpc_client_def)
  then have "meets e ?Q 21 (simple_rpc_client V el q a s) p (rpc_handle_qp W er q' b t) r"
    by (rule meets_rightI [rotated 2])
      (use assms(2,3) in \<open>simp_all add: rpc_handle_qp_def simple_rpc_client_def recv_region_patient se_defs writeP_def reg_mrP_works\<close>)
  from dialogue_outcome [OF assms(1) this] show ?thesis by simp
qed

theorem rpc_functions_in_order_witness:
  "\<exists>n p c r. run_of (plain_cards Little)
      (connected (simple_rpc_client steady_verbs Little sample_qp 4096 8192) sample_peer
         (rpc_handle_qp steady_verbs Big sample_qp 4096 8192) sample_peer) n ((Waiting Co_return, p), (Waiting c, r)) \<and>
     n \<le> 65 \<and> p_log r = Log ''sent mr to client'' # rpc_lines 0 20"
proof -
  have "(4096 :: ptr) \<noteq> 0" "(8192 :: ptr) \<noteq> 0" by simp_all
  from rpc_functions_in_order [OF plain_cards_serve steady_works steady_works this]
  have "concludes (plain_cards Little) 65 (connected (simple_rpc_client steady_verbs Little sample_qp 4096 8192) sample_peer
         (rpc_handle_qp steady_verbs Big sample_qp 4096 8192) sample_peer)
       (\<lambda>_ p' c r'. c = Co_return \<and> p_log r' = p_log sample_peer @ [Log ''sent mr to client''] @ rpc_lines 0 20)" .
  from concludes_ends [OF this] show ?thesis by (auto simp: sample_peer_def)
qed

end
