(* ===== verification/Bandwidth.thy ===== *)
theory Bandwidth
  imports Dialogue
begin

text \<open>
  \<^verbatim>\<open>examples/write_bw.cc\<close>: the client fills the server's buffer again and again, and ends with an immediate value that the server
  checks; and the pool of io contexts the coroutines of the example run on.
\<close>

section \<open>Client and server\<close>

definition bw_kBufferSizeBytes :: size_t where
  "bw_kBufferSizeBytes = 1024 * 1024"

definition bw_kSendCount :: nat where
  "bw_kSendCount = 1024 * 1024 * 1024"

text \<open>\<open>buffer.resize(kBufferSizeBytes)\<close> of an empty vector.\<close>

definition bw_zeros :: bytes where
  "bw_zeros = replicate (unat bw_kBufferSizeBytes) 0"

text \<open>\<open>p_count\<close> is the client's own element of \<open>gSendCounts\<close>.\<close>

definition bw_round :: "qp \<Rightarrow> remote_mr \<Rightarrow> local_mr \<Rightarrow> nat \<Rightarrow> body \<Rightarrow> body" where
  "bw_round q remote_mr m i k = bindS (liftS (mr_view_shared (Some m))) (\<lambda>v.
     await_send q (R_write (mr_view_remote remote_mr 0 whole_length)) v (\<lambda>n.
       thenS (modifyS (\<lambda>p. p\<lparr>p_count := p_count p + 1\<rparr>)) k))"

definition bw_finish :: "qp \<Rightarrow> remote_mr \<Rightarrow> local_mr \<Rightarrow> body" where
  "bw_finish q remote_mr m = bindS (liftS (mr_view_shared (Some m))) (\<lambda>v.
     await_send q (R_write_with_imm (mr_view_remote remote_mr 0 whole_length) 0xDEADBEEF) v (\<lambda>n. co_return))"

definition bw_client_worker :: "verbs \<Rightarrow> endian \<Rightarrow> qp \<Rightarrow> ptr \<Rightarrow> ptr \<Rightarrow> body" where
  "bw_client_worker V e q b s = thenS (writeP b bw_zeros) (bindS (reg_mrP V q b bw_kBufferSizeBytes) (\<lambda>m.
     recv_region V e q s (\<lambda>remote_mr. thenS (logP (Log ''received mr from server''))
       (for_rounds 0 bw_kSendCount (bw_round q remote_mr m) (bw_finish q remote_mr m)))))"

definition bw_check :: "u32 \<times> u32 option \<Rightarrow> body" where
  "bw_check res = (case snd res of
     None \<Rightarrow> throwS (Runtime_error ''No imm received'')
   | Some x \<Rightarrow> if x \<noteq> 0xDEADBEEF then throwS (Runtime_error ''Wrong imm received'') else co_return)"

definition bw_await_imm :: body where
  "bw_await_imm = thenS (logP (Log ''sent mr to client'')) (await_recv mr_view_empty bw_check)"

definition bw_handler :: "verbs \<Rightarrow> endian \<Rightarrow> qp \<Rightarrow> ptr \<Rightarrow> ptr \<Rightarrow> body" where
  "bw_handler V e q b s = thenS (writeP b bw_zeros) (bindS (reg_mrP V q b bw_kBufferSizeBytes) (\<lambda>m.
     send_region V e q s m bw_await_imm))"

section \<open>The transfer ends\<close>

lemma bw_rounds:
  assumes "suspends g c ls" and "lmr_mr m = Some mr" and "mr_length mr = bw_kBufferSizeBytes"
    and "legal q (R_write (mr_view_remote a 0 whole_length))"
    and "allowed (rmr_rkey a) (rmr_addr a) 1048576 r"
    and "\<And>p' r'. p_count p' = p_count p + of_nat n \<Longrightarrow> allowed (rmr_rkey a) (rmr_addr a) 1048576 r' \<Longrightarrow> p_log r' = p_log r \<Longrightarrow> meets e Q N k p' g r'"
  shows "meets e Q (n + N) (for_rounds i n (bw_round q a m) k) p g r"
  using assms(5-)
proof (induction n arbitrary: i p r)
  case 0
  then show ?case by simp
next
  case (Suc n)
  let ?v = "\<lparr>view_addr = mr_addr mr, view_length = bw_kBufferSizeBytes, view_key = mr_lkey mr\<rparr>"
  let ?k = "\<lambda>n' :: u32. thenS (modifyS (\<lambda>p. p\<lparr>p_count := p_count p + 1\<rparr>)) (for_rounds (Suc i) n (bw_round q a m) k)"
  let ?r = "store (rmr_addr a) (load (mr_addr mr) 1048576 p) r" and ?p = "p\<lparr>p_count := p_count p + 1\<rparr>"
  have l: "for_rounds i (Suc n) (bw_round q a m) k p = (Inr (Co_send (R_write (mr_view_remote a 0 whole_length)) ?v ?k), p)"
    using assms(2-4) by (simp add: bw_round_def se_defs mr_view_shared_def mr_view_local_def await_send_def)
  have x: "one_sided e (send_wr (R_write (mr_view_remote a 0 whole_length)) ?v) p r = Some (p, ?r, 0)"
    using Suc.prems(1)
    by (simp add: one_sided.simps send_wr_def fill_local_sge_def mr_view_remote_def mr_view_rkey_def bw_kBufferSizeBytes_def)
  have "meets e Q (n + N) (for_rounds (Suc i) n (bw_round q a m) k) ?p g ?r"
    by (rule Suc.IH) (use Suc.prems in \<open>simp_all add: algebra_simps\<close>)
  then have "meets e Q (n + N) (?k (value_returned (R_write (mr_view_remote a 0 whole_length)) ?v 0)) p g ?r"
    by (rule meets_leftI [rotated]) (simp add: se_defs)
  then show ?case unfolding add_Suc
    by - (rule meets_alone_quiet, rule assms(1), rule l, simp, rule x)
qed

lemma bw_await_imm_suspends: "suspends bw_await_imm (Co_recv mr_view_empty bw_check) [Log ''sent mr to client'']"
  by (simp add: bw_await_imm_def suspends_def se_defs logP_def await_recv_def logged_def)

lemma bw_last:
  assumes "legal q (R_write (mr_view_remote a 0 whole_length))" and "lmr_mr m = Some mr"
    and "mr_length mr = bw_kBufferSizeBytes" and "allowed (rmr_rkey a) (rmr_addr a) 1048576 r"
    and "\<And>r'. p_log r' = p_log r @ [Log ''sent mr to client''] \<Longrightarrow> Q Co_return p Co_return r'"
  shows "meets e Q 1 (bw_finish q a m) p bw_await_imm r"
proof -
  let ?w = "R_write_with_imm (mr_view_remote a 0 whole_length) 0xDEADBEEF"
  let ?v = "\<lparr>view_addr = mr_addr mr, view_length = bw_kBufferSizeBytes, view_key = mr_lkey mr\<rparr>"
  let ?r = "logged [Log ''sent mr to client''] r"
  let ?r1 = "logged [Log ''sent mr to client''] (store (rmr_addr a) (load (mr_addr mr) 1048576 p) r)"
  have l: "bw_finish q a m p = (Inr (Co_send ?w ?v (\<lambda>n. co_return)), p)"
    using assms(1-3) by (simp add: bw_finish_def se_defs mr_view_shared_def mr_view_local_def await_send_def)
  have g: "bw_await_imm r = (Inr (Co_recv mr_view_empty bw_check), ?r)"
    using bw_await_imm_suspends by (simp add: suspends_def)
  have x: "two_sided (send_wr ?w ?v) p (recv_sges mr_view_empty) ?r = Some (?r1, 1048576, Some 0xDEADBEEF)"
    using assms(4) by (simp add: two_sided.simps send_wr_def view_simps mr_view_remote_def mr_view_rkey_def bw_kBufferSizeBytes_def)
  have "meets e Q 0 co_return p (bw_check (1048576, Some 0xDEADBEEF)) ?r1"
    by (rule meets_ended, simp add: co_return_def returnS_def, simp add: co_return_def returnS_def bw_check_def, simp, simp add: assms)
  then show ?thesis unfolding One_nat_def by - (rule meets_right, rule l, simp, rule g, rule x)
qed

text \<open>
  C38: whatever the interleaving, the transfer of the example never fails, takes at most three steps for each of its
  \<open>2\<^sup>3\<^sup>0 + 2\<close> exchanges, and ends with both coroutines finished: the client counted every write, and the server got the immediate value it
  checks for.
\<close>

theorem bw_transfer_ends:
  assumes "serves e X" and "works V" and "works W" and "b \<noteq> 0" and "s \<noteq> 0"
  shows "concludes X (3 * (2 ^ 30 + 2) + 2) (connected (bw_client_worker V el q a s) p (bw_handler W er q' b t) r)
     (\<lambda>_ p' c r'. c = Co_return \<and> p_count p' = p_count p + 2 ^ 30 \<and> p_log r' = p_log r @ [Log ''sent mr to client''])"
proof -
  let ?n = bw_kBufferSizeBytes and ?Q = "\<lambda>_ p' c r'. c = Co_return \<and> p_count p' = p_count p + 2 ^ 30 \<and>
     p_log r' = p_log r @ [Log ''sent mr to client'']"
  let ?m = "new_region V q (a, ?n) (p_world p)" and ?mr = "region_of V q a ?n (p_world p)"
  let ?sm = "new_region W q' (b, ?n) (p_world r)" and ?smr = "region_of W q' b ?n (p_world r)"
  let ?p = "(registered q a ?n (store a bw_zeros p))\<lparr>p_regions := p_regions p @ [?mr]\<rparr>"
  let ?r = "(registered q' b ?n (store b bw_zeros r))\<lparr>p_regions := p_regions r @ [?smr]\<rparr>"
  let ?bs = "remote_mr_write er (remote_of ?smr)" and ?a = "remote_of ?smr"
  let ?r1 = "registered q' t 20 (store t ?bs ?r)" and ?p1 = "store s ?bs (registered q s 20 ?p)"
  let ?k = "\<lambda>a. thenS (logP (Log ''received mr from server'')) (for_rounds 0 bw_kSendCount (bw_round q a ?m) (bw_finish q a ?m))"
  have legal: "legal q (R_write (mr_view_remote ?a 0 whole_length))"
    using assms(4) by (simp add: mr_view_remote_def remote_of_def)
  have ok: "allowed (rmr_rkey ?a) (rmr_addr ?a) 1048576 ?r1"
    by (auto simp: allowed_def remote_of_def bw_kBufferSizeBytes_def)
  have "meets e ?Q (bw_kSendCount + 1) (?k ?a) ?p1 bw_await_imm ?r1"
    by (rule meets_leftI [where f' = "for_rounds 0 bw_kSendCount (bw_round q ?a ?m) (bw_finish q ?a ?m)" and
          p' = "logged [Log ''received mr from server''] ?p1"], simp add: se_defs logP_def logged_def,
        rule bw_rounds, rule bw_await_imm_suspends, rule lmr_new_region, simp, rule legal, rule ok,
        rule bw_last, rule legal, rule lmr_new_region, simp, assumption)
      (simp add: bw_kSendCount_def)
  then have "meets e ?Q (Suc (bw_kSendCount + 1)) (recv_region V el q s ?k) ?p (send_region W er q' t ?sm bw_await_imm) ?r"
    by (rule meets_region [OF assms(2,3) lmr_new_region assms(5)])
  then have "meets e ?Q (Suc (bw_kSendCount + 1)) (bw_client_worker V el q a s) p (bw_handler W er q' b t) r"
    by - (rule meets_resume, simp_all add: bw_client_worker_def bw_handler_def se_defs writeP_def reg_mrP_works assms(2,3) recv_region_patient)
  from dialogue_outcome [OF assms(1) this] show ?thesis by (simp add: bw_kSendCount_def)
qed

theorem bw_transfer_ends_witness:
  "\<exists>n p c r. run_of (plain_cards Little)
      (connected (bw_client_worker steady_verbs Little sample_qp 4096 8192) sample_peer
         (bw_handler steady_verbs Little sample_qp 4096 8192) sample_peer) n ((Waiting Co_return, p), (Waiting c, r)) \<and>
     c = Co_return \<and> p_count p = 2 ^ 30"
proof -
  have "(4096 :: ptr) \<noteq> 0" "(8192 :: ptr) \<noteq> 0" by simp_all
  from bw_transfer_ends [OF plain_cards_serve steady_works steady_works this]
  have "concludes (plain_cards Little) (3 * (2 ^ 30 + 2) + 2) (connected (bw_client_worker steady_verbs Little sample_qp 4096 8192) sample_peer
         (bw_handler steady_verbs Little sample_qp 4096 8192) sample_peer)
     (\<lambda>_ p' c r'. c = Co_return \<and> p_count p' = p_count sample_peer + 2 ^ 30 \<and>
        p_log r' = p_log sample_peer @ [Log ''sent mr to client''])" .
  from concludes_ends [OF this] show ?thesis by (fastforce simp: sample_peer_def)
qed

section \<open>The pool of io contexts\<close>

text \<open>
  An \<open>io_context\<close> is whether it was stopped; a worker thread is the index of the context it polls, and ends when that is stopped.
  \<open>selector_\<close> is an atomic \<open>int\<close>, converted to \<open>size_t\<close> for the remainder.
\<close>

record io_ctx_pool =
  icp_selector :: "32 word"
  icp_io_ctx :: "bool list"
  icp_workers :: "nat list"

definition io_ctx_pool_ctor :: "nat \<Rightarrow> io_ctx_pool" where
  "io_ctx_pool_ctor nr_worker = \<lparr>icp_selector = 0, icp_io_ctx = replicate nr_worker False, icp_workers = []\<rparr>"

definition icp_run :: "io_ctx_pool \<Rightarrow> io_ctx_pool" where
  "icp_run c = c\<lparr>icp_workers := icp_workers c @ [0..<length (icp_io_ctx c)]\<rparr>"

definition icp_stop :: "io_ctx_pool \<Rightarrow> io_ctx_pool" where
  "icp_stop c = c\<lparr>icp_io_ctx := map (\<lambda>stopped. if \<not> stopped then True else stopped) (icp_io_ctx c)\<rparr>"

text \<open>\<open>wait\<close> returns when every worker thread has ended.\<close>

definition icp_wait_returns :: "io_ctx_pool \<Rightarrow> bool" where
  "icp_wait_returns c = list_all (\<lambda>i. icp_io_ctx c ! i) (icp_workers c)"

definition icp_get_shared :: "(io_ctx_pool, nat) se" where
  "icp_get_shared c = (let i = icp_selector c + 1 in
     (if icp_io_ctx c = [] then Inl (Undefined_behaviour ''modulo by io_ctx_.size()'')
      else Inr (unat (scast i :: size_t) mod length (icp_io_ctx c)), c\<lparr>icp_selector := i\<rparr>))"

lemma scast_mod:
  assumes "n dvd 2 ^ 32"
  shows "unat (scast (i :: 32 word) :: size_t) mod n = unat i mod n"
proof -
  have d: "int n dvd 2 ^ 32" using assms by (metis int_dvd_int_iff of_nat_numeral of_nat_power)
  then have d64: "int n dvd 2 ^ 64" using dvd_trans [OF d, of "2 ^ 64"] by (simp add: le_imp_power_dvd)
  have "uint (scast i :: size_t) = sint i mod 2 ^ 64"
    using uint_word_of_int [of "sint i", where 'a = 64] by (simp only: scast_eq) simp
  moreover have "uint i = sint i mod 2 ^ 32"
    using uint_word_of_int [of "sint i", where 'a = 32] by (simp only: of_int_sint) simp
  ultimately have "uint (scast i :: size_t) mod int n = uint i mod int n"
    by (simp only: mod_mod_cancel [OF d] mod_mod_cancel [OF d64])
  then have "int (unat (scast i :: size_t) mod n) = int (unat i mod n)" by (simp only: of_nat_mod uint_nat)
  then show ?thesis by (rule of_nat_eq_iff [THEN iffD1])
qed

text \<open>
  The contexts are handed out in turn, also across the wrap-around of the selector, and after \<open>stop\<close> every worker ends.
\<close>

lemma icp_round_robin:
  assumes "length (icp_io_ctx c) dvd 2 ^ 32"
  shows "icp_get_shared c = (Inr (Suc (unat (icp_selector c)) mod length (icp_io_ctx c)), c\<lparr>icp_selector := icp_selector c + 1\<rparr>)"
proof -
  have "unat (icp_selector c + 1) mod length (icp_io_ctx c) = Suc (unat (icp_selector c)) mod length (icp_io_ctx c)"
    using mod_mod_cancel [OF assms, of "Suc (unat (icp_selector c))"] by (simp add: unat_word_ariths)
  then show ?thesis using assms scast_mod [OF assms] by (auto simp: icp_get_shared_def Let_def)
qed

lemma icp_stop_ends: "icp_wait_returns (icp_stop (icp_run (io_ctx_pool_ctor n)))"
  by (simp add: icp_wait_returns_def icp_stop_def icp_run_def io_ctx_pool_ctor_def list_all_iff)

end
