(* ===== verification/Latency.thy ===== *)
theory Latency
  imports Dialogue
begin

text \<open>
  \<^verbatim>\<open>examples/latency.cc\<close> and \<^verbatim>\<open>examples/latency_raw.cc\<close>: a million writes with immediate value, then a million sends, each received by
  the server. The times that are measured and printed are left out of the log lines.
\<close>

section \<open>Programs\<close>

definition lat_kMessageSize :: nat where
  "lat_kMessageSize = 4096"

definition lat_kSendCount :: nat where
  "lat_kSendCount = 1000000"

definition lat_kBatchSize :: nat where
  "lat_kBatchSize = 100000"

text \<open>\<open>latency_raw.cc\<close> reports after every \<open>kBatchSize\<close> rounds.\<close>

definition no_batch :: "nat \<Rightarrow> peer \<Rightarrow> peer" where
  "no_batch i = logged []"

definition lat_batch :: "string \<Rightarrow> nat \<Rightarrow> peer \<Rightarrow> peer" where
  "lat_batch tag i = logged (if i \<noteq> 0 \<and> i mod lat_kBatchSize = 0 then [Log_nat (tag @ '' batch {:7d}'') i] else [])"

definition recv_imm_round :: "(nat \<Rightarrow> peer \<Rightarrow> peer) \<Rightarrow> nat \<Rightarrow> body \<Rightarrow> body" where
  "recv_imm_round batch i k = await_recv mr_view_empty (\<lambda>res. thenS (modifyS (batch i)) k)"

definition recv_mr_round :: "local_mr \<Rightarrow> (nat \<Rightarrow> peer \<Rightarrow> peer) \<Rightarrow> nat \<Rightarrow> body \<Rightarrow> body" where
  "recv_mr_round m batch i k = bindS (liftS (mr_view_local m 0 whole_length)) (\<lambda>v.
     await_recv v (\<lambda>res. thenS (modifyS (batch i)) k))"

definition lat_handler :: "verbs \<Rightarrow> endian \<Rightarrow> qp \<Rightarrow> ptr \<Rightarrow> ptr \<Rightarrow> body" where
  "lat_handler V e q b s = bindS (reg_mrP V q b (of_nat lat_kMessageSize)) (\<lambda>m.
     send_region V e q s m (thenS (logP (Log ''server: local buffer sent''))
       (for_rounds 0 lat_kSendCount (recv_imm_round no_batch)
         (thenS (logP (Log_nat ''[write_with_imm/recv] total operations: {}'' lat_kSendCount))
           (for_rounds 0 lat_kSendCount (recv_mr_round m no_batch)
             (thenS (logP (Log_nat ''[send/recv] total operations: {}'' lat_kSendCount)) co_return))))))"

definition raw_qp_handler :: "verbs \<Rightarrow> endian \<Rightarrow> qp \<Rightarrow> ptr \<Rightarrow> ptr \<Rightarrow> body" where
  "raw_qp_handler V e q b s = bindS (reg_mrP V q b (of_nat lat_kMessageSize)) (\<lambda>m.
     send_region V e q s m (thenS (logP (Log ''server: local buffer sent''))
       (for_rounds 0 lat_kSendCount (recv_imm_round (lat_batch ''[write_with_imm/recv]''))
         (thenS (logP (Log_nat ''[write_with_imm/recv] total operations: {}'' lat_kSendCount))
           (for_rounds 0 lat_kSendCount (recv_mr_round m (lat_batch ''[send/recv]''))
             (thenS (logP (Log_nat ''[send/recv] total operations: {}'' lat_kSendCount)) co_return))))))"

text \<open>
  The client receives the serialized region into the beginning of its own buffer, and then fills that.
\<close>

definition write_imm_round :: "qp \<Rightarrow> remote_mr \<Rightarrow> local_mr \<Rightarrow> nat \<Rightarrow> body \<Rightarrow> body" where
  "write_imm_round q remote_mr m i k = bindS (liftS (mr_view_local m 0 whole_length)) (\<lambda>v.
     await_send q (R_write_with_imm (mr_view_remote remote_mr 0 whole_length) (of_nat i)) v (\<lambda>n. k))"

definition send_round :: "qp \<Rightarrow> local_mr \<Rightarrow> nat \<Rightarrow> body \<Rightarrow> body" where
  "send_round q m i k = bindS (liftS (mr_view_local m 0 whole_length)) (\<lambda>v. await_send q R_send v (\<lambda>n. k))"

text \<open>The clients of both programs, up to the line they log for the region.\<close>

definition lat_client_of :: "(remote_mr \<Rightarrow> line) \<Rightarrow> verbs \<Rightarrow> endian \<Rightarrow> qp \<Rightarrow> ptr \<Rightarrow> body" where
  "lat_client_of line V e q b = bindS (reg_mrP V q b (of_nat lat_kMessageSize)) (\<lambda>m.
     bindS (liftS (mr_view_local m 0 (of_nat remote_mr_kSerializedSize))) (\<lambda>v. await_recv v (\<lambda>(nbytes, imm).
       thenS (assertP ''nbytes == rdmapp::remote_mr::kSerializedSize'' (unat nbytes = remote_mr_kSerializedSize))
       (bindS (readP (fst (mr_view_span v)) remote_mr_kSerializedSize) (\<lambda>bs. case remote_mr_deserialize e bs of
          None \<Rightarrow> throwS (Undefined_behaviour ''read past the serialized region'')
        | Some remote_mr \<Rightarrow> thenS (logP (line remote_mr))
            (thenS (writeP b (replicate lat_kMessageSize 0xdd))
              (for_rounds 0 lat_kSendCount (write_imm_round q remote_mr m)
                (for_rounds 0 lat_kSendCount (send_round q m) co_return))))))))"

definition lat_client_worker :: "verbs \<Rightarrow> endian \<Rightarrow> qp \<Rightarrow> ptr \<Rightarrow> body" where
  "lat_client_worker = lat_client_of (\<lambda>remote_mr. Log ''client: remote buffer recv'')"

definition raw_client_worker :: "verbs \<Rightarrow> endian \<Rightarrow> qp \<Rightarrow> ptr \<Rightarrow> body" where
  "raw_client_worker = lat_client_of (\<lambda>remote_mr. Log_nat ''client: remote buffer recv, size={}'' (unat (remote_mr_length remote_mr)))"

section \<open>Both phases\<close>

abbreviation dd :: bytes where "dd \<equiv> replicate 4096 0xdd"

lemma write_imm_rounds:
  assumes "legal q (R_write (mr_view_remote a 0 whole_length))" and "lmr_mr m = Some mr" and "mr_length mr = 4096"
    and "\<And>i r. batch i r = logged (ls i) r"
    and "load (mr_addr mr) 4096 p = dd" and "allowed (rmr_rkey a) (rmr_addr a) 4096 r"
    and "\<And>p' r'. load (mr_addr mr) 4096 p' = dd \<Longrightarrow> p_log r' = p_log r @ concat (map ls [0..<n]) \<Longrightarrow> ready e Q M kl p' kr r'"
  shows "ready e Q (n + M) (for_rounds 0 n (write_imm_round q a m) kl) p (for_rounds 0 n (recv_imm_round batch) kr) r"
proof (rule ready_rounds [where I = "\<lambda>i p' r'. load (mr_addr mr) 4096 p' = dd \<and> allowed (rmr_rkey a) (rmr_addr a) 4096 r' \<and>
    p_log r' = p_log r @ concat (map ls [0..<i])"])
  fix i kl' kr' p' r' N
  assume inv: "load (mr_addr mr) 4096 p' = dd \<and> allowed (rmr_rkey a) (rmr_addr a) 4096 r' \<and> p_log r' = p_log r @ concat (map ls [0..<i])"
    and next_ready: "\<And>p' r'. load (mr_addr mr) 4096 p' = dd \<and> allowed (rmr_rkey a) (rmr_addr a) 4096 r' \<and>
      p_log r' = p_log r @ concat (map ls [0..<Suc i]) \<Longrightarrow> ready e Q N kl' p' kr' r'"
  let ?q = "R_write_with_imm (mr_view_remote a 0 whole_length) (of_nat i)"
  let ?v = "\<lparr>view_addr = mr_addr mr, view_length = 4096, view_key = mr_lkey mr\<rparr>"
  let ?r = "store (rmr_addr a) dd r'"
  have l: "write_imm_round q a m i kl' p' = (Inr (Co_send ?q ?v (\<lambda>n. kl')), p')"
    using assms(1-3) by (simp add: write_imm_round_def se_defs mr_view_local_def await_send_def)
  have g: "recv_imm_round batch i kr' r' = (Inr (Co_recv mr_view_empty (\<lambda>res. thenS (modifyS (batch i)) kr')), r')"
    by (simp add: recv_imm_round_def await_recv_def returnS_def)
  have x: "two_sided (send_wr ?q ?v) p' (recv_sges mr_view_empty) r' = Some (?r, 4096, Some (of_nat i))"
    using inv by (simp add: two_sided.simps send_wr_def view_simps mr_view_remote_def mr_view_rkey_def)
  have "ready e Q N kl' p' kr' (logged (ls i) ?r)" by (rule next_ready) (use inv in simp)
  then have "ready e Q N kl' p' (thenS (modifyS (batch i)) kr') ?r"
    by (rule ready_resume [rotated 2]) (simp_all add: se_defs assms(4))
  then show "ready e Q (Suc N) (write_imm_round q a m i kl') p' (recv_imm_round batch i kr') r'"
    by - (rule ready_right, rule l, simp, rule g, rule x, simp)
next
  fix p' r'
  assume "load (mr_addr mr) 4096 p' = dd \<and> allowed (rmr_rkey a) (rmr_addr a) 4096 r' \<and> p_log r' = p_log r @ concat (map ls [0..<0 + n])"
  then show "ready e Q M kl p' kr r'" by (intro assms(7)) simp_all
qed (use assms in simp)

lemma send_rounds:
  assumes "lmr_mr m = Some mr" and "mr_length mr = 4096" and "lmr_mr m' = Some mr'" and "mr_length mr' = 4096" and "mr_addr mr' \<noteq> 0"
    and "\<And>i r. batch i r = logged (ls i) r" and "load (mr_addr mr) 4096 p = dd" and "n \<noteq> 0"
    and "\<And>p' r'. load (mr_addr mr') 4096 r' = dd \<Longrightarrow> p_log r' = p_log r @ concat (map ls [0..<n]) \<Longrightarrow> ready e Q M kl p' kr r'"
  shows "ready e Q (n + M) (for_rounds 0 n (send_round q m) kl) p (for_rounds 0 n (recv_mr_round m' batch) kr) r"
proof (rule ready_rounds [where I = "\<lambda>i p' r'. load (mr_addr mr) 4096 p' = dd \<and> (i \<noteq> 0 \<longrightarrow> load (mr_addr mr') 4096 r' = dd) \<and>
    p_log r' = p_log r @ concat (map ls [0..<i])"])
  fix i kl' kr' p' r' N
  assume inv: "load (mr_addr mr) 4096 p' = dd \<and> (i \<noteq> 0 \<longrightarrow> load (mr_addr mr') 4096 r' = dd) \<and> p_log r' = p_log r @ concat (map ls [0..<i])"
    and next_ready: "\<And>p' r'. load (mr_addr mr) 4096 p' = dd \<and> (Suc i \<noteq> 0 \<longrightarrow> load (mr_addr mr') 4096 r' = dd) \<and>
      p_log r' = p_log r @ concat (map ls [0..<Suc i]) \<Longrightarrow> ready e Q N kl' p' kr' r'"
  let ?v = "\<lparr>view_addr = mr_addr mr, view_length = 4096, view_key = mr_lkey mr\<rparr>"
  let ?w = "\<lparr>view_addr = mr_addr mr', view_length = 4096, view_key = mr_lkey mr'\<rparr>"
  let ?r = "store (mr_addr mr') dd r'"
  have l: "send_round q m i kl' p' = (Inr (Co_send R_send ?v (\<lambda>n. kl')), p')"
    using assms(1,2) by (simp add: send_round_def se_defs mr_view_local_def await_send_def)
  have g: "recv_mr_round m' batch i kr' r' = (Inr (Co_recv ?w (\<lambda>res. thenS (modifyS (batch i)) kr')), r')"
    using assms(3,4) by (simp add: recv_mr_round_def se_defs mr_view_local_def await_recv_def)
  have x: "two_sided (send_wr R_send ?v) p' (recv_sges ?w) r' = Some (?r, 4096, None)"
    using inv assms(5) by (simp add: two_sided.simps send_wr_def view_simps)
  have "ready e Q N kl' p' kr' (logged (ls i) ?r)" by (rule next_ready) (use inv in simp)
  then have "ready e Q N kl' p' (thenS (modifyS (batch i)) kr') ?r"
    by (rule ready_resume [rotated 2]) (simp_all add: se_defs assms(6))
  then show "ready e Q (Suc N) (send_round q m i kl') p' (recv_mr_round m' batch i kr') r'"
    by - (rule ready_right, rule l, simp, rule g, rule x, simp)
next
  fix p' r'
  assume "load (mr_addr mr) 4096 p' = dd \<and> (0 + n \<noteq> 0 \<longrightarrow> load (mr_addr mr') 4096 r' = dd) \<and> p_log r' = p_log r @ concat (map ls [0..<0 + n])"
  then show "ready e Q M kl p' kr r'" using assms(8) by (intro assms(9)) simp_all
qed (use assms in simp)

section \<open>The whole exchange\<close>

text \<open>Both servers differ in what they log after a round only.\<close>

definition lat_phases :: "local_mr \<Rightarrow> (nat \<Rightarrow> peer \<Rightarrow> peer) \<Rightarrow> (nat \<Rightarrow> peer \<Rightarrow> peer) \<Rightarrow> body" where
  "lat_phases m batch1 batch2 = thenS (logP (Log ''server: local buffer sent''))
       (for_rounds 0 lat_kSendCount (recv_imm_round batch1)
         (thenS (logP (Log_nat ''[write_with_imm/recv] total operations: {}'' lat_kSendCount))
           (for_rounds 0 lat_kSendCount (recv_mr_round m batch2)
             (thenS (logP (Log_nat ''[send/recv] total operations: {}'' lat_kSendCount)) co_return))))"

definition lat_server :: "verbs \<Rightarrow> endian \<Rightarrow> qp \<Rightarrow> ptr \<Rightarrow> ptr \<Rightarrow> (nat \<Rightarrow> peer \<Rightarrow> peer) \<Rightarrow> (nat \<Rightarrow> peer \<Rightarrow> peer) \<Rightarrow> body" where
  "lat_server V e q b s batch1 batch2 = bindS (reg_mrP V q b 4096) (\<lambda>m. send_region V e q s m (lat_phases m batch1 batch2))"

lemma servers:
  "lat_handler V e q b s = lat_server V e q b s no_batch no_batch"
  "raw_qp_handler V e q b s = lat_server V e q b s (lat_batch ''[write_with_imm/recv]'') (lat_batch ''[send/recv]'')"
  by (simp_all add: lat_handler_def raw_qp_handler_def lat_server_def lat_phases_def lat_kMessageSize_def)

definition lat_log :: "(nat \<Rightarrow> line list) \<Rightarrow> (nat \<Rightarrow> line list) \<Rightarrow> line list" where
  "lat_log ls1 ls2 = [Log ''server: local buffer sent''] @ concat (map ls1 [0..<lat_kSendCount]) @
     [Log_nat ''[write_with_imm/recv] total operations: {}'' lat_kSendCount] @ concat (map ls2 [0..<lat_kSendCount]) @
     [Log_nat ''[send/recv] total operations: {}'' lat_kSendCount]"

lemma lat_phases_run:
  assumes "legal q (R_write (mr_view_remote (remote_of mr') 0 whole_length))"
    and m: "lmr_mr m = Some mr" "mr_length mr = 4096" and m': "lmr_mr m' = Some mr'" "mr_length mr' = 4096" "mr_addr mr' \<noteq> 0"
    and b: "\<And>i r. batch1 i r = logged (ls1 i) r" "\<And>i r. batch2 i r = logged (ls2 i) r"
    and "load (mr_addr mr) 4096 p = dd" and "allowed (mr_rkey mr') (mr_addr mr') 4096 r"
  shows "ready e (\<lambda>_ p' c r'. c = Co_return \<and> load (mr_addr mr') 4096 r' = dd \<and> p_log r' = p_log r @ lat_log ls1 ls2) 2000000
     (for_rounds 0 lat_kSendCount (write_imm_round q (remote_of mr') m) (for_rounds 0 lat_kSendCount (send_round q m) co_return)) p
     (lat_phases m' batch1 batch2) r"
proof -
  let ?Q = "\<lambda>_ p' c r'. c = Co_return \<and> load (mr_addr mr') 4096 r' = dd \<and> p_log r' = p_log r @ lat_log ls1 ls2"
  let ?final = "thenS (logP (Log_nat ''[send/recv] total operations: {}'' lat_kSendCount)) co_return"
  let ?mid = "thenS (logP (Log_nat ''[write_with_imm/recv] total operations: {}'' lat_kSendCount))
       (for_rounds 0 lat_kSendCount (recv_mr_round m' batch2) ?final)"
  let ?tail = "\<lambda>r'. p_log r' @ concat (map ls2 [0..<lat_kSendCount]) @ [Log_nat ''[send/recv] total operations: {}'' lat_kSendCount]
       = p_log r @ lat_log ls1 ls2"
  have last: "ready e ?Q (lat_kSendCount + 0) (for_rounds 0 lat_kSendCount (send_round q m) co_return) p'
      (for_rounds 0 lat_kSendCount (recv_mr_round m' batch2) ?final) r'"
    if "load (mr_addr mr) 4096 p' = dd" "?tail r'" for p' r' :: peer
  proof (rule send_rounds [where ls = ls2, OF m m' b(2) that(1)])
    fix p2 r2 :: peer assume "load (mr_addr mr') 4096 r2 = dd" "p_log r2 = p_log r' @ concat (map ls2 [0..<lat_kSendCount])"
    with that(2) show "ready e ?Q 0 co_return p2 ?final r2"
      by - (rule ready_ended, simp add: co_return_def returnS_def, simp add: se_defs logP_def co_return_def, simp, simp)
  qed (simp add: lat_kSendCount_def)
  have "ready e ?Q (lat_kSendCount + (lat_kSendCount + 0)) (for_rounds 0 lat_kSendCount (write_imm_round q (remote_of mr') m)
        (for_rounds 0 lat_kSendCount (send_round q m) co_return)) p
      (for_rounds 0 lat_kSendCount (recv_imm_round batch1) ?mid) (logged [Log ''server: local buffer sent''] r)"
  proof (rule write_imm_rounds [where ls = ls1, OF assms(1) m b(1) assms(9)])
    fix p' r' :: peer assume p': "load (mr_addr mr) 4096 p' = dd"
      and r': "p_log r' = p_log (logged [Log ''server: local buffer sent''] r) @ concat (map ls1 [0..<lat_kSendCount])"
    have "ready e ?Q (lat_kSendCount + 0) (for_rounds 0 lat_kSendCount (send_round q m) co_return) p'
      (for_rounds 0 lat_kSendCount (recv_mr_round m' batch2) ?final)
      (logged [Log_nat ''[write_with_imm/recv] total operations: {}'' lat_kSendCount] r')"
      by (rule last) (use p' r' in \<open>simp_all add: lat_log_def\<close>)
    then show "ready e ?Q (lat_kSendCount + 0) (for_rounds 0 lat_kSendCount (send_round q m) co_return) p' ?mid r'"
      by (rule ready_resume [rotated 2]) (simp_all add: se_defs logP_def logged_def)
  qed (use assms(10) in \<open>simp add: remote_of_def\<close>)
  then have "ready e ?Q 2000000 (for_rounds 0 lat_kSendCount (write_imm_round q (remote_of mr') m)
        (for_rounds 0 lat_kSendCount (send_round q m) co_return)) p
      (for_rounds 0 lat_kSendCount (recv_imm_round batch1) ?mid) (logged [Log ''server: local buffer sent''] r)"
    by (simp add: lat_kSendCount_def)
  then show ?thesis
    by (rule ready_resume [rotated 2]) (simp_all add: lat_phases_def se_defs logP_def logged_def)
qed

lemma lat_meets:
  assumes "works V" and "works W" and "a \<noteq> 0" and "b \<noteq> 0"
    and ls: "\<And>i r. bx i r = logged (lx i) r" "\<And>i r. bt i r = logged (ly i) r"
  shows "meets e (\<lambda>_ p' c r'. c = Co_return \<and> load b 4096 r' = dd \<and> p_log r' = p_log r @ lat_log lx ly) (Suc 2000000)
     (lat_client_of line V el q a) p (lat_server W er q' b t bx bt) r"
proof -
  let ?m = "new_region V q (a, 4096) (p_world p)" and ?mr = "region_of V q a 4096 (p_world p)"
  let ?sm = "new_region W q' (b, 4096) (p_world r)" and ?smr = "region_of W q' b 4096 (p_world r)"
  let ?p = "(registered q a 4096 p)\<lparr>p_regions := p_regions p @ [?mr]\<rparr>"
  let ?r = "(registered q' b 4096 r)\<lparr>p_regions := p_regions r @ [?smr]\<rparr>"
  let ?bs = "remote_mr_write er (remote_of ?smr)" and ?w = "\<lparr>view_addr = a, view_length = 20, view_key = mr_lkey ?mr\<rparr>"
  let ?v = "whole_view W (t, 20) (p_world ?r)" and ?r1 = "registered q' t 20 (store t ?bs ?r)"
  let ?run = "\<lambda>rm. for_rounds 0 lat_kSendCount (write_imm_round q rm ?m) (for_rounds 0 lat_kSendCount (send_round q ?m) co_return)"
  let ?k = "\<lambda>(nbytes :: u32, imm :: u32 option). thenS (assertP ''nbytes == rdmapp::remote_mr::kSerializedSize'' (unat nbytes = remote_mr_kSerializedSize))
       (bindS (readP (fst (mr_view_span ?w)) remote_mr_kSerializedSize) (\<lambda>bs. case remote_mr_deserialize el bs of
          None \<Rightarrow> throwS (Undefined_behaviour ''read past the serialized region'')
        | Some remote_mr \<Rightarrow> thenS (logP (line remote_mr))
            (thenS (writeP a (replicate lat_kMessageSize 0xdd)) (?run remote_mr)))) :: body"
  let ?Q = "\<lambda>_ p' c r'. c = Co_return \<and> load b 4096 r' = dd \<and> p_log r' = p_log r @ lat_log lx ly"
  let ?p2 = "store a dd (logged [line (remote_of ?smr)] (store a ?bs ?p))"
  have len: "length ?bs = 20" by (rule remote_mr_codec.enc_width)
  have size: "remote_mr_kSerializedSize = 20" by (simp add: remote_mr_kSerializedSize_def)
  have l: "lat_client_of line V el q a p = (Inr (Co_recv ?w ?k), ?p)"
    using assms(1) by (simp add: lat_client_of_def lat_kMessageSize_def se_defs reg_mrP_works mr_view_local_def await_recv_def size)
  have g: "lat_server W er q' b t bx bt r = (Inr (Co_send R_send ?v (\<lambda>n. lat_phases ?sm bx bt)), ?r1)"
    by (simp add: lat_server_def se_defs reg_mrP_works [OF assms(2)] send_region_apply [OF assms(2) lmr_new_region])
  have x: "two_sided (send_wr R_send ?v) ?r1 (recv_sges ?w) ?p = Some (store a ?bs ?p, 20, None)"
    using assms(3) len by (simp add: two_sided.simps send_wr_def view_simps)
  have "ready e ?Q 2000000 (?run (remote_of ?smr)) ?p2 (lat_phases ?sm bx bt) ?r1"
  proof -
    have "ready e (\<lambda>_ p' c r'. c = Co_return \<and> load (mr_addr ?smr) 4096 r' = dd \<and> p_log r' = p_log ?r1 @ lat_log lx ly) 2000000
        (?run (remote_of ?smr)) ?p2 (lat_phases ?sm bx bt) ?r1"
    proof (rule lat_phases_run [where mr = ?mr and mr' = ?smr])
      show "legal q (R_write (mr_view_remote (remote_of ?smr) 0 whole_length))"
        using assms(4) by (simp add: mr_view_remote_def remote_of_def)
      show "allowed (mr_rkey ?smr) (mr_addr ?smr) 4096 ?r1" by (auto simp: allowed_def)
    qed (use assms(4) ls in simp_all)
    then show ?thesis by simp
  qed
  then have "ready e ?Q 2000000 (?k (20, None)) (store a ?bs ?p) (lat_phases ?sm bx bt) ?r1"
    by (rule ready_resume [rotated 2])
      (simp_all add: se_defs assertP_def size readP_def mr_view_span_def len deserialize_region logP_def writeP_def logged_def lat_kMessageSize_def)
  then have "meets e ?Q 2000000 (?k (20, None)) (store a ?bs ?p) (lat_phases ?sm bx bt) ?r1" by (simp add: ready_def)
  then show ?thesis by - (rule meets_left, rule l, rule g, simp, rule x, simp)
qed

text \<open>The batch lines: one for every full batch but the first round.\<close>

definition batch_lines :: "string \<Rightarrow> line list" where
  "batch_lines tag = map (\<lambda>j. Log_nat (tag @ '' batch {:7d}'') (j * 100000)) [1..<10]"

lemma lat_batch_lines:
  "concat (map (\<lambda>i. if i \<noteq> 0 \<and> i mod lat_kBatchSize = 0 then [Log_nat (tag @ '' batch {:7d}'') i] else []) [0..<lat_kSendCount]) = batch_lines tag"
  unfolding concat_map_if by (simp add: multiples_below comp_def lat_kBatchSize_def lat_kSendCount_def batch_lines_def)

lemma no_batch_lines: "concat (map (\<lambda>i. []) xs) = []"
  by (induction xs) simp_all

text \<open>
  C39: the latency programs, with either completion token, match receive for request: whatever the interleaving, no run fails or
  is longer than three steps for each of the \<open>2 * 10\<^sup>6 + 1\<close> exchanges, and each ends with both coroutines finished and the
  client's bytes in the server's buffer; the raw server reported nine batches in each phase.
\<close>

theorem latency_balanced:
  assumes "serves e X" and "works V" and "works W" and "a \<noteq> 0" and "b \<noteq> 0"
  shows "concludes X 6000005 (connected (lat_client_worker V el q a) p (lat_handler W er q' b t) r)
      (\<lambda>_ p' c r'. c = Co_return \<and> load b 4096 r' = replicate 4096 0xdd \<and> p_log r' = p_log r @
        [Log ''server: local buffer sent'', Log_nat ''[write_with_imm/recv] total operations: {}'' 1000000,
         Log_nat ''[send/recv] total operations: {}'' 1000000]) \<and>
    concludes X 6000005 (connected (raw_client_worker V el q a) p (raw_qp_handler W er q' b t) r)
      (\<lambda>_ p' c r'. c = Co_return \<and> load b 4096 r' = replicate 4096 0xdd \<and> p_log r' = p_log r @
        [Log ''server: local buffer sent''] @ batch_lines ''[write_with_imm/recv]'' @
        [Log_nat ''[write_with_imm/recv] total operations: {}'' 1000000] @ batch_lines ''[send/recv]'' @
        [Log_nat ''[send/recv] total operations: {}'' 1000000])"
proof
  have "lat_log (\<lambda>i. []) (\<lambda>i. []) = [Log ''server: local buffer sent'', Log_nat ''[write_with_imm/recv] total operations: {}'' 1000000,
         Log_nat ''[send/recv] total operations: {}'' 1000000]"
    by (simp only: lat_log_def no_batch_lines) (simp add: lat_kSendCount_def)
  with dialogue_outcome [OF assms(1) lat_meets [OF assms(2-5), where line = "\<lambda>rm. Log ''client: remote buffer recv''" and bx = no_batch and bt = no_batch and lx = "\<lambda>i. []" and
      ly = "\<lambda>i. []" and r = r and q' = q' and el = el and q = q and p = p and er = er and t = t]]
  show "concludes X 6000005 (connected (lat_client_worker V el q a) p (lat_handler W er q' b t) r)
      (\<lambda>_ p' c r'. c = Co_return \<and> load b 4096 r' = replicate 4096 0xdd \<and> p_log r' = p_log r @
        [Log ''server: local buffer sent'', Log_nat ''[write_with_imm/recv] total operations: {}'' 1000000,
         Log_nat ''[send/recv] total operations: {}'' 1000000])"
    by (simp add: servers no_batch_def lat_client_worker_def)
next
  let ?ls = "\<lambda>tag i. if i \<noteq> 0 \<and> i mod lat_kBatchSize = 0 then [Log_nat (tag @ '' batch {:7d}'') i] else []"
  have "lat_log (?ls ''[write_with_imm/recv]'') (?ls ''[send/recv]'') = [Log ''server: local buffer sent''] @
      batch_lines ''[write_with_imm/recv]'' @ [Log_nat ''[write_with_imm/recv] total operations: {}'' 1000000] @
      batch_lines ''[send/recv]'' @ [Log_nat ''[send/recv] total operations: {}'' 1000000]"
    by (simp only: lat_log_def lat_batch_lines) (simp add: lat_kSendCount_def)
  with dialogue_outcome [OF assms(1) lat_meets [OF assms(2-5), where line = "\<lambda>rm. Log_nat ''client: remote buffer recv, size={}'' (unat (remote_mr_length rm))" and bx = "lat_batch ''[write_with_imm/recv]''" and bt = "lat_batch ''[send/recv]''" and
      lx = "?ls ''[write_with_imm/recv]''" and ly = "?ls ''[send/recv]''" and r = r and q' = q' and el = el and q = q and p = p and er = er and t = t]]
  show "concludes X 6000005 (connected (raw_client_worker V el q a) p (raw_qp_handler W er q' b t) r)
      (\<lambda>_ p' c r'. c = Co_return \<and> load b 4096 r' = replicate 4096 0xdd \<and> p_log r' = p_log r @
        [Log ''server: local buffer sent''] @ batch_lines ''[write_with_imm/recv]'' @
        [Log_nat ''[write_with_imm/recv] total operations: {}'' 1000000] @ batch_lines ''[send/recv]'' @
        [Log_nat ''[send/recv] total operations: {}'' 1000000])"
    by (simp add: servers lat_batch_def raw_client_worker_def)
qed

theorem latency_balanced_witness:
  "\<exists>n p c r. run_of (plain_cards Little)
      (connected (raw_client_worker steady_verbs Little sample_qp 4096) sample_peer
         (raw_qp_handler steady_verbs Little sample_qp 4096 16384) sample_peer) n ((Waiting Co_return, p), (Waiting c, r)) \<and>
     c = Co_return \<and> load 4096 4096 r = replicate 4096 0xdd"
proof -
  have "(4096 :: ptr) \<noteq> 0" by simp
  from latency_balanced [OF plain_cards_serve steady_works steady_works this this, THEN conjunct2]
  have "concludes (plain_cards Little) 6000005 (connected (raw_client_worker steady_verbs Little sample_qp 4096) sample_peer
         (raw_qp_handler steady_verbs Little sample_qp 4096 16384) sample_peer)
      (\<lambda>_ p' c r'. c = Co_return \<and> load 4096 4096 r' = replicate 4096 0xdd \<and> p_log r' = p_log sample_peer @
        [Log ''server: local buffer sent''] @ batch_lines ''[write_with_imm/recv]'' @
        [Log_nat ''[write_with_imm/recv] total operations: {}'' 1000000] @ batch_lines ''[send/recv]'' @
        [Log_nat ''[send/recv] total operations: {}'' 1000000])" .
  from concludes_ends [OF this] show ?thesis by blast
qed

end
