(* ===== verification/Cancel_Example.thy ===== *)
theory Cancel_Example
  imports Dialogue
begin

text \<open>
  \<^verbatim>\<open>examples/cancellation.cc\<close>: the client sends once, the server receives twice; what happens when the second receive is cancelled
  is the subject of \<open>Recv_Race\<close>.
\<close>

definition cancel_client :: "verbs \<Rightarrow> qp \<Rightarrow> ptr \<Rightarrow> body" where
  "cancel_client V q b = thenS (writeP b (ascii ''hello'')) (bindS (span_view V q b 5) (\<lambda>v.
     await_send q R_send v (\<lambda>n. bindS (readP b 5) (\<lambda>text.
       thenS (logP (Log_bytes ''sent to server: {}'' text)) co_return))))"

definition cancel_handle_qp :: "verbs \<Rightarrow> qp \<Rightarrow> ptr \<Rightarrow> body" where
  "cancel_handle_qp V q b = thenS (logP (Log ''handling qp'')) (thenS (writeP b (replicate 5 0))
     (thenS (logP (Log_nat ''waiting for recv from client: nbytes={}'' 5)) (bindS (span_view V q b 5) (\<lambda>v.
      await_recv v (\<lambda>(n, imm). bindS (readP b 5) (\<lambda>text.
        thenS (logP (Log_both ''received {} bytes from client: {}'' (unat n) text))
        (thenS (logP (Log ''waiting for another recv which will never come'')) (bindS (span_view V q b 5) (\<lambda>v.
         await_recv v (\<lambda>res. thenS (logP (Log ''should not reach here'')) co_return)))))))))) "

text \<open>
  As the example's comment says, the second receive never comes: every run ends, after at most five steps, with the client finished
  and the server, which logged the text of the client, suspended in its second receive.
\<close>

theorem second_recv_never_comes:
  assumes "serves e X" and "works V" and "works W" and "c \<noteq> 0"
  shows "concludes X 5 (connected (cancel_client V q b) p (cancel_handle_qp W q' c) r)
     (\<lambda>_ p' co r'. (\<exists>v h. co = Co_recv v h) \<and> p_log p' = p_log p @ [Log_bytes ''sent to server: {}'' (ascii ''hello'')] \<and>
        p_log r' = p_log r @ [Log ''handling qp'', Log_nat ''waiting for recv from client: nbytes={}'' 5,
          Log_both ''received {} bytes from client: {}'' 5 (ascii ''hello''), Log ''waiting for another recv which will never come''])"
proof -
  let ?Q = "\<lambda>_ p' co r'. (\<exists>v h. co = Co_recv v h) \<and> p_log p' = p_log p @ [Log_bytes ''sent to server: {}'' (ascii ''hello'')] \<and>
        p_log r' = p_log r @ [Log ''handling qp'', Log_nat ''waiting for recv from client: nbytes={}'' 5,
          Log_both ''received {} bytes from client: {}'' 5 (ascii ''hello''), Log ''waiting for another recv which will never come'']"
  let ?k = "\<lambda>n :: u32. bindS (readP b 5) (\<lambda>text. thenS (logP (Log_bytes ''sent to server: {}'' text)) co_return)"
  let ?h = "\<lambda>(n, imm :: u32 option). bindS (readP c 5) (\<lambda>text.
        thenS (logP (Log_both ''received {} bytes from client: {}'' (unat (n :: u32)) text))
        (thenS (logP (Log ''waiting for another recv which will never come'')) (bindS (span_view W q' c 5) (\<lambda>v.
         await_recv v (\<lambda>res. thenS (logP (Log ''should not reach here'')) co_return)))))"
  let ?p = "registered q b 5 (store b (ascii ''hello'') p)"
  let ?r = "registered q' c 5 (logged [Log_nat ''waiting for recv from client: nbytes={}'' 5] (store c (replicate 5 0) (logged [Log ''handling qp''] r)))"
  have len: "length (ascii ''hello'') = 5" by (simp add: ascii_def)
  have l: "cancel_client V q b p = (Inr (Co_send R_send (whole_view V (b, 5) (p_world p)) ?k), ?p)"
    by (simp add: cancel_client_def body_simps span_view_works assms(2))
  have g: "cancel_handle_qp W q' c r = (Inr (Co_recv (whole_view W (c, 5) (p_world r)) ?h), ?r)"
    by (simp add: cancel_handle_qp_def body_simps span_view_works assms(3))
  have x: "two_sided (send_wr R_send (whole_view V (b, 5) (p_world p))) ?p (recv_sges (whole_view W (c, 5) (p_world r))) ?r =
      Some (store c (ascii ''hello'') ?r, 5, None)"
    using assms(4) len by (simp add: card_simps)
  have "meets e ?Q 0 (?k (value_returned R_send (whole_view V (b, 5) (p_world p)) 0)) ?p (?h (5, None)) (store c (ascii ''hello'') ?r)"
    by (rule meets_ended, simp add: body_simps len, simp add: body_simps span_view_works assms(3) len, blast, simp)
  then have "meets e ?Q (Suc 0) (cancel_client V q b) p (cancel_handle_qp W q' c) r"
    by - (rule meets_right, rule l, simp, rule g, rule x)
  from dialogue_outcome [OF assms(1) this] show ?thesis by simp
qed

theorem second_recv_never_comes_witness:
  "\<exists>n p v h r. run_of (plain_cards Little) (connected (cancel_client steady_verbs sample_qp 4096) sample_peer
       (cancel_handle_qp steady_verbs sample_qp 8192) sample_peer) n ((Waiting Co_return, p), (Waiting (Co_recv v h), r))"
proof -
  have "(8192 :: ptr) \<noteq> 0" by simp
  from concludes_ends [OF second_recv_never_comes [OF plain_cards_serve steady_works steady_works this]] show ?thesis by metis
qed

end
