(* ===== verification/Hello_World.thy ===== *)
theory Hello_World
  imports Dialogue
begin

text \<open>
  \<^verbatim>\<open>examples/helloworld_handler.cc\<close>: both coroutines of the tour through all operations, in the four parts the comments of the code name, and
  the run of the two.
\<close>

section \<open>Server\<close>

definition hello_msg :: bytes where "hello_msg = ascii ''hello''"

definition hello_resp :: bytes where "hello_resp = ascii ''world''"

text \<open>
  A part takes what follows it as its last argument. \<open>b\<close> is the address of the text of \<open>buffer\<close>, which has
  five characters up to the last part.
\<close>

definition hs_send_recv :: "verbs \<Rightarrow> qp \<Rightarrow> ptr \<Rightarrow> body \<Rightarrow> body" where
  "hs_send_recv V q b k = thenS (logP (Log ''handling qp'')) (thenS (writeP b hello_msg)
     (bindS (span_view V q b 5) (\<lambda>v. await_send q R_send v (\<lambda>n.
      bindS (readP b 5) (\<lambda>text. thenS (logP (Log_bytes ''sent to client: {}'' text))
      (bindS (span_view V q b 5) (\<lambda>v. await_recv v (\<lambda>res.
       bindS (readP b 5) (\<lambda>text. thenS (logP (Log_bytes ''received from client: {}'' text)) k))))))))) "

definition hs_written :: "ptr \<Rightarrow> local_mr \<Rightarrow> (local_mr \<Rightarrow> body) \<Rightarrow> u32 \<times> u32 option \<Rightarrow> body" where
  "hs_written b m k res = (case snd res of
     None \<Rightarrow> throwS (Assert_failed ''imm.has_value()'')
   | Some x \<Rightarrow> bindS (readP b 5) (\<lambda>text. thenS (logP (Log_both ''written by client: (imm={}): {}'' (unat x) text)) (k m)))"

definition hs_read_write :: "verbs \<Rightarrow> endian \<Rightarrow> qp \<Rightarrow> ptr \<Rightarrow> ptr \<Rightarrow> (local_mr \<Rightarrow> body) \<Rightarrow> body" where
  "hs_read_write V e q b s k = thenS (writeP b hello_msg) (bindS (reg_mrP V q b 5) (\<lambda>m.
     send_region V e q s m (thenS (logP (Log ''sent mr to client''))
      (await_recv mr_view_empty (hs_written b m k)))))"

text \<open>A receive over the first region, whose immediate value must be there, and the counter then.\<close>

definition hs_counter_seen :: "endian \<Rightarrow> ptr \<Rightarrow> string \<Rightarrow> body \<Rightarrow> u32 \<times> u32 option \<Rightarrow> body" where
  "hs_counter_seen e c text k res = thenS (assertP ''imm.has_value()'' (snd res \<noteq> None))
     (bindS (readP c 8) (\<lambda>bs. thenS (logP (Log_nat text (unat (of_memory e bs :: u64)))) k))"

definition hs_counted :: "endian \<Rightarrow> ptr \<Rightarrow> local_mr \<Rightarrow> string \<Rightarrow> body \<Rightarrow> body" where
  "hs_counted e c m text k = bindS (liftS (mr_view_shared (Some m))) (\<lambda>v. await_recv v (hs_counter_seen e c text k))"

definition hs_atomic :: "verbs \<Rightarrow> endian \<Rightarrow> qp \<Rightarrow> ptr \<Rightarrow> ptr \<Rightarrow> local_mr \<Rightarrow> body \<Rightarrow> body" where
  "hs_atomic V e q c s m k = thenS (writeP c (to_memory e (42 :: u64))) (bindS (reg_mrP V q c 8) (\<lambda>counter_mr.
     send_region V e q s counter_mr (thenS (logP (Log ''sent mr to client''))
       (hs_counted e c m ''fetched and added by client: {}'' (hs_counted e c m ''compared and swapped by client: {}'' k)))))"

text \<open>\<open>resize\<close> moves the text to \<open>big\<close> and fills up with zero bytes.\<close>

definition hs_large_written :: "u32 \<times> u32 option \<Rightarrow> body" where
  "hs_large_written res = (case snd res of
     None \<Rightarrow> throwS (Assert_failed ''imm'')
   | Some x \<Rightarrow> thenS (logP (Log_pair ''recv write_with_imm: imm={} nbytes={}'' (unat x) (unat (fst res)))) co_return)"

definition hs_large :: "verbs \<Rightarrow> endian \<Rightarrow> qp \<Rightarrow> ptr \<Rightarrow> ptr \<Rightarrow> ptr \<Rightarrow> body" where
  "hs_large V e q b big s = bindS (readP b 5) (\<lambda>text. thenS (writeP big (text @ replicate 65531 0))
     (bindS (reg_mrP V q big 65536) (\<lambda>large_local_mr.
      send_region V e q s large_local_mr (thenS (logP (Log ''sent mr to client''))
       (await_recv mr_view_empty hs_large_written)))))"

definition hello_handle_qp :: "verbs \<Rightarrow> endian \<Rightarrow> qp \<Rightarrow> ptr \<Rightarrow> ptr \<Rightarrow> ptr \<Rightarrow> ptr \<Rightarrow> ptr \<Rightarrow> ptr \<Rightarrow> body" where
  "hello_handle_qp V e q b s1 c s2 big s3 =
     hs_send_recv V q b (hs_read_write V e q b s1 (\<lambda>m. hs_atomic V e q c s2 m (hs_large V e q b big s3)))"

section \<open>Client\<close>

definition hc_send_recv :: "verbs \<Rightarrow> qp \<Rightarrow> ptr \<Rightarrow> body \<Rightarrow> body" where
  "hc_send_recv V q b k = thenS (writeP b (replicate 5 0)) (bindS (span_view V q b 5) (\<lambda>v. await_recv v (\<lambda>(n, imm).
     bindS (readP b 5) (\<lambda>text. thenS (logP (Log_both ''received {} bytes from server: {}'' (unat n) text))
     (thenS (writeP b hello_resp) (bindS (span_view V q b 5) (\<lambda>v. await_send q R_send v (\<lambda>n.
       bindS (readP b 5) (\<lambda>text. thenS (logP (Log_bytes ''sent to server: {}'' text)) k)))))))))"

definition hc_read_write :: "verbs \<Rightarrow> endian \<Rightarrow> qp \<Rightarrow> ptr \<Rightarrow> ptr \<Rightarrow> body \<Rightarrow> body" where
  "hc_read_write V e q b s k = recv_region V e q s (\<lambda>remote_mr. thenS (logP (Log ''received mr from server''))
     (bindS (span_view V q b 5) (\<lambda>v. await_send q (R_read (mr_view_remote remote_mr 0 whole_length)) v (\<lambda>n.
      bindS (readP b 5) (\<lambda>text. thenS (logP (Log_both ''read {} bytes from server: {}'' (unat n) text))
      (thenS (writeP b hello_resp) (bindS (span_view V q b 5) (\<lambda>v.
       await_send q (R_write_with_imm (mr_view_remote remote_mr 0 whole_length) 1) v (\<lambda>n. k)))))))))"

text \<open>An operation over the eight bytes of the client's own \<open>counter\<close>, and the counter then.\<close>

definition hc_on_counter :: "verbs \<Rightarrow> endian \<Rightarrow> qp \<Rightarrow> ptr \<Rightarrow> request \<Rightarrow> (u64 \<Rightarrow> body) \<Rightarrow> body" where
  "hc_on_counter V e q c req k = bindS (span_view V q c 8) (\<lambda>v. await_send q req v (\<lambda>n.
     bindS (readP c 8) (\<lambda>bs. k (of_memory e bs))))"

definition hc_atomic :: "verbs \<Rightarrow> endian \<Rightarrow> qp \<Rightarrow> ptr \<Rightarrow> ptr \<Rightarrow> body \<Rightarrow> body" where
  "hc_atomic V e q c s k = recv_region V e q s (\<lambda>counter_mr. thenS (logP (Log ''received mr from server''))
     (thenS (writeP c (to_memory e (0 :: u64)))
     (let remote = mr_view_remote counter_mr 0 whole_length in
      hc_on_counter V e q c (R_fetch_and_add remote 1) (\<lambda>x. thenS (logP (Log_nat ''fetched and added from server: {}'' (unat x)))
     (hc_on_counter V e q c (R_write_with_imm remote 1) (\<lambda>x. thenS (logP (Log_pair ''written with imm: buffer={} imm={}'' (unat x) 1))
     (hc_on_counter V e q c (R_compare_and_swap remote 43 4422) (\<lambda>x. thenS (logP (Log_nat ''compared and swapped from server: {}'' (unat x)))
     (hc_on_counter V e q c (R_write_with_imm remote 1) (\<lambda>x. k))))))))))"

definition hc_large :: "verbs \<Rightarrow> endian \<Rightarrow> qp \<Rightarrow> ptr \<Rightarrow> ptr \<Rightarrow> ptr \<Rightarrow> body" where
  "hc_large V e q s l t = recv_region V e q s (\<lambda>remote_mr. thenS (logP (Log ''received mr from server''))
     (thenS (writeP l (replicate 2000 0)) (bindS (reg_mrP V q l 2000) (\<lambda>local_mr.
      let remote = mr_view_remote remote_mr 0 whole_length in
      bindS (liftS (mr_view_local local_mr 0 whole_length)) (\<lambda>v.
      await_send q (R_write remote) v (\<lambda>nbytes. thenS (logP (Log_nat ''written: nbytes={}'' (unat nbytes)))
      (await_send q (R_read remote) v (\<lambda>nbytes. thenS (logP (Log_nat ''read: nbytes={}'' (unat nbytes)))
      (thenS (writeP t (replicate 9987 0)) (bindS (span_view V q t 9987) (\<lambda>v.
      await_send q (R_write_with_imm remote 2099) v (\<lambda>n.
       thenS (logP (Log_nat ''written with imm and end: imm={}'' 2099)) co_return)))))))))))) "

definition hello_client :: "verbs \<Rightarrow> endian \<Rightarrow> qp \<Rightarrow> ptr \<Rightarrow> ptr \<Rightarrow> ptr \<Rightarrow> ptr \<Rightarrow> ptr \<Rightarrow> ptr \<Rightarrow> ptr \<Rightarrow> body" where
  "hello_client V e q b s1 c s2 s3 l t =
     hc_send_recv V q b (hc_read_write V e q b s1 (hc_atomic V e q c s2 (hc_large V e q s3 l t)))"

section \<open>The parts in turn\<close>

lemma texts [simp]: "length hello_msg = 5" "length hello_resp = 5"
  by (simp_all add: hello_msg_def hello_resp_def ascii_def)

text \<open>Each part brings both sides to its end, having logged the same in every interleaving.\<close>

lemma hello_send_recv:
  assumes V: "works V" and W: "works W" and nz: "b \<noteq> 0" "c \<noteq> 0"
    and next_part: "\<And>p' r'. p_log p' = p_log p @ [Log_both ''received {} bytes from server: {}'' 5 hello_msg, Log_bytes ''sent to server: {}'' hello_resp] \<Longrightarrow>
       p_log r' = p_log r @ [Log ''handling qp'', Log_bytes ''sent to client: {}'' hello_msg, Log_bytes ''received from client: {}'' hello_resp] \<Longrightarrow>
       ready e Q N k p' h r'"
  shows "ready e Q (Suc (Suc N)) (hc_send_recv V q b k) p (hs_send_recv W q' c h) r"
  by (rule ready_left, simp add: hc_send_recv_def body_simps span_view_works V,
      simp add: hs_send_recv_def body_simps span_view_works W, simp, simp add: card_simps nz,
      rule ready_right, simp add: body_simps span_view_works V, simp, simp add: body_simps span_view_works W, simp add: card_simps nz,
      rule ready_resume [where f' = k and g' = h], simp add: body_simps, simp add: body_simps, rule next_part) simp_all

lemma sent_mr_suspends:
  "suspends (thenS (logP (Log ''sent mr to client'')) (await_recv w h)) (Co_recv w h) [Log ''sent mr to client'']"
  by (simp add: suspends_def body_simps)

lemma region_length [simp]: "length (remote_mr_write e x) = 20"
  by (rule remote_mr_codec.enc_width)

lemma allowed_registered [simp]: "allowed key a n (registered q b k p) = allowed key a n p"
  by (simp add: allowed_def)

lemma allowed_own [simp]:
  "k \<le> unat n \<Longrightarrow> allowed (mr_rkey (region_of W q c n w)) c k (p\<lparr>p_regions := rs @ [region_of W q c n w]\<rparr>)"
  by (auto simp: allowed_def)

lemma hello_read_write:
  assumes V: "works V" and W: "works W" and nz: "b \<noteq> 0" "c \<noteq> 0" "s \<noteq> 0" and far: "apart c 5 t 20"
    and next_part: "\<And>p' r' m mr. p_log p' = p_log p @ [Log ''received mr from server'', Log_both ''read {} bytes from server: {}'' 5 hello_msg] \<Longrightarrow>
       p_log r' = p_log r @ [Log ''sent mr to client'', Log_both ''written by client: (imm={}): {}'' 1 hello_resp] \<Longrightarrow>
       lmr_mr m = Some mr \<Longrightarrow> ready e Q N k p' (h m) r'"
  shows "ready e Q (Suc (Suc (Suc N))) (hc_read_write V e q b s k) p (hs_read_write W e q' c t h) r"
proof -
  let ?m = "new_region W q' (c, 5) (p_world r)" and ?mr = "region_of W q' c 5 (p_world r)"
  let ?r = "(registered q' c 5 (store c hello_msg r))\<lparr>p_regions := p_regions r @ [?mr]\<rparr>"
  let ?h = "thenS (logP (Log ''sent mr to client'')) (await_recv mr_view_empty (hs_written c ?m h))"
  have hs: "hs_read_write W e q' c t h r = send_region W e q' t ?m ?h ?r"
    by (simp add: hs_read_write_def body_simps reg_mrP_works W)
  show ?thesis
    apply (rule ready_resume, rule refl, rule hs, unfold hc_read_write_def)
    apply (rule ready_region, rule V, rule W, simp, rule nz)
    apply (rule meets_alone_quiet, rule sent_mr_suspends, simp add: body_simps span_view_works V mr_view_remote_def remote_of_def nz, simp)
    apply (simp add: card_simps far load_store_apart)
    apply (rule meets_right, simp add: body_simps span_view_works V nz, simp, simp add: body_simps, simp add: card_simps)
    apply (rule meets_ready [where f' = k and g' = "h ?m"])
    apply (simp add: body_simps, simp add: body_simps hs_written_def)
    apply (rule next_part, simp add: value_returned_def, simp, rule lmr_new_region)
    done
qed

lemma counter_memory [simp]: "of_memory e (to_memory e (w :: u64)) = w"
  by (simp add: of_to_memory)

lemma load_registered [simp]: "store a bs (registered q b k p) = registered q b k (store a bs p)"
  by (simp add: registered_def store_def cong: if_cong)

lemma log_suspends: "(\<And>r. g r = (Inr c, r)) \<Longrightarrow> suspends (thenS (logP l) g) c [l]"
  by (simp add: suspends_def body_simps)

lemma hs_counted_apply:
  "lmr_mr m = Some mr \<Longrightarrow> hs_counted e c m text k r = (Inr (Co_recv \<lparr>view_addr = mr_addr mr, view_length = mr_length mr, view_key = mr_lkey mr\<rparr>
     (hs_counter_seen e c text k)), r)"
  by (simp add: hs_counted_def body_simps mr_view_shared_def mr_view_local_def)

lemma hello_atomic:
  assumes V: "works V" and W: "works W" and nz: "b \<noteq> 0" "c \<noteq> 0" "s \<noteq> 0" and far: "apart c 8 t 20"
    and atomic: "dev_atomic (pd_device (qp_pd q))" and m: "lmr_mr m = Some mr"
    and next_part: "\<And>p' r'. p_log p' = p_log p @ [Log ''received mr from server'',
          Log_nat ''fetched and added from server: {}'' 42, Log_pair ''written with imm: buffer={} imm={}'' 42 1,
          Log_nat ''compared and swapped from server: {}'' 42] \<Longrightarrow>
       p_log r' = p_log r @ [Log ''sent mr to client'', Log_nat ''fetched and added by client: {}'' 42,
          Log_nat ''compared and swapped by client: {}'' 42] \<Longrightarrow> ready e Q N k p' h r'"
  shows "ready e Q (5 + N) (hc_atomic V e q b s k) p (hs_atomic W e q' c t m h) r"
proof -
  let ?m = "new_region W q' (c, 8) (p_world r)" and ?mr = "region_of W q' c 8 (p_world r)"
  let ?r = "(registered q' c 8 (store c (to_memory e (42 :: u64)) r))\<lparr>p_regions := p_regions r @ [?mr]\<rparr>"
  let ?h = "thenS (logP (Log ''sent mr to client'')) (hs_counted e c m ''fetched and added by client: {}''
     (hs_counted e c m ''compared and swapped by client: {}'' h))"
  have hs: "hs_atomic W e q' c t m h r = send_region W e q' t ?m ?h ?r"
    by (simp add: hs_atomic_def body_simps reg_mrP_works W)
  have five: "5 + N = Suc (Suc (Suc (Suc (Suc N))))" by simp
  show ?thesis
    apply (unfold five, rule ready_resume, rule refl, rule hs, unfold hc_atomic_def)
    apply (rule ready_region, rule V, rule W, simp, rule nz)
    apply (rule meets_alone_quiet)
    apply (rule log_suspends, rule hs_counted_apply, rule m)
    apply (simp add: body_simps Let_def hc_on_counter_def span_view_works V mr_view_remote_def remote_of_def nz is_fetch_and_add_supported_def is_compare_and_swap_supported_def atomic, simp)
    apply (simp add: card_simps far load_store_apart)
    apply (rule meets_right, simp add: body_simps span_view_works V nz, simp,
      simp add: body_simps hs_counted_apply [OF m], simp add: card_simps Let_def)
    apply (rule meets_alone , simp add: body_simps span_view_works V nz is_compare_and_swap_supported_def atomic, simp)
    apply (simp add: body_simps hs_counter_seen_def hs_counted_apply [OF m])
    apply (simp add: card_simps Let_def, simp add: card_simps Let_def)
    apply (simp add: body_simps hs_counter_seen_def hs_counted_apply [OF m])
    apply (rule meets_right, simp add: body_simps span_view_works V nz, simp,
      simp add: body_simps hs_counter_seen_def hs_counted_apply [OF m], simp add: card_simps Let_def)
    apply (rule meets_ready [where f' = k and g' = h])
    apply (simp add: body_simps, simp add: body_simps hs_counter_seen_def)
    apply (rule next_part) apply simp_all
    done
qed

lemma hello_large:
  assumes V: "works V" and W: "works W" and nz: "big \<noteq> 0" "s \<noteq> 0"
    and ends: "\<And>p' r'. p_log p' = p_log p @ [Log ''received mr from server'', Log_nat ''written: nbytes={}'' 2000,
          Log_nat ''read: nbytes={}'' 2000, Log_nat ''written with imm and end: imm={}'' 2099] \<Longrightarrow>
       p_log r' = p_log r @ [Log ''sent mr to client'', Log_pair ''recv write_with_imm: imm={} nbytes={}'' 2099 9987] \<Longrightarrow>
       Q Co_return p' Co_return r'"
  shows "ready e Q 4 (hc_large V e q s l d) p (hs_large W e q' b big t) r"
proof -
  let ?m = "new_region W q' (big, 65536) (p_world r)" and ?mr = "region_of W q' big 65536 (p_world r)"
  let ?r = "(registered q' big 65536 (store big (load b 5 r @ replicate 65531 0) r))\<lparr>p_regions := p_regions r @ [?mr]\<rparr>"
  let ?h = "thenS (logP (Log ''sent mr to client'')) (await_recv mr_view_empty hs_large_written)"
  have hs: "hs_large W e q' b big t r = send_region W e q' t ?m ?h ?r"
    by (simp add: hs_large_def body_simps reg_mrP_works W)
  have four: "4 = Suc (Suc (Suc (Suc 0)))" by simp
  show ?thesis
    apply (unfold four, rule ready_resume, rule refl, rule hs, unfold hc_large_def)
    apply (rule ready_region, rule V, rule W, simp, rule nz)
    apply (rule meets_alone_quiet, rule sent_mr_suspends, simp add: body_simps Let_def reg_mrP_works V mr_view_local_def mr_view_remote_def remote_of_def nz, simp)
    apply (simp add: card_simps Let_def)
    apply (rule meets_alone_quiet, rule sent_mr_suspends, simp add: body_simps nz, simp)
    apply (simp add: card_simps Let_def)
    apply (rule meets_right, simp add: body_simps span_view_works V nz, simp, simp add: body_simps, simp add: card_simps Let_def)
    apply (rule meets_ended, simp add: body_simps, simp add: body_simps hs_large_written_def, simp, rule ends)
    apply (simp_all add: value_returned_def)
    done
qed

section \<open>The whole tour\<close>

definition hello_client_log :: "line list" where
  "hello_client_log = [Log_both ''received {} bytes from server: {}'' 5 hello_msg, Log_bytes ''sent to server: {}'' hello_resp,
     Log ''received mr from server'', Log_both ''read {} bytes from server: {}'' 5 hello_msg,
     Log ''received mr from server'', Log_nat ''fetched and added from server: {}'' 42,
     Log_pair ''written with imm: buffer={} imm={}'' 42 1, Log_nat ''compared and swapped from server: {}'' 42,
     Log ''received mr from server'', Log_nat ''written: nbytes={}'' 2000, Log_nat ''read: nbytes={}'' 2000,
     Log_nat ''written with imm and end: imm={}'' 2099]"

definition hello_server_log :: "line list" where
  "hello_server_log = [Log ''handling qp'', Log_bytes ''sent to client: {}'' hello_msg, Log_bytes ''received from client: {}'' hello_resp,
     Log ''sent mr to client'', Log_both ''written by client: (imm={}): {}'' 1 hello_resp,
     Log ''sent mr to client'', Log_nat ''fetched and added by client: {}'' 42, Log_nat ''compared and swapped by client: {}'' 42,
     Log ''sent mr to client'', Log_pair ''recv write_with_imm: imm={} nbytes={}'' 2099 9987]"

text \<open>
  C22: whatever the interleaving, the tour of the example does not fail, takes at most 44 steps and ends with both coroutines finished. Both
  logs are the same in all of them. The server sees its counter at 42 twice: the client writes the 42 it fetched back over the 43 its fetch-and-add
  left, and so the compare-and-swap of 43 does not happen.
\<close>

theorem hello_world_run:
  assumes "serves e X" and "works V" and "works W" and "dev_atomic (pd_device (qp_pd q))"
    and "b \<noteq> 0" and "s1 \<noteq> 0" and "c \<noteq> 0" and "s2 \<noteq> 0" and "s3 \<noteq> 0"
    and "b' \<noteq> 0" and "c' \<noteq> 0" and "big \<noteq> 0" and "apart b' 5 t1 20" and "apart c' 8 t2 20"
  shows "concludes X 44 (connected (hello_client V e q b s1 c s2 s3 l d) p (hello_handle_qp W e q' b' t1 c' t2 big t3) r)
     (\<lambda>_ p' co r'. co = Co_return \<and> p_log p' = p_log p @ hello_client_log \<and> p_log r' = p_log r @ hello_server_log)"
proof -
  let ?Q = "\<lambda>_ p' co r'. co = Co_return \<and> p_log p' = p_log p @ hello_client_log \<and> p_log r' = p_log r @ hello_server_log"
  have "ready e ?Q (Suc (Suc (Suc (Suc (Suc (5 + 4)))))) (hello_client V e q b s1 c s2 s3 l d) p
      (hello_handle_qp W e q' b' t1 c' t2 big t3) r"
    unfolding hello_client_def hello_handle_qp_def
    by (rule hello_send_recv, rule assms, rule assms, rule assms, rule assms,
        rule hello_read_write, rule assms, rule assms, rule assms, rule assms, rule assms, rule assms,
        rule hello_atomic, rule assms, rule assms, rule assms, rule assms, rule assms, rule assms, rule assms, assumption,
        rule hello_large, rule assms, rule assms, rule assms, rule assms)
      (simp add: hello_client_log_def hello_server_log_def)
  then have "meets e ?Q 14 (hello_client V e q b s1 c s2 s3 l d) p (hello_handle_qp W e q' b' t1 c' t2 big t3) r"
    by (simp add: ready_def)
  from dialogue_outcome [OF assms(1) this] show ?thesis by simp
qed

theorem hello_world_run_witness:
  "\<exists>n p c r. run_of (plain_cards Little) (connected
      (hello_client steady_verbs Little sample_qp 4096 8192 12288 16384 20480 24576 28672) sample_peer
      (hello_handle_qp steady_verbs Little sample_qp 8192 4096 16384 12288 65536 20480) sample_peer) n ((Waiting Co_return, p), (Waiting c, r)) \<and>
     n \<le> 44 \<and> p_log r = hello_server_log"
proof -
  have nz: "(4096 :: ptr) \<noteq> 0" "(8192 :: ptr) \<noteq> 0" "(12288 :: ptr) \<noteq> 0" "(16384 :: ptr) \<noteq> 0" "(20480 :: ptr) \<noteq> 0"
    "(65536 :: ptr) \<noteq> 0" by simp_all
  have at: "dev_atomic (pd_device (qp_pd sample_qp))" by (simp add: sample_qp_def)
  have far: "apart 8192 5 4096 20" "apart 16384 8 12288 20"
    by (simp_all add: apart_code upt_rec)
  from concludes_ends [OF hello_world_run [OF plain_cards_serve steady_works steady_works at nz(1,2,3,4,5) nz(2,4,6) far,
      where p = sample_peer and r = sample_peer]]
  show ?thesis by (fastforce simp: sample_peer_def)
qed

end
