(* ===== verification/Rpc_Workload.thy ===== *)
theory Rpc_Workload
  imports Rpc_System
begin

text \<open>
  The test workers of \<^verbatim>\<open>examples/async_rpc.cc\<close>: a million calls each, with the checks of every response, and the
  statistics they leave behind. The clock is an argument, and floating point numbers are left out of the log lines.
\<close>

section \<open>Constants and statistics\<close>

definition kSendCount :: nat where "kSendCount = 1000 * 1000"

definition kBatchSize :: nat where "kBatchSize = 400000"

record statistic =
  st_total_operations :: int
  st_total_duration_us :: int
  st_send_msg_size_bytes :: size_t
  st_recv_msg_size_bytes :: size_t

definition statistic_init :: statistic where
  "statistic_init = \<lparr>st_total_operations = 0, st_total_duration_us = 0, st_send_msg_size_bytes = kSendMsgSize,
     st_recv_msg_size_bytes = kRecvMsgSize\<rparr>"

text \<open>\<open>kSendCount * kConcurrency\<close> is an \<open>int\<close> product, before it is stored as \<open>long long\<close>.\<close>

definition set_statistic :: "int \<Rightarrow> int \<Rightarrow> (statistic, unit) se" where
  "set_statistic kConcurrency elapsed = thenS (modifyS (\<lambda>st. st\<lparr>st_total_duration_us := elapsed\<rparr>))
     (let n = int kSendCount * kConcurrency in
      if fits 32 n then modifyS (\<lambda>st. st\<lparr>st_total_operations := n\<rparr>) else throwS (Undefined_behaviour ''signed overflow''))"

text \<open>
  \<open>print_stats\<close> leaves the process when nothing was measured. The bytes are a product in \<open>size_t\<close>, the bits one in
  \<open>long long\<close>.
\<close>

datatype printed = Exited int | Printed (printed_operations: int) (printed_us: int)

definition print_stats :: "statistic \<Rightarrow> exn + printed" where
  "print_stats st = (let n = st_total_operations st; us = st_total_duration_us st in
     if us = 0 then Inr (Exited (- 10))
     else let bytes = sint (of_int n * (st_send_msg_size_bytes st + st_recv_msg_size_bytes st)) in
       if fits 64 (bytes * 8) then Inr (Printed n us) else Inl (Undefined_behaviour ''signed overflow''))"

section \<open>Workers\<close>

datatype workload_line = Started | Wrong rpc_error | Batch nat | Total nat

definition batch_report :: "nat \<Rightarrow> workload_line list" where
  "batch_report i = (if 0 < i \<and> i mod kBatchSize = 0 then [Batch i] else [])"

text \<open>
  The same request and response vectors in every round; \<open>call\<close> is \<open>RpcClientMux::call\<close>, which returns a length and leaves the
  response vector with some content.
\<close>

type_synonym 's calls = "bytes \<Rightarrow> bytes \<Rightarrow> 's \<Rightarrow> (size_t \<times> bytes) \<times> 's"

fun test_rounds :: "'s calls \<Rightarrow> nat \<Rightarrow> nat \<Rightarrow> bytes \<Rightarrow> bytes \<Rightarrow> 's \<Rightarrow> workload_line list \<times> 's" where
  "test_rounds call i 0 req resp s = ([], s)"
| "test_rounds call i (Suc r) req resp s =
     (let ((n, resp'), s') = call req resp s; (ls, s'') = test_rounds call (Suc i) r req resp' s'
      in (map Wrong (check_response n resp') @ batch_report i @ ls, s''))"

definition all_rounds :: "'s calls \<Rightarrow> 's \<Rightarrow> workload_line list \<times> 's" where
  "all_rounds call s =
     test_rounds call 0 kSendCount (replicate (unat kSendMsgSize) 0x01) (replicate (unat kRecvMsgSize) 0x00) s"

definition sync_rpc_test_worker :: "'s calls \<Rightarrow> int \<Rightarrow> int \<Rightarrow> ('s \<times> statistic, workload_line list) se" where
  "sync_rpc_test_worker call kConcurrency elapsed s = (let (ls, calls) = all_rounds call (fst s) in
     bindS (on_snd (set_statistic kConcurrency elapsed)) (\<lambda>u. returnS ([Started] @ ls @ [Total kSendCount])) (calls, snd s))"

definition rpc_test_worker :: "'s calls \<Rightarrow> int \<Rightarrow> int \<Rightarrow> ('s \<times> statistic, workload_line list) se" where
  "rpc_test_worker call kConcurrency elapsed s = (let (ls, calls) = all_rounds call (fst s) in
     bindS (on_snd (set_statistic kConcurrency elapsed)) (\<lambda>u. returnS (ls @ [Total kSendCount])) (calls, snd s))"

section \<open>A clean run\<close>

lemma rounds_clean:
  assumes "\<And>req resp s. length resp = 4096 \<Longrightarrow> \<exists>s'. call req resp s = ((4096, replicate 4096 0xEE), s')" and "length resp = 4096"
  shows "fst (test_rounds call i r req resp s) = concat (map batch_report [i..<i + r])"
  using assms(2)
proof (induction r arbitrary: i resp s)
  case (Suc r)
  from assms(1) [OF Suc.prems, of req s] obtain s' where c: "call req resp s = ((4096, replicate 4096 0xEE), s')" by blast
  have "check_response 4096 (replicate 4096 0xEE) = []" by (simp add: check_response_def del: replicate.simps)
  moreover have "fst (test_rounds call (Suc i) r req (replicate 4096 0xEE) s') = concat (map batch_report [Suc i..<Suc i + r])"
    by (rule Suc.IH) simp
  moreover have "[i..<i + Suc r] = i # [Suc i..<Suc i + r]" by (subst upt_conv_Cons) simp_all
  ultimately show ?case by (simp only: test_rounds.simps c Let_def split_def fst_conv snd_conv list.map append_Nil concat.simps)
qed simp

lemma batches: "concat (map batch_report [0..<kSendCount]) = [Batch 400000, Batch 800000]"
proof -
  have "0 < kBatchSize" by (simp add: kBatchSize_def)
  from multiples_below [OF this] show ?thesis
    unfolding batch_report_def concat_map_if by (simp only: kSendCount_def kBatchSize_def) (simp add: upt_conv_Cons)
qed

lemma all_rounds_clean:
  assumes "\<And>req resp s. length resp = 4096 \<Longrightarrow> \<exists>s'. call req resp s = ((4096, replicate 4096 0xEE), s')"
  shows "fst (all_rounds call s) = [Batch 400000, Batch 800000]"
proof -
  have "length (replicate (unat kRecvMsgSize) 0x00 :: bytes) = 4096" by (simp add: kRecvMsgSize_def)
  from rounds_clean [where call = call, OF assms this] batches show ?thesis by (simp add: all_rounds_def)
qed

lemma print_total:
  assumes "0 \<le> k" and "k \<le> 2147" and "elapsed \<noteq> 0"
  shows "print_stats (statistic_init\<lparr>st_total_duration_us := elapsed, st_total_operations := 1000000 * k\<rparr>) = Inr (Printed (1000000 * k) elapsed)"
proof -
  have "of_int (1000000 * k) * (4352 :: u64) = word_of_int (4352000000 * k)"
    using of_int_mult [of "1000000 * k" 4352, where 'a = u64] by (simp add: mult.commute)
  then have "sint (of_int (1000000 * k) * (4352 :: u64)) = 4352000000 * k"
    using assms(1,2) by (simp only: signed_of_int) (simp add: signed_take_bit_int_eq_self)
  then show ?thesis using assms by (simp add: print_stats_def statistic_init_def rpc_sizes fits_def)
qed

text \<open>
  C40: if every call does what \<open>rpc_end_to_end\<close> says of one that returned, a worker finds no error in a million responses and reports
  two batches. Its statistics, and the printing of them, are those of all workers together for up to 2147 workers; for more, the
  product of \<open>int\<close>s overflows.
\<close>

theorem rpc_workload_outcome:
  assumes "\<And>req resp s. length resp = 4096 \<Longrightarrow> \<exists>s'. call req resp s = ((4096, replicate 4096 0xEE), s')"
    and "0 \<le> k" and "elapsed \<noteq> 0"
  shows "\<exists>calls. rpc_test_worker call k elapsed (s, statistic_init) =
     (if k \<le> 2147 then (Inr [Batch 400000, Batch 800000, Total 1000000],
          (calls, statistic_init\<lparr>st_total_duration_us := elapsed, st_total_operations := 1000000 * k\<rparr>))
      else (Inl (Undefined_behaviour ''signed overflow''), (calls, statistic_init\<lparr>st_total_duration_us := elapsed\<rparr>))) \<and>
     (k \<le> 2147 \<longrightarrow> print_stats (statistic_init\<lparr>st_total_duration_us := elapsed, st_total_operations := 1000000 * k\<rparr>) =
        Inr (Printed (1000000 * k) elapsed))"
proof -
  obtain calls where r: "all_rounds call s = ([Batch 400000, Batch 800000], calls)"
    using all_rounds_clean [where call = call and s = s, OF assms(1)] by (metis prod.collapse)
  have ints: "fits 32 (int kSendCount * k) \<longleftrightarrow> k \<le> 2147" using assms(2) by (auto simp: fits_def kSendCount_def)
  have worker: "rpc_test_worker call k elapsed (s, statistic_init) =
     (if k \<le> 2147 then (Inr [Batch 400000, Batch 800000, Total 1000000],
          (calls, statistic_init\<lparr>st_total_duration_us := elapsed, st_total_operations := 1000000 * k\<rparr>))
      else (Inl (Undefined_behaviour ''signed overflow''), (calls, statistic_init\<lparr>st_total_duration_us := elapsed\<rparr>)))"
    using ints by (simp add: rpc_test_worker_def r set_statistic_def se_defs Let_def kSendCount_def on_snd_def)
  with print_total [OF assms(2) _ assms(3)] show ?thesis by blast
qed

theorem rpc_workload_outcome_witness:
  "fst (rpc_test_worker (\<lambda>req resp u. ((4096, replicate 4096 0xEE), u)) 16 5 ((), statistic_init)) =
     Inr [Batch 400000, Batch 800000, Total 1000000]"
proof -
  have "\<And>req resp u. length resp = 4096 \<Longrightarrow> \<exists>u'. ((4096 :: size_t, replicate 4096 (0xEE :: u8)), u) = ((4096, replicate 4096 0xEE), u' :: unit)"
    by blast
  from rpc_workload_outcome [where call = "\<lambda>req resp u. ((4096, replicate 4096 0xEE), u)" and k = 16 and elapsed = 5 and s = "()", OF this]
  show ?thesis by fastforce
qed

end
