(* ===== verification/Rpc_Lifetime.thy ===== *)
theory Rpc_Lifetime
  imports Rpc_System
begin

text \<open>
  The loops of \<^verbatim>\<open>examples/include/coro_rpc.hpp\<close> from start to end: the worker of a server over a whole sequence of requests, the end of
  the receive workers of a client, the client of several queue pairs, and destruction.
\<close>

section \<open>The loop of a server worker\<close>

text \<open>
  What a receive of the worker ends with: a message, and what the send of its reply ends with, or the exception of the receive.
  The card writes the message into the slice of the worker. The worker waits in its receive, or an exception left it; only
  those of the send are caught.
\<close>

datatype server_event = Request_arrives bytes "exn option" | Receive_throws exn

datatype worker_end = Waits_for_request | Left_by exn

definition received :: "size_t \<Rightarrow> bytes \<Rightarrow> rpc_server \<Rightarrow> rpc_server" where
  "received idx m s = s\<lparr>sv_recv_pool := pool_patch 272 (unat idx) 0 m (sv_recv_pool s)\<rparr>"

fun server_worker :: "endian \<Rightarrow> 'g handler \<Rightarrow> size_t \<Rightarrow> server_event list \<Rightarrow> rpc_server \<times> 'g \<Rightarrow> bytes list \<times> worker_end \<times> rpc_server \<times> 'g" where
  "server_worker e h idx [] s = ([], Waits_for_request, s)"
| "server_worker e h idx (Receive_throws ex # es) s = ([], Left_by ex, s)"
| "server_worker e h idx (Request_arrives m sent # es) s =
     (case server_handle e h idx (of_nat (length m)) (received idx m (fst s), snd s) of
        (Inl ex, t) \<Rightarrow> ([], Left_by ex, t)
      | (Inr Server_again, t) \<Rightarrow> server_worker e h idx es t
      | (Inr (Server_send v), t) \<Rightarrow>
          (case sent of
             Some ex \<Rightarrow> if std_exception ex then (let (rs, x) = server_worker e h idx es t in (reply_bytes (fst t) v # rs, x))
                        else ([reply_bytes (fst t) v], Left_by ex, t)
           | None \<Rightarrow> (let (rs, x) = server_worker e h idx es t in (reply_bytes (fst t) v # rs, x))))"

lemma received_arrived:
  assumes "server_wf s" and "idx < sv_recv_depth s" and "length m \<le> 272"
  shows "server_wf (received idx m s)" and "request_arrived idx m (received idx m s)"
proof -
  have i: "unat idx < unat (sv_recv_depth s)" using assms(2) by (simp add: word_less_nat_alt)
  have len: "length (sv_recv_pool s) = unat (sv_recv_depth s) * 272" using assms(1) by (simp add: server_wf_def)
  then have "length (pool_patch 272 (unat idx) 0 m (sv_recv_pool s)) = unat (sv_recv_depth s) * 272"
    using i assms(3) by (simp add: pool_patch_length)
  then show "server_wf (received idx m s)" using assms(1) by (simp add: server_wf_def received_def)
  have "Suc (unat idx) * 272 \<le> unat (sv_recv_depth s) * 272" using i by (intro mult_le_mono1) simp
  then have w: "pool_within 272 (unat idx) (sv_recv_pool s)" using len by (simp add: pool_within_def)
  then have "pool_part 272 (unat idx) (sv_recv_pool (received idx m s)) = write_at 0 m (pool_part 272 (unat idx) (sv_recv_pool s))"
    using assms(3) by (simp add: received_def pool.part_patch)
  then show "request_arrived idx m (received idx m s)"
    using assms(2,3) by (simp add: request_arrived_def) (simp add: received_def write_at_def bytes_at_def)
qed

text \<open>
  What the worker relies on: for \<open>k\<close> more requests the handler returns a response of 1 to 4096 bytes, whatever it
  does to its own state. The default handler does until its counter wraps around.
\<close>

primrec handler_lasts :: "'g handler \<Rightarrow> nat \<Rightarrow> 'g \<Rightarrow> bool" where
  "handler_lasts h 0 g = True"
| "handler_lasts h (Suc k) g = (\<forall>req old. length req \<le> 256 \<longrightarrow> length old = 4096 \<longrightarrow>
     (\<exists>n resp g'. h req old g = (Inr (n, resp), g') \<and> length resp = 4096 \<and> n \<noteq> 0 \<and> unat n \<le> 4096 \<and> handler_lasts h k g'))"

lemma default_handler_lasts: "unat g + k \<le> 2 ^ 31 \<Longrightarrow> handler_lasts default_handler k g"
proof (induction k arbitrary: g)
  case (Suc k)
  have "0 \<le> sint g"
  proof -
    have "unat g < 2147483648" using Suc.prems by simp
    then have "int (unat g) < 2147483648" by linarith
    then have "uint g < 2 ^ 31" by (simp only: uint_nat) simp
    moreover have "- (2 ^ 31) \<le> uint g" by (rule order_trans [of _ 0]) simp_all
    ultimately have "signed_take_bit 31 (uint g) = uint g" by (intro signed_take_bit_int_eq_self)
    then have "sint g = uint g" by (simp add: sint_uint)
    then show ?thesis by simp
  qed
  then have run: "default_handler req old g = (Inr (4096, replicate 4096 0xEE @ drop 4096 old), g + 1)" if "length old = 4096" for req old
    using default_handler_ok [of g old req] that by simp
  have "unat (g + 1) = Suc (unat g)" using Suc.prems by (simp add: unat_word_ariths)
  then have "handler_lasts default_handler k (g + 1)" using Suc.prems by (intro Suc.IH) simp
  then show ?case by (simp add: run)
qed simp

definition client_request :: "endian \<Rightarrow> server_event \<Rightarrow> bool" where
  "client_request e ev = (case ev of Receive_throws ex \<Rightarrow> False
     | Request_arrives m sent \<Rightarrow> (\<exists>i req. request_of e i req m \<and> length req \<le> 256) \<and>
         (case sent of None \<Rightarrow> True | Some ex \<Rightarrow> std_exception ex))"

fun event_answered :: "endian \<Rightarrow> 'g handler \<Rightarrow> server_event \<Rightarrow> bytes \<Rightarrow> bool" where
  "event_answered e h (Request_arrives m sent) r = answers e (handled h) m r"
| "event_answered e h (Receive_throws ex) r = False"

lemma server_serves:
  assumes "handler_lasts h (length es) (snd s)" and "server_wf (fst s)" and "idx < sv_recv_depth (fst s)" and "list_all (client_request e) es"
  shows "\<exists>rs s'. server_worker e h idx es s = (rs, Waits_for_request, s') \<and> list_all2 (event_answered e h) es rs \<and> server_wf (fst s')"
  using assms
proof (induction es arbitrary: s)
  case Nil
  then show ?case by simp
next
  case (Cons ev es)
  then obtain m sent i req where ev: "ev = Request_arrives m sent" and m: "request_of e i req m" "length req \<le> 256"
    and sent: "case sent of None \<Rightarrow> True | Some ex \<Rightarrow> std_exception ex"
    by (auto simp: client_request_def split: server_event.splits)
  obtain c g where s: "s = (c, g)" by (cases s)
  have "length m \<le> 272" using m by (auto simp: request_of_def)
  note arr = received_arrived [OF Cons.prems(2,3) this]
  have idx: "unat idx < unat (sv_recv_depth (received idx m c))"
    using Cons.prems(3) by (simp add: s received_def word_less_nat_alt)
  let ?old = "bytes_at 16 4096 (pool_part 4112 (unat idx) (sv_send_pool (received idx m c)))"
  have "length ?old = 4096"
    using pool.part_length [OF server_within [OF arr(1) [unfolded s fst_conv] idx]] by simp
  moreover have "handler_lasts h (Suc (length es)) g" using Cons.prems(1) by (simp add: s)
  ultimately obtain n resp g' where h: "h req ?old g = (Inr (n, resp), g')" "length resp = 4096" "n \<noteq> 0" "unat n \<le> 4096"
    and lasts: "handler_lasts h (length es) g'" using m(2) unfolding handler_lasts.simps by blast
  have "\<exists>v s'. server_handle e h idx (of_nat (length m)) (received idx m c, g) = (Inr (Server_send v), (s', g')) \<and>
     server_wf s' \<and> sv_recv_depth s' = sv_recv_depth (received idx m c) \<and> answers e (handled h) m (reply_bytes s' v)"
    by (rule server_answers, rule arr(1) [unfolded s fst_conv], rule arr(2) [unfolded s fst_conv], rule m, rule m, rule h, rule h, rule h, rule h)
  then obtain v s' where run: "server_handle e h idx (of_nat (length m)) (received idx m c, g) = (Inr (Server_send v), (s', g'))"
    and wf: "server_wf s'" and depth: "sv_recv_depth s' = sv_recv_depth c" and ans: "answers e (handled h) m (reply_bytes s' v)"
    unfolding received_def by auto
  obtain rs x where rest: "server_worker e h idx es (s', g') = (rs, Waits_for_request, x)"
    and all: "list_all2 (event_answered e h) es rs" "server_wf (fst x)"
    using Cons.IH [of "(s', g')"] Cons.prems wf depth s lasts by auto
  have "server_worker e h idx (ev # es) s = (reply_bytes s' v # rs, Waits_for_request, x)"
    using sent by (auto simp: ev s run rest split: option.splits)
  then show ?case using ans all by (auto simp: ev)
qed

lemma server_worker_throws:
  "server_worker e h idx es s = (rs, Waits_for_request, s') \<Longrightarrow> server_worker e h idx (es @ Receive_throws ex # es') s = (rs, Left_by ex, s')"
  by (induction e h idx es s arbitrary: rs rule: server_worker.induct)
    (auto split: prod.splits sum.splits server_outcome.splits option.splits if_splits)

text \<open>
  C20: a server worker answers every request of a whole sequence, one reply each and in their order, also when sends fail, and then
  waits for the next; the first exception of a receive ends it, whatever would come after.
\<close>

theorem rpc_server_worker_serves:
  assumes "handler_lasts h (length es) (snd s)" and "server_wf (fst s)" and "idx < sv_recv_depth (fst s)"
    and "list_all (client_request e) es"
  shows "\<exists>rs s'. server_worker e h idx es s = (rs, Waits_for_request, s') \<and> list_all2 (event_answered e h) es rs \<and> server_wf (fst s') \<and>
     server_worker e h idx (es @ Receive_throws ex # es') s = (rs, Left_by ex, s')"
  using server_serves [OF assms] server_worker_throws by blast

theorem rpc_server_worker_serves_witness:
  "\<exists>rs s'. server_worker Little default_handler 0 [Request_arrives (rpc_message Little 5 3 [0, 0, 0, 0] [1, 2, 3]) None,
       Request_arrives (rpc_message Little 5 1 [0, 0, 0, 0] [9]) (Some (Runtime_error ''send''))] (sample_server [], 0) =
     (rs, Waits_for_request, s') \<and> length rs = 2"
proof -
  let ?es = "[Request_arrives (rpc_message Little 5 3 [0, 0, 0, 0] [1, 2, 3]) None,
       Request_arrives (rpc_message Little 5 1 [0, 0, 0, 0] [9]) (Some (Runtime_error ''send''))]"
  have "handler_lasts default_handler (length ?es) (snd (sample_server [], 0))" by (rule default_handler_lasts) simp
  moreover have "server_wf (fst (sample_server [], 0 :: 32 word))" "0 < sv_recv_depth (fst (sample_server [], 0 :: 32 word))"
    by (simp_all add: server_wf_def sample_server_def local_mr_ctor_def)
  moreover have "request_of Little 5 [1, 2, 3] (rpc_message Little 5 3 [0, 0, 0, 0] [1, 2, 3])"
    "request_of Little 5 [9] (rpc_message Little 5 1 [0, 0, 0, 0] [9])"
    unfolding request_of_def by (intro exI [of _ 5] exI [of _ "[0, 0, 0, 0]"], simp add: decode_slot_eq)+
  then have "list_all (client_request Little) ?es" by (force simp: client_request_def)
  ultimately show ?thesis
    using rpc_server_worker_serves [where h = default_handler and es = ?es and s = "(sample_server [], 0)" and idx = 0 and e = Little]
    by (metis list_all2_lengthD length_Cons list.size(3) numeral_2_eq_2)
qed

text \<open>
  \<open>run\<close> awaits all workers with \<open>when_all\<close>, which hands on the first exception when all have ended: \<open>None\<close> while one of them waits.
\<close>

definition rpc_server_run :: "worker_end list \<Rightarrow> (exn + unit) option" where
  "rpc_server_run ws = (if Waits_for_request \<in> set ws then None
     else Some (case ws of Left_by ex # _ \<Rightarrow> Inl ex | _ \<Rightarrow> Inr ()))"

section \<open>The end of the receive workers\<close>

text \<open>\<open>start_recv_workers\<close> returns, and \<open>worker_\<close> can be joined, when every receive worker has left its loop.\<close>

definition join_returns :: "rpc_system \<Rightarrow> bool" where
  "join_returns s = list_all (\<lambda>w. w = W_ended) (rs_workers s)"

text \<open>A worker leaves its loop when its receive fails, and then only.\<close>

lemma worker_ends:
  assumes "rpc_step e ok s t" and "w < length (rs_workers s)" and "rs_workers t ! w = W_ended"
  shows "rs_workers s ! w = W_ended \<or> rs_workers s ! w = W_posted \<and> t = set_worker w W_ended s"
  using assms by cases (auto simp: nth_list_update split: if_splits)

lemma ended_stays:
  assumes "rpc_step e ok s t" and "join_returns s"
  shows "join_returns t \<and> rs_returned t = rs_returned s \<and> (rs_callers s k = C_awaiting i req m \<longrightarrow> rs_callers t k = C_awaiting i req m)"
  using assms by cases (auto simp: join_returns_def list_all_length nth_list_update)

text \<open>
  C21: once the receives of all workers have failed, \<open>call\<close> never returns a response again: a caller that waits for one waits
  for ever, its slot is never given back, and no error reaches it.
\<close>

theorem rpc_calls_lost_with_workers:
  assumes "reach rs_start (rpc_step e ok) s" and "join_returns s" and "rs_callers s k = C_awaiting i req m"
    and "(rpc_step e ok)\<^sup>*\<^sup>* s t"
  shows "rs_callers t k = C_awaiting i req m \<and> i \<notin># cl_free_slots (rs_client t) \<and> rs_returned t = rs_returned s"
proof -
  from assms(4) have "join_returns t \<and> rs_callers t k = C_awaiting i req m \<and> rs_returned t = rs_returned s"
  proof (induction rule: rtranclp_induct)
    case base
    then show ?case using assms by simp
  next
    case (step u v)
    then show ?case using ended_stays [of e ok u v k i req m] by simp
  qed
  moreover have "i \<notin># cl_free_slots (rs_client t)" if "held (rs_callers t k) = Some i"
  proof -
    have "slots_ok (rs_client t) (rs_callers t)"
      using reach_shape [OF reach_more [OF assms(1,4)]] by (simp add: rpc_shape_def)
    then show ?thesis by (rule slots_okD) (rule that)
  qed
  ultimately show ?thesis by simp
qed

theorem rpc_calls_lost_with_workers_witness:
  "\<exists>s i m. reach rs_start (rpc_step Little (\<lambda>req d. True)) s \<and> join_returns s \<and> rs_callers s 7 = C_awaiting i [9] m \<and> i \<notin># cl_free_slots (rs_client s)"
proof -
  let ?step = "rpc_step Little (\<lambda>req d. True)"
  have r: "reach rs_start ?step sample_rpc" by (rule reach_start) (rule sample_rpc_start)
  obtain s1 m where s1: "?step\<^sup>*\<^sup>* sample_rpc s1" "rs_callers s1 7 = C_sending 0 [9] m" "rs_workers s1 = [W_posted, W_posted]"
    using call_posts [OF reach_shape [OF r], of 7 "[9]" 0 Little "\<lambda>req d. True"] by (auto simp: sample_rpc_def sample_client_def)
  let ?s2 = "set_caller 7 (C_awaiting 0 [9] m) (s1\<lparr>rs_client := response_await_suspend 0 7 (rs_client s1)\<rparr>)"
  let ?s3 = "set_worker 0 W_ended ?s2" and ?s4 = "set_worker 1 W_ended (set_worker 0 W_ended ?s2)"
  have "?step s1 ?s2" by (rule rpc_step.send_done) (rule s1(2))
  moreover have "?step ?s2 ?s3" by (rule rpc_step.recv_fail) (simp_all add: s1(3))
  moreover have "?step ?s3 ?s4" by (rule rpc_step.recv_fail) (simp_all add: s1(3))
  ultimately have run: "?step\<^sup>*\<^sup>* sample_rpc ?s4" using s1(1) by (meson rtranclp.rtrancl_into_rtrancl)
  have ends: "join_returns ?s4" and waits: "rs_callers ?s4 7 = C_awaiting 0 [9] m" by (simp_all add: join_returns_def s1(3))
  from rpc_calls_lost_with_workers [OF reach_more [OF r run] ends waits rtranclp.rtrancl_refl] reach_more [OF r run] ends
  show ?thesis by blast
qed

section \<open>Destruction\<close>

text \<open>
  The destructors are implicit: members are destroyed in the reverse of their order, \<open>worker_\<close> first. \<open>None\<close> is a destructor that does
  not return, because a receive worker still waits for a message.
\<close>

definition release_client :: "verbs \<Rightarrow> rpc_client \<Rightarrow> (world, unit) se" where
  "release_client V c = thenS (local_mr_dtor V (cl_recv_mr c)) (local_mr_dtor V (cl_send_mr c))"

definition rpc_client_dtor :: "verbs \<Rightarrow> rpc_system \<Rightarrow> (world, unit option) se" where
  "rpc_client_dtor V s = (if join_returns s then thenS (release_client V (rs_client s)) (returnS (Some ())) else returnS None)"

definition rpc_server_dtor :: "verbs \<Rightarrow> rpc_server \<Rightarrow> (world, unit) se" where
  "rpc_server_dtor V s = thenS (local_mr_dtor V (sv_send_mr s)) (local_mr_dtor V (sv_recv_mr s))"

lemma release_client_calls:
  assumes "lmr_mr (cl_recv_mr c) = Some m2" and "lmr_mr (cl_send_mr c) = Some m1"
  shows "\<exists>w'. release_client V c w = (Inr (), w') \<and> calls w' = calls w @ [Dereg_mr (mr_handle m2), Dereg_mr (mr_handle m1)]"
  using assms by (simp add: release_client_def local_mr_dtor_def se_defs call_rc_apply)

text \<open>A client gives back both regions it registered, the last one first, if it can be destroyed at all.\<close>

lemma rpc_client_destroyed:
  assumes "client_wf (rs_client s)" and "join_returns s"
  shows "\<exists>w' m1 m2. rpc_client_dtor V s w = (Inr (Some ()), w') \<and> lmr_mr (cl_send_mr (rs_client s)) = Some m1 \<and>
     lmr_mr (cl_recv_mr (rs_client s)) = Some m2 \<and> calls w' = calls w @ [Dereg_mr (mr_handle m2), Dereg_mr (mr_handle m1)]"
proof -
  from assms(1) obtain m1 m2 where m: "lmr_mr (cl_recv_mr (rs_client s)) = Some m2" "lmr_mr (cl_send_mr (rs_client s)) = Some m1"
    unfolding client_wf_def by blast
  from release_client_calls [OF m, of V w] obtain w' where "release_client V (rs_client s) w = (Inr (), w')"
    "calls w' = calls w @ [Dereg_mr (mr_handle m2), Dereg_mr (mr_handle m1)]" by blast
  then show ?thesis using assms(2) m by (simp add: rpc_client_dtor_def se_defs)
qed

section \<open>A client of several queue pairs\<close>

text \<open>
  \<open>RpcClientMux\<close> constructs its clients one after the other. If one of them throws, those before are destroyed, whose receive workers have
  just begun to wait: \<open>None\<close> is again a constructor that does not return. \<open>bases\<close> are the places of the buffers.
\<close>

primrec release_clients :: "verbs \<Rightarrow> rpc_client list \<Rightarrow> (world, unit) se" where
  "release_clients V [] = returnS ()"
| "release_clients V (c # cs) = thenS (release_client V c) (release_clients V cs)"

fun mux_clients :: "verbs \<Rightarrow> size_t \<Rightarrow> (pd \<times> ptr \<times> ptr) list \<Rightarrow> rpc_client list \<Rightarrow> (world, rpc_client list option) se" where
  "mux_clients V recv_depth [] cs w = (Inr (Some cs), w)"
| "mux_clients V recv_depth ((p, sbase, rbase) # ps) cs w = (case rpc_client_ctor V p recv_depth sbase rbase w of
     (Inr (Some c), w') \<Rightarrow> mux_clients V recv_depth ps (cs @ [c]) w'
   | (Inr None, w') \<Rightarrow> (Inr None, w')
   | (Inl ex, w') \<Rightarrow> if cs = [] \<or> recv_depth = 0 then thenS (release_clients V cs) (throwS ex) w' else (Inr None, w'))"

lemma release_clients_ok: "fst (release_clients V cs w) = Inr ()"
  by (induction cs arbitrary: w) (auto simp: se_defs release_client_def local_mr_dtor_def call_rc_apply split: option.splits)

lemma mux_clients_wf:
  "mux_clients V d ps cs w = (Inr (Some cs'), w') \<Longrightarrow> \<forall>c \<in> set cs. client_wf c \<Longrightarrow>
   length cs' = length cs + length ps \<and> (\<forall>c \<in> set cs'. client_wf c)"
proof (induction V d ps cs w rule: mux_clients.induct)
  case (2 V d p sb rb ps cs w)
  obtain x w1 where run: "rpc_client_ctor V p d sb rb w = (x, w1)" by (cases "rpc_client_ctor V p d sb rb w")
  show ?case
  proof (cases x)
    case (Inl ex)
    then show ?thesis using 2(2) run release_clients_ok [of V cs w1] by (auto simp: se_defs split: if_splits prod.splits)
  next
    case (Inr y)
    with 2(2) run obtain c where "y = Some c" by (cases y) auto
    then show ?thesis using 2 run Inr rpc_client_ctor_wf [of V p d sb rb w c w1] by auto
  qed
qed simp

text \<open>A call through the mux reaches a well-formed client, whatever the selector is.\<close>

lemma mux_call_reaches_client:
  assumes "mux_clients V d ps [] w = (Inr (Some cs), w')" and "ps \<noteq> []"
  shows "\<exists>j < length cs. mux_select (length cs) sel = (Inr j, sel + 1) \<and> client_wf (cs ! j)"
  using mux_clients_wf [OF assms(1)] assms(2) by (auto simp: mux_select_def)

text \<open>A second client that cannot be constructed hangs the constructor: the first one waits for its receive workers.\<close>

lemma mux_ctor_hangs:
  assumes "rpc_client_ctor V p d sbase rbase w = (Inr (Some c), w1)" and "rpc_client_ctor V p' d sbase' rbase' w1 = (Inl ex, w2)" and "d \<noteq> 0"
  shows "mux_clients V d ((p, sbase, rbase) # (p', sbase', rbase') # ps) [] w = (Inr None, w2)"
  using assms by simp

end
