(* ===== verification/Programs.thy ===== *)
theory Programs
  imports Handshake Rpc_Server
begin

text \<open>
  The example programs around their coroutines: the command line, the device and protection domain every \<open>main\<close> opens, and the loops in which the
  servers accept connections. Event loops belong to asio: the run of a server or a client is an argument of \<open>main\<close>.
\<close>

section \<open>Numbers on the command line\<close>

definition is_blank :: "char \<Rightarrow> bool" where
  "is_blank c \<longleftrightarrow> of_char c = (32 :: nat) \<or> 9 \<le> (of_char c :: nat) \<and> of_char c \<le> (13 :: nat)"

definition is_digit :: "char \<Rightarrow> bool" where
  "is_digit c \<longleftrightarrow> 48 \<le> (of_char c :: nat) \<and> of_char c \<le> (57 :: nat)"

definition digits_value :: "string \<Rightarrow> nat" where
  "digits_value ds = foldl (\<lambda>n c. 10 * n + (of_char c - 48)) 0 ds"

text \<open>\<open>std::stoi\<close>: blanks, a sign, and as many digits as there are; what follows them is ignored.\<close>

definition stoi :: "string \<Rightarrow> exn + int" where
  "stoi s = (let s1 = dropWhile is_blank s;
       (sign, s2) = (case s1 of [] \<Rightarrow> (1, []) | c # r \<Rightarrow> if c = CHR ''-'' then (- 1, r) else if c = CHR ''+'' then (1, r) else (1, s1));
       ds = takeWhile is_digit s2; n = sign * int (digits_value ds)
     in if ds = [] then Inl (Invalid_argument ''stoi'') else if fits 32 n then Inr n else Inl (Out_of_range ''stoi''))"

section \<open>main\<close>

text \<open>
  What every \<open>main\<close> does first and last. No handler surrounds it, so an exception ends the process without any
  destructor.
\<close>

definition on_device :: "verbs \<Rightarrow> device \<Rightarrow> u16 \<Rightarrow> (pd \<Rightarrow> (world, int) se) \<Rightarrow> (world, int) se" where
  "on_device V mem device_num body = bindS (device_ctor_num V mem device_num 1) (\<lambda>d. bindS (pd_ctor V d) (\<lambda>p.
     bindS (body p) (\<lambda>code. thenS (pd_dtor V p) (thenS (device_dtor V d) (returnS code)))))"

text \<open>\<open>asio::detached\<close> drops the exception a coroutine ends with; a future hands it on.\<close>

definition detached :: "(world, unit) se \<Rightarrow> (world, unit) se" where
  "detached m = catchS cxx_exception m (\<lambda>e. returnS ())"

definition on_port :: "(u16 \<Rightarrow> (world, unit) se) \<Rightarrow> string \<Rightarrow> (world, int) se" where
  "on_port m arg = bindS (liftS (stoi arg)) (\<lambda>n. thenS (m (word_of_int n)) (returnS 0))"

definition two_modes :: "verbs \<Rightarrow> device \<Rightarrow> u16 \<Rightarrow> (pd \<Rightarrow> u16 \<Rightarrow> (world, unit) se) \<Rightarrow> (pd \<Rightarrow> string \<Rightarrow> u16 \<Rightarrow> (world, unit) se) \<Rightarrow>
    string list \<Rightarrow> (world, int) se" where
  "two_modes V mem device_num server client argv = on_device V mem device_num (\<lambda>p.
     if length argv = 2 then on_port (server p) (argv ! 1)
     else if length argv = 3 then on_port (client p (argv ! 1)) (argv ! 2)
     else returnS (- 1))"

text \<open>Servers are detached, as are some clients; the tasks of \<^verbatim>\<open>latency_raw.cc\<close> are dropped with what they ended with.\<close>

definition helloworld_main :: "verbs \<Rightarrow> device \<Rightarrow> (pd \<Rightarrow> u16 \<Rightarrow> (world, unit) se) \<Rightarrow> (pd \<Rightarrow> string \<Rightarrow> u16 \<Rightarrow> (world, unit) se) \<Rightarrow> string list \<Rightarrow> (world, int) se" where
  "helloworld_main V mem server client argv = two_modes V mem 0 (\<lambda>p n. detached (server p n)) client argv"

definition cancellation_main :: "verbs \<Rightarrow> device \<Rightarrow> (pd \<Rightarrow> u16 \<Rightarrow> (world, unit) se) \<Rightarrow> (pd \<Rightarrow> string \<Rightarrow> u16 \<Rightarrow> (world, unit) se) \<Rightarrow> string list \<Rightarrow> (world, int) se" where
  "cancellation_main V mem server client argv = two_modes V mem 0 (\<lambda>p n. detached (server p n)) client argv"

definition rpc_main :: "verbs \<Rightarrow> device \<Rightarrow> (pd \<Rightarrow> u16 \<Rightarrow> (world, unit) se) \<Rightarrow> (pd \<Rightarrow> string \<Rightarrow> u16 \<Rightarrow> (world, unit) se) \<Rightarrow> string list \<Rightarrow> (world, int) se" where
  "rpc_main V mem server client argv = two_modes V mem 0 (\<lambda>p n. detached (server p n)) (\<lambda>p host n. detached (client p host n)) argv"

definition latency_main :: "verbs \<Rightarrow> device \<Rightarrow> (pd \<Rightarrow> u16 \<Rightarrow> (world, unit) se) \<Rightarrow> (pd \<Rightarrow> string \<Rightarrow> u16 \<Rightarrow> (world, unit) se) \<Rightarrow> string list \<Rightarrow> (world, int) se" where
  "latency_main V mem server client argv = two_modes V mem 0 (\<lambda>p n. detached (server p n)) (\<lambda>p host n. detached (client p host n)) argv"

definition latency_raw_main :: "verbs \<Rightarrow> device \<Rightarrow> (pd \<Rightarrow> u16 \<Rightarrow> (world, unit) se) \<Rightarrow> (pd \<Rightarrow> string \<Rightarrow> u16 \<Rightarrow> (world, unit) se) \<Rightarrow> string list \<Rightarrow> (world, int) se" where
  "latency_raw_main V mem server client argv = two_modes V mem 0 (\<lambda>p n. detached (server p n)) (\<lambda>p host n. detached (client p host n)) argv"

definition send_bw_raw_main :: "verbs \<Rightarrow> device \<Rightarrow> (pd \<Rightarrow> u16 \<Rightarrow> (world, unit) se) \<Rightarrow> (pd \<Rightarrow> string \<Rightarrow> u16 \<Rightarrow> (world, unit) se) \<Rightarrow> string list \<Rightarrow> (world, int) se" where
  "send_bw_raw_main V mem server client argv = two_modes V mem 1 server client argv"

text \<open>The usage line needs no device here, and a fourth argument ends the program with success.\<close>

definition write_bw_main :: "verbs \<Rightarrow> device \<Rightarrow> (pd \<Rightarrow> u16 \<Rightarrow> (world, unit) se) \<Rightarrow> (pd \<Rightarrow> string \<Rightarrow> u16 \<Rightarrow> (world, unit) se) \<Rightarrow> string list \<Rightarrow> (world, int) se" where
  "write_bw_main V mem server client argv = (if length argv < 2 then returnS (- 1) else on_device V mem 0 (\<lambda>p.
     if length argv = 2 then on_port (\<lambda>n. detached (server p n)) (argv ! 1)
     else if length argv = 3 then on_port (\<lambda>n. detached (client p (argv ! 1) n)) (argv ! 2)
     else returnS 0))"

text \<open>The RPC workload uses the second device, and its client takes the concurrency as third argument, read first.\<close>

definition async_rpc_main :: "verbs \<Rightarrow> device \<Rightarrow> (pd \<Rightarrow> u16 \<Rightarrow> (world, unit) se) \<Rightarrow>
    (int \<Rightarrow> pd \<Rightarrow> string \<Rightarrow> u16 \<Rightarrow> (world, unit) se) \<Rightarrow> string list \<Rightarrow> (world, int) se" where
  "async_rpc_main V mem server client argv = on_device V mem 1 (\<lambda>p.
     if length argv = 2 then on_port (server p) (argv ! 1)
     else if length argv = 4 then bindS (liftS (stoi (argv ! 3))) (\<lambda>kConcurrency. on_port (client kConcurrency p (argv ! 1)) (argv ! 2))
     else returnS (- 1))"

text \<open>
  \<^verbatim>\<open>pybind11/helloworld.cc\<close>: an object that Python holds owns device and protection domain, and runs the hello world example as often as it
  is told. An exception goes to Python.
\<close>

definition rdma_app_ctor :: "verbs \<Rightarrow> device \<Rightarrow> (world, pd) se" where
  "rdma_app_ctor V mem = bindS (device_ctor_num V mem 0 1) (\<lambda>d. unwindS (pd_ctor V d) (device_dtor V d))"

definition rdma_app_dtor :: "verbs \<Rightarrow> pd \<Rightarrow> (world, unit) se" where
  "rdma_app_dtor V p = thenS (pd_dtor V p) (device_dtor V (pd_device p))"

definition app_run_server :: "(pd \<Rightarrow> u16 \<Rightarrow> (world, unit) se) \<Rightarrow> pd \<Rightarrow> u16 \<Rightarrow> (world, unit) se" where
  "app_run_server server p n = detached (server p n)"

definition app_run_client :: "(pd \<Rightarrow> string \<Rightarrow> u16 \<Rightarrow> (world, unit) se) \<Rightarrow> pd \<Rightarrow> string \<Rightarrow> u16 \<Rightarrow> (world, unit) se" where
  "app_run_client client p host n = client p host n"

text \<open>An application that cannot allocate its protection domain closes the device again; one that is destroyed gives back both.\<close>

lemma device_dtor_calls:
  "dev_ctx d \<noteq> 0 \<Longrightarrow> \<exists>w'. device_dtor V d w = (Inr (), w') \<and> calls w' = calls w @ Close_device (dev_ctx d) #
     (case dev_list d of Some dl \<Rightarrow> if dl_array dl = nullptr then [] else [Free_device_list (dl_array dl)] | None \<Rightarrow> [])"
  by (auto simp: device_dtor_def device_list_dtor_def se_defs se_simps split: option.split)

lemma rdma_app_calls:
  assumes "device_ctor_num V mem 0 1 w = (Inr d, w1)" and "dev_ctx d \<noteq> 0" and "v_ptr V (calls w1) (Alloc_pd (dev_ctx d)) = h"
  shows "h = nullptr \<Longrightarrow> \<exists>ex. rdma_app_ctor V mem w = (Inl ex, snd (device_dtor V d (record_call (Alloc_pd (dev_ctx d)) w1)))"
    and "h \<noteq> nullptr \<Longrightarrow> rdma_app_ctor V mem w = (Inr \<lparr>pd_device = d, pd_pd = h\<rparr>, record_call (Alloc_pd (dev_ctx d)) w1) \<and>
      rdma_app_dtor V \<lparr>pd_device = d, pd_pd = h\<rparr> w' = device_dtor V d (record_call (Dealloc_pd h) w')"
proof -
  show "\<exists>ex. rdma_app_ctor V mem w = (Inl ex, snd (device_dtor V d (record_call (Alloc_pd (dev_ctx d)) w1)))" if "h = nullptr"
    using pd_owner.ctor_fails [of V w1 d] assms that device_dtor_calls [OF assms(2), of V "record_call (Alloc_pd (dev_ctx d)) w1"]
    by (auto simp: rdma_app_ctor_def bindS_def thenS_def catchS_def throwS_def unwindS_def)
  show "rdma_app_ctor V mem w = (Inr \<lparr>pd_device = d, pd_pd = h\<rparr>, record_call (Alloc_pd (dev_ctx d)) w1) \<and>
      rdma_app_dtor V \<lparr>pd_device = d, pd_pd = h\<rparr> w' = device_dtor V d (record_call (Dealloc_pd h) w')" if "h \<noteq> nullptr"
    using assms that by (simp add: rdma_app_ctor_def rdma_app_dtor_def pd_ctor_def pd_dtor_def se_simps se_defs unwindS_def)
qed

lemmas mains = helloworld_main_def cancellation_main_def rpc_main_def latency_main_def latency_raw_main_def send_bw_raw_main_def
  write_bw_main_def two_modes_def

section \<open>Accepting connections\<close>

text \<open>
  The acceptor keeps the pollers of all its connections. A loop is run on the connections that come in, one after the other; \<open>sv_spawned\<close> are the
  queue pairs whose handler was started, and a handler uses its queue pair at once.
\<close>

record server_state =
  sv_pollers :: "cq list"
  sv_world :: world
  sv_spawned :: "qp list"

definition accept_next :: "verbs \<Rightarrow> endian \<Rightarrow> qp \<Rightarrow> pd \<Rightarrow> conn \<Rightarrow> (server_state, qp option) se" where
  "accept_next V e mem p c s = (case accept V e mem p None (c\<lparr>cn_pollers := sv_pollers s, cn_world := sv_world s\<rparr>) of
     (r, c') \<Rightarrow> (r, s\<lparr>sv_pollers := cn_pollers c', sv_world := cn_world c'\<rparr>))"

definition spawn :: "qp option \<Rightarrow> (server_state, unit) se" where
  "spawn q = (case q of None \<Rightarrow> throwS (Undefined_behaviour ''null queue pair'')
     | Some q \<Rightarrow> modifyS (\<lambda>s. s\<lparr>sv_spawned := sv_spawned s @ [q]\<rparr>))"

fun helloworld_server :: "verbs \<Rightarrow> endian \<Rightarrow> qp \<Rightarrow> pd \<Rightarrow> conn list \<Rightarrow> (server_state, unit) se" where
  "helloworld_server V e mem p [] = returnS ()"
| "helloworld_server V e mem p (c # cs) = bindS (accept_next V e mem p c) (\<lambda>q.
     if q = None then helloworld_server V e mem p cs else thenS (spawn q) (helloworld_server V e mem p cs))"

fun rpc_accept_loop :: "verbs \<Rightarrow> endian \<Rightarrow> qp \<Rightarrow> pd \<Rightarrow> conn list \<Rightarrow> (server_state, unit) se" where
  "rpc_accept_loop V e mem p [] = returnS ()"
| "rpc_accept_loop V e mem p (c # cs) = bindS (accept_next V e mem p c) (\<lambda>q.
     thenS (spawn q) (rpc_accept_loop V e mem p cs))"

definition latency_accept_loop :: "verbs \<Rightarrow> endian \<Rightarrow> qp \<Rightarrow> pd \<Rightarrow> conn list \<Rightarrow> (server_state, unit) se" where
  "latency_accept_loop = rpc_accept_loop"

text \<open>The bandwidth server serves \<open>kQP\<close> connections.\<close>

definition kQP :: nat where "kQP = 4"

fun write_bw_server :: "verbs \<Rightarrow> endian \<Rightarrow> qp \<Rightarrow> pd \<Rightarrow> nat \<Rightarrow> conn list \<Rightarrow> (server_state, unit) se" where
  "write_bw_server V e mem p i [] = returnS ()"
| "write_bw_server V e mem p i (c # cs) = (if kQP \<le> i then returnS () else bindS (accept_next V e mem p c) (\<lambda>q.
     thenS (spawn q) (write_bw_server V e mem p (Suc i) cs)))"

text \<open>
  Two servers await the handler of one connection before they accept the next. \<open>ends\<close> tells what a handler ends with; \<open>None\<close> is a
  handler that does not end, and then nobody is served any more.
\<close>

fun latency_raw_server :: "(qp \<Rightarrow> (exn + unit) option) \<Rightarrow> verbs \<Rightarrow> endian \<Rightarrow> qp \<Rightarrow> pd \<Rightarrow> conn list \<Rightarrow> (server_state, unit) se" where
  "latency_raw_server ends V e mem p [] = returnS ()"
| "latency_raw_server ends V e mem p (c # cs) = bindS (accept_next V e mem p c) (\<lambda>q. thenS (spawn q)
     (case ends (the q) of None \<Rightarrow> returnS () | Some (Inl ex) \<Rightarrow> throwS ex | Some (Inr u) \<Rightarrow> latency_raw_server ends V e mem p cs))"

fun cancellation_server :: "(qp \<Rightarrow> (exn + unit) option) \<Rightarrow> verbs \<Rightarrow> endian \<Rightarrow> qp \<Rightarrow> pd \<Rightarrow> conn list \<Rightarrow> (server_state, unit) se" where
  "cancellation_server ends V e mem p [] = returnS ()"
| "cancellation_server ends V e mem p (c # cs) = bindS (accept_next V e mem p c) (\<lambda>q.
     if q = None then cancellation_server ends V e mem p cs
     else thenS (spawn q) (case ends (the q) of None \<Rightarrow> returnS ()
       | Some (Inl ex) \<Rightarrow> if std_exception ex then returnS () else throwS ex
       | Some (Inr u) \<Rightarrow> cancellation_server ends V e mem p cs))"

text \<open>
  The RPC workload constructs a server for every connection and starts its workers; the addresses are those of its two buffers. An exception
  leaves \<open>main\<close>.
\<close>

definition start_rpc_server :: "verbs \<Rightarrow> qp option \<Rightarrow> ptr \<Rightarrow> ptr \<Rightarrow> (server_state, rpc_server) se" where
  "start_rpc_server V q rbase sbase s = (case q of None \<Rightarrow> (Inl (Undefined_behaviour ''null queue pair''), s)
     | Some q \<Rightarrow> (case rpc_server_ctor V (qp_pd q) 2048 rbase sbase (sv_world s) of
         (Inl ex, w) \<Rightarrow> (Inl ex, s\<lparr>sv_world := w\<rparr>)
       | (Inr srv, w) \<Rightarrow> (Inr srv, s\<lparr>sv_world := w, sv_spawned := sv_spawned s @ [q]\<rparr>)))"

fun async_rpc_server :: "verbs \<Rightarrow> endian \<Rightarrow> qp \<Rightarrow> pd \<Rightarrow> (conn \<times> ptr \<times> ptr) list \<Rightarrow> rpc_server list \<Rightarrow> (server_state, rpc_server list) se" where
  "async_rpc_server V e mem p [] servers = returnS servers"
| "async_rpc_server V e mem p ((c, rbase, sbase) # cs) servers = bindS (accept_next V e mem p c) (\<lambda>q.
     bindS (start_rpc_server V q rbase sbase) (\<lambda>srv. async_rpc_server V e mem p cs (servers @ [srv])))"

text \<open>The server of \<^verbatim>\<open>send_bw_raw.cc\<close> accepts one connection only, and constructs its \<open>Server\<close> with it.\<close>

definition send_bw_accept :: "verbs \<Rightarrow> endian \<Rightarrow> qp \<Rightarrow> pd \<Rightarrow> conn \<Rightarrow> (server_state, unit) se" where
  "send_bw_accept V e mem p c = bindS (accept_next V e mem p c) spawn"

section \<open>Connecting\<close>

text \<open>A client connects one queue pair after the other, over sockets given with the number of addresses found, and goes on with each.\<close>

definition connect_next :: "verbs \<Rightarrow> endian \<Rightarrow> qp \<Rightarrow> pd \<Rightarrow> nat \<times> conn \<Rightarrow> (server_state, qp) se" where
  "connect_next V e mem p nc s = (case connect V e mem p None (fst nc) ((snd nc)\<lparr>cn_pollers := sv_pollers s, cn_world := sv_world s\<rparr>) of
     (r, c') \<Rightarrow> (r, s\<lparr>sv_pollers := cn_pollers c', sv_world := cn_world c'\<rparr>))"

fun connect_each :: "verbs \<Rightarrow> endian \<Rightarrow> qp \<Rightarrow> pd \<Rightarrow> (nat \<times> conn) list \<Rightarrow> (server_state, unit) se" where
  "connect_each V e mem p [] = returnS ()"
| "connect_each V e mem p (c # cs) = bindS (connect_next V e mem p c) (\<lambda>q. thenS (spawn (Some q)) (connect_each V e mem p cs))"

definition write_bw_client :: "verbs \<Rightarrow> endian \<Rightarrow> qp \<Rightarrow> pd \<Rightarrow> (nat \<Rightarrow> nat \<times> conn) \<Rightarrow> (server_state, unit) se" where
  "write_bw_client V e mem p sockets = connect_each V e mem p (map sockets [0..<kQP])"

text \<open>The RPC workload, whose \<open>kQP\<close> is \<open>4\<close> as well, collects its queue pairs for the mux.\<close>

definition async_rpc_connect :: "verbs \<Rightarrow> endian \<Rightarrow> qp \<Rightarrow> pd \<Rightarrow> (nat \<Rightarrow> nat \<times> conn) \<Rightarrow> (server_state, unit) se" where
  "async_rpc_connect V e mem p sockets = connect_each V e mem p (map sockets [0..<4])"

text \<open>The latency clients use one queue pair.\<close>

definition latency_client :: "verbs \<Rightarrow> endian \<Rightarrow> qp \<Rightarrow> pd \<Rightarrow> nat \<times> conn \<Rightarrow> (server_state, unit) se" where
  "latency_client V e mem p socket = connect_each V e mem p [socket]"

lemma connect_next_spawned: "sv_spawned (snd (connect_next V e mem p c s)) = sv_spawned s"
  by (simp add: connect_next_def split: prod.split)

text \<open>A loop of connections ends at the first that fails; what was started before is not undone.\<close>

lemma connect_each_outcome:
  "\<exists>k qs. sv_spawned (snd (connect_each V e mem p cs s)) = sv_spawned s @ qs \<and> length qs = k \<and>
     (fst (connect_each V e mem p cs s) = Inr () \<and> k = length cs \<or>
      (\<exists>ex t. k < length cs \<and> fst (connect_each V e mem p cs s) = Inl ex \<and> fst (connect_next V e mem p (cs ! k) t) = Inl ex))"
proof (induction cs arbitrary: s)
  case (Cons c cs)
  obtain r t where c: "connect_next V e mem p c s = (r, t)" by (cases "connect_next V e mem p c s")
  then have t: "sv_spawned t = sv_spawned s" using connect_next_spawned [of V e mem p c s] by simp
  show ?case
  proof (cases r)
    case (Inl ex)
    then show ?thesis using c t by (intro exI [of _ 0] exI [of _ "[]"] conjI disjI2 exI [of _ ex] exI [of _ s]) (simp_all add: bindS_def)
  next
    case (Inr q)
    let ?u = "t\<lparr>sv_spawned := sv_spawned t @ [q]\<rparr>"
    have run: "connect_each V e mem p (c # cs) s = connect_each V e mem p cs ?u"
      using c Inr by (simp add: bindS_def thenS_def spawn_def modifyS_def)
    from Cons.IH [of ?u] obtain k qs where "sv_spawned (snd (connect_each V e mem p cs ?u)) = sv_spawned ?u @ qs" "length qs = k"
      and "fst (connect_each V e mem p cs ?u) = Inr () \<and> k = length cs \<or>
        (\<exists>ex t. k < length cs \<and> fst (connect_each V e mem p cs ?u) = Inl ex \<and> fst (connect_next V e mem p (cs ! k) t) = Inl ex)" by blast
    then show ?thesis unfolding run using t
      by (intro exI [of _ "Suc k"] exI [of _ "q # qs"]) (auto simp: nth_Cons)
  qed
qed (simp add: returnS_def)

section \<open>A peer that hangs up\<close>

lemma accept_hung_up:
  assumes "length (cn_in c) < 30"
  shows "accept_next V e mem p c s = (Inr None, s)"
  using assms
  by (simp add: accept_next_def accept_def se_defs recv_qp_def async_read_def qp_header_kSerializedSize_def split: if_splits)

text \<open>
  C35: A peer that connects and hangs up before it has sent its 30 bytes is skipped by the servers of the hello world and the cancellation
  example; those of the others, which do not look whether they got a queue pair, use a null one,
  whatever connections and RPC servers they had before.
\<close>

theorem peer_that_hangs_up:
  assumes "length (cn_in c) < 30" and "i < kQP"
  shows "helloworld_server V e mem p (c # cs) s = helloworld_server V e mem p cs s \<and>
    cancellation_server ends V e mem p (c # cs) s = cancellation_server ends V e mem p cs s \<and>
    (\<forall>m \<in> {rpc_accept_loop V e mem p (c # cs), latency_accept_loop V e mem p (c # cs), write_bw_server V e mem p i (c # cs), latency_raw_server ends V e mem p (c # cs), send_bw_accept V e mem p c}.
       m s = (Inl (Undefined_behaviour ''null queue pair''), s)) \<and>
    async_rpc_server V e mem p ((c, rbase, sbase) # rest) servers s = (Inl (Undefined_behaviour ''null queue pair''), s)"
  using assms by (simp add: bindS_def thenS_def accept_hung_up spawn_def throwS_def start_rpc_server_def send_bw_accept_def latency_accept_loop_def)

theorem peer_that_hangs_up_witness:
  "rpc_accept_loop quiet_verbs Little blank_qp sample_pd [fresh_conn [1, 2, 3]] \<lparr>sv_pollers = [], sv_world = fresh_world, sv_spawned = []\<rparr> =
     (Inl (Undefined_behaviour ''null queue pair''), \<lparr>sv_pollers = [], sv_world = fresh_world, sv_spawned = []\<rparr>)"
proof -
  have "length (cn_in (fresh_conn [1, 2, 3])) < 30" by (simp add: fresh_conn_def)
  moreover have "0 < kQP" by (simp add: kQP_def)
  ultimately show ?thesis using peer_that_hangs_up by blast
qed

section \<open>Ports\<close>

lemma digit_char_code: "d < 10 \<Longrightarrow> of_char (digit_char d) = 48 + d"
  by (simp add: digit_char_def)

lemma dec_nat_digits: "dec_nat n \<noteq> [] \<and> (\<forall>c \<in> set (dec_nat n). is_digit c)"
proof (induction n rule: dec_nat.induct)
  case (1 n)
  show ?case
  proof (cases "n < 10")
    case True
    then show ?thesis by (subst (1 2) dec_nat.simps) (simp add: is_digit_def digit_char_code)
  next
    case False
    then have "dec_nat n = dec_nat (n div 10) @ [digit_char (n mod 10)]" by (subst dec_nat.simps) simp
    then show ?thesis using 1 [OF False] by (simp add: is_digit_def digit_char_code)
  qed
qed

lemma digits_value_dec: "digits_value (dec_nat n) = n"
proof (induction n rule: dec_nat.induct)
  case (1 n)
  show ?case
  proof (cases "n < 10")
    case True
    then show ?thesis by (subst dec_nat.simps) (simp add: digits_value_def digit_char_code)
  next
    case False
    then have "digits_value (dec_nat (n div 10)) = n div 10" by (rule 1)
    then show ?thesis using False by (subst dec_nat.simps) (simp add: digits_value_def digit_char_code)
  qed
qed

lemma stoi_dec:
  assumes "n < 2 ^ 31"
  shows "stoi (dec_nat n) = Inr (int n)"
proof -
  obtain c r where d: "dec_nat n = c # r" and c: "is_digit c" using dec_nat_digits [of n] by (cases "dec_nat n") auto
  have blank: "\<not> is_blank c" using c by (auto simp: is_digit_def is_blank_def)
  have signs: "c \<noteq> CHR ''-''" "c \<noteq> CHR ''+''" using c by (auto simp: is_digit_def)
  have "takeWhile is_digit (dec_nat n) = dec_nat n" using dec_nat_digits [of n] by (simp add: takeWhile_eq_all_conv)
  then show ?thesis using assms blank signs digits_value_dec [of n] by (simp add: stoi_def Let_def fits_def d)
qed

lemma port_wraps: "(word_of_int (int (n mod 65536)) :: u16) = word_of_int (int n)"
  by (rule word_uint_eqI) (simp only: uint_word_of_int, simp add: zmod_int)

lemma on_port_wraps:
  assumes "n < 2 ^ 31"
  shows "on_port m (dec_nat n) = on_port m (dec_nat (n mod 65536))"
proof -
  have "n mod 65536 < 65536" by simp
  also have "(65536 :: nat) \<le> 2 ^ 31" by simp
  finally have "stoi (dec_nat (n mod 65536)) = Inr (int (n mod 65536))" by (rule stoi_dec)
  then show ?thesis using port_wraps [of n] by (simp add: on_port_def stoi_dec [OF assms] liftS_def bindS_def fun_eq_iff)
qed

text \<open>
  The ports on the command lines are taken modulo 65536: a server or client that is told a larger number uses another
  port, without a word.
\<close>

theorem port_argument_wraps:
  assumes "n < 2 ^ 31"
  shows "\<forall>main \<in> {helloworld_main, cancellation_main, rpc_main, latency_main, latency_raw_main, send_bw_raw_main, write_bw_main}.
     main V mem server client [a, dec_nat n] = main V mem server client [a, dec_nat (n mod 65536)] \<and>
     main V mem server client [a, host, dec_nat n] = main V mem server client [a, host, dec_nat (n mod 65536)]"
  using on_port_wraps [OF assms] by (simp add: mains)

theorem port_argument_wraps_witness:
  "rpc_main quiet_verbs blank_device (\<lambda>p port. returnS ()) (\<lambda>p host port. returnS ()) [''rpc'', dec_nat 70000] =
   rpc_main quiet_verbs blank_device (\<lambda>p port. returnS ()) (\<lambda>p host port. returnS ()) [''rpc'', dec_nat 4464]"
proof -
  have "(70000 :: nat) < 2 ^ 31" by simp
  from port_argument_wraps [OF this] show ?thesis by simp
qed

end
