(* ===== verification/Send_Bandwidth.thy ===== *)
theory Send_Bandwidth
  imports Rpc_Wire
begin

text \<open>
  \<^verbatim>\<open>examples/send_bw_raw.cc\<close>: four workers send as fast as they can over one queue pair, and 32 workers of the server receive, each into a slice of
  its own of one pool, while another thread reads and resets the counters. The workers of either side are started one after the other, and those
  that run may go on meanwhile. A message arrives in pieces, the oldest one in the oldest receive; its sender learns of it later, in any order. A failed request
  ends its worker with an exception; a failed send may have arrived.
\<close>

section \<open>Workers and queues\<close>

definition sbw_kSendCount :: nat where "sbw_kSendCount = 1024 * 1024 * 1024"

definition sbw_kBatchSize :: nat where "sbw_kBatchSize = 10000"

definition kConcurrency :: nat where "kConcurrency = 4"

definition kRecvDepth :: nat where "kRecvDepth = 32"

definition kMsgSize :: size_t where "kMsgSize = 2 * 1024 * 1024"

text \<open>\<open>req_vec\<close>, what every send carries.\<close>

definition req_vec :: bytes where "req_vec = replicate (unat kMsgSize) 0x01"

text \<open>A send worker has not started, is in its \<open>i\<close>th send, whose message has not or has arrived, has completed it, returned, or was left by the
  exception of that send, with the message arrived or not. A server
  worker has not started, waits in its receive, was resumed, has counted the message but not its bytes, or was left by an exception.\<close>

datatype send_pc = S_new | S_sending nat | S_arrived nat | S_sent nat | S_returned | S_failed nat bool

datatype recv_pc = R_new | R_waiting | R_resumed | R_counted | R_failed

text \<open>\<open>sb_posted\<close> and \<open>sb_receives\<close> are the queues of the queue pair: the workers whose requests were posted, oldest first.
  \<open>sb_progress\<close> is how much of the oldest send is in the oldest receive. \<open>sb_reporter\<close> is the count the reporter has taken, before it takes the bytes; \<open>sb_reports\<close> are its reports.\<close>

record send_bw =
  sb_senders :: "send_pc list"
  sb_workers :: "recv_pc list"
  sb_posted :: "nat list"
  sb_receives :: "nat list"
  sb_progress :: nat
  sb_base :: ptr
  sb_pool :: bytes
  sb_mr :: local_mr
  sb_total_completed :: size_t
  sb_total_bytes :: size_t
  sb_reporter :: "size_t option"
  sb_reports :: "(size_t \<times> size_t) list"
  sb_batches :: "(nat \<times> nat) list"

text \<open>No worker has been started; \<open>mr\<close> is the region of the whole pool.\<close>

definition send_bw_start :: "send_bw \<Rightarrow> bool" where
  "send_bw_start s \<longleftrightarrow> sb_senders s = replicate kConcurrency S_new \<and> sb_workers s = replicate kRecvDepth R_new \<and>
     sb_posted s = [] \<and> sb_receives s = [] \<and> sb_progress s = 0 \<and> sb_pool s = replicate (kRecvDepth * unat kMsgSize) 0 \<and>
     (\<exists>mr. lmr_mr (sb_mr s) = Some mr \<and> mr_addr mr = sb_base s \<and> mr_length mr = of_nat kRecvDepth * kMsgSize) \<and>
     sb_total_completed s = 0 \<and> sb_total_bytes s = 0 \<and> sb_reporter s = None \<and> sb_reports s = [] \<and> sb_batches s = []"

definition sbw_view :: "send_bw \<Rightarrow> nat \<Rightarrow> exn + mr_view" where
  "sbw_view s idx = mr_view_local (sb_mr s) (of_nat idx * kMsgSize) kMsgSize"

text \<open>After its \<open>i\<close>th send a worker reports a full batch, and posts the next send or returns.\<close>

definition send_worker_next :: "nat \<Rightarrow> nat \<Rightarrow> send_bw \<Rightarrow> send_bw" where
  "send_worker_next w i s =
     (let s' = s\<lparr>sb_batches := sb_batches s @ (if 0 < i \<and> i mod sbw_kBatchSize = 0 then [(w, i)] else [])\<rparr>
      in if Suc i < sbw_kSendCount then s'\<lparr>sb_senders := (sb_senders s)[w := S_sending (Suc i)], sb_posted := sb_posted s @ [w]\<rparr>
         else s'\<lparr>sb_senders := (sb_senders s)[w := S_returned]\<rparr>)"

text \<open>A resumed server worker increments the two counters one after the other, and posts its next receive.\<close>

definition server_worker_next :: "nat \<Rightarrow> send_bw \<Rightarrow> send_bw" where
  "server_worker_next r s = (if sb_workers s ! r = R_resumed
     then s\<lparr>sb_total_completed := sb_total_completed s + 1, sb_workers := (sb_workers s)[r := R_counted]\<rparr>
     else s\<lparr>sb_total_bytes := sb_total_bytes s + kMsgSize, sb_workers := (sb_workers s)[r := R_waiting], sb_receives := sb_receives s @ [r]\<rparr>)"

text \<open>One of the two accesses of the reporter thread; the rates it computes of them are left out.\<close>

definition reporter_next :: "send_bw \<Rightarrow> send_bw" where
  "reporter_next s = (case sb_reporter s of
     None \<Rightarrow> s\<lparr>sb_reporter := Some (sb_total_completed s), sb_total_completed := 0\<rparr>
   | Some diff_count \<Rightarrow> s\<lparr>sb_reporter := None, sb_reports := sb_reports s @ [(diff_count, sb_total_bytes s)], sb_total_bytes := 0\<rparr>)"

text \<open>\<open>when_all\<close> starts the tasks it is given in order; each runs to its first request.\<close>

definition send_worker_start :: "nat \<Rightarrow> send_bw \<Rightarrow> send_bw" where
  "send_worker_start w s = s\<lparr>sb_senders := (sb_senders s)[w := S_sending 0], sb_posted := sb_posted s @ [w]\<rparr>"

definition server_worker_start :: "nat \<Rightarrow> send_bw \<Rightarrow> send_bw" where
  "server_worker_start r s = s\<lparr>sb_workers := (sb_workers s)[r := R_waiting], sb_receives := sb_receives s @ [r]\<rparr>"

text \<open>The next \<open>n\<close> bytes of the oldest send arrive in the oldest receive; then the whole message has.\<close>

definition packet_arrived :: "nat \<Rightarrow> mr_view \<Rightarrow> send_bw \<Rightarrow> send_bw" where
  "packet_arrived n v s = s\<lparr>sb_progress := sb_progress s + n,
     sb_pool := write_at (unat (view_addr v - sb_base s) + sb_progress s) (bytes_at (sb_progress s) n req_vec) (sb_pool s)\<rparr>"

definition message_arrived :: "nat \<Rightarrow> nat \<Rightarrow> nat \<Rightarrow> send_bw \<Rightarrow> send_bw" where
  "message_arrived w i r s = s\<lparr>sb_posted := tl (sb_posted s), sb_receives := tl (sb_receives s), sb_progress := 0,
     sb_senders := (sb_senders s)[w := S_arrived i], sb_workers := (sb_workers s)[r := R_resumed]\<rparr>"

inductive send_bw_step :: "send_bw \<Rightarrow> send_bw \<Rightarrow> bool" where
  start_sender: "w < length (sb_senders s) \<Longrightarrow> sb_senders s ! w = S_new \<Longrightarrow> S_new \<notin> set (take w (sb_senders s)) \<Longrightarrow>
     send_bw_step s (send_worker_start w s)"
| start_receiver: "r < length (sb_workers s) \<Longrightarrow> sb_workers s ! r = R_new \<Longrightarrow> R_new \<notin> set (take r (sb_workers s)) \<Longrightarrow>
     send_bw_step s (server_worker_start r s)"
| packet: "sb_posted s = w # ws \<Longrightarrow> sb_receives s = r # rs \<Longrightarrow> sbw_view s r = Inr v \<Longrightarrow> length req_vec \<le> unat (view_length v) \<Longrightarrow>
     0 < n \<Longrightarrow> sb_progress s + n \<le> length req_vec \<Longrightarrow> send_bw_step s (packet_arrived n v s)"
| arrive: "sb_posted s = w # ws \<Longrightarrow> sb_receives s = r # rs \<Longrightarrow> sb_senders s ! w = S_sending i \<Longrightarrow> sb_progress s = length req_vec \<Longrightarrow>
     send_bw_step s (message_arrived w i r s)"
| complete: "w < length (sb_senders s) \<Longrightarrow> sb_senders s ! w = S_arrived i \<Longrightarrow>
     send_bw_step s (s\<lparr>sb_senders := (sb_senders s)[w := S_sent i]\<rparr>)"
| sender: "w < length (sb_senders s) \<Longrightarrow> sb_senders s ! w = S_sent i \<Longrightarrow> send_bw_step s (send_worker_next w i s)"
| receiver: "r < length (sb_workers s) \<Longrightarrow> sb_workers s ! r \<in> {R_resumed, R_counted} \<Longrightarrow> send_bw_step s (server_worker_next r s)"

text \<open>
  Any posted request may fail, at its post or later, and a send also after its message has arrived; the slice of a receive that fails may hold anything.
  If the message that is arriving or its receive is lost, what has arrived of it is worth nothing.
\<close>

definition without_request :: "nat \<Rightarrow> nat list \<Rightarrow> nat list" where
  "without_request w q = filter (\<lambda>x. x \<noteq> w) q"

inductive send_bw_fault :: "send_bw \<Rightarrow> send_bw \<Rightarrow> bool" where
  send_lost: "w \<in> set (sb_posted s) \<Longrightarrow> sb_senders s ! w = S_sending i \<Longrightarrow>
     send_bw_fault s (s\<lparr>sb_posted := without_request w (sb_posted s), sb_senders := (sb_senders s)[w := S_failed i False],
       sb_progress := (if hd (sb_posted s) = w then 0 else sb_progress s)\<rparr>)"
| send_late: "w < length (sb_senders s) \<Longrightarrow> sb_senders s ! w = S_arrived i \<Longrightarrow>
     send_bw_fault s (s\<lparr>sb_senders := (sb_senders s)[w := S_failed i True]\<rparr>)"
| recv_fails: "r \<in> set (sb_receives s) \<Longrightarrow> length junk \<le> unat kMsgSize \<Longrightarrow>
     send_bw_fault s (s\<lparr>sb_receives := without_request r (sb_receives s), sb_workers := (sb_workers s)[r := R_failed],
       sb_progress := (if hd (sb_receives s) = r then 0 else sb_progress s),
       sb_pool := pool_patch (unat kMsgSize) r 0 junk (sb_pool s)\<rparr>)"

text \<open>A run with \<open>n\<close> steps of workers and of arriving messages, \<open>f\<close> faults and any number of steps of the reporter.\<close>

inductive send_bw_run :: "nat \<Rightarrow> nat \<Rightarrow> send_bw \<Rightarrow> send_bw \<Rightarrow> bool" where
  run_start: "send_bw_run 0 0 s s"
| run_worker: "send_bw_run n f s t \<Longrightarrow> send_bw_step t u \<Longrightarrow> send_bw_run (Suc n) f s u"
| run_fault: "send_bw_run n f s t \<Longrightarrow> send_bw_fault t u \<Longrightarrow> send_bw_run n (Suc f) s u"
| run_reporter: "send_bw_run n f s t \<Longrightarrow> send_bw_run n f s (reporter_next t)"

section \<open>Queues of waiting workers\<close>

text \<open>A queue holds the workers whose state satisfies \<open>P\<close>, each once.\<close>

definition posted_for :: "('a \<Rightarrow> bool) \<Rightarrow> 'a list \<Rightarrow> nat list \<Rightarrow> bool" where
  "posted_for P xs q \<longleftrightarrow> distinct q \<and> set q = {i. i < length xs \<and> P (xs ! i)}"

lemma updated_indices:
  "i < length xs \<Longrightarrow> {j. j < length (xs[i := x]) \<and> P (xs[i := x] ! j)} =
     (if P x then insert i {j. j < length xs \<and> P (xs ! j)} else {j. j < length xs \<and> P (xs ! j)} - {i})"
  by (auto simp: nth_list_update)

lemma posted_pop:
  assumes "posted_for P xs (i # q)"
  shows "i < length xs" and "P (xs ! i)" and "\<not> P x \<Longrightarrow> posted_for P (xs[i := x]) q"
proof -
  from assms have eq: "insert i (set q) = {j. j < length xs \<and> P (xs ! j)}" and d: "i \<notin> set q" "distinct q"
    by (simp_all add: posted_for_def)
  then show i: "i < length xs" and "P (xs ! i)" by blast+
  show "posted_for P (xs[i := x]) q" if "\<not> P x"
    unfolding posted_for_def updated_indices [OF i] eq [symmetric] using d that by simp
qed

lemma posted_remove:
  assumes "posted_for P xs q" and "i \<in> set q"
  shows "i < length xs" and "P (xs ! i)" and "\<not> P x \<Longrightarrow> posted_for P (xs[i := x]) (without_request i q)"
proof -
  from assms have eq: "set q = {j. j < length xs \<and> P (xs ! j)}" and d: "distinct q" by (simp_all add: posted_for_def)
  then show i: "i < length xs" and "P (xs ! i)" using assms(2) by blast+
  show "posted_for P (xs[i := x]) (without_request i q)" if "\<not> P x"
    unfolding posted_for_def updated_indices [OF i] eq [symmetric] using d that by (auto simp: without_request_def)
qed

lemma posted_same: "posted_for P xs q \<Longrightarrow> i < length xs \<Longrightarrow> \<not> P (xs ! i) \<Longrightarrow> \<not> P x \<Longrightarrow> posted_for P (xs[i := x]) q"
  by (auto simp: posted_for_def nth_list_update)

lemma posted_push:
  assumes "posted_for P xs q" and "i < length xs" and "\<not> P (xs ! i)"
  shows "posted_for P (xs[i := x]) (if P x then q @ [i] else q)"
proof -
  from assms(1) have eq: "set q = {j. j < length xs \<and> P (xs ! j)}" and "distinct q" by (simp_all add: posted_for_def)
  moreover from eq assms(3) have "i \<notin> set q" by simp
  ultimately show ?thesis unfolding posted_for_def updated_indices [OF assms(2)] eq [symmetric] by simp
qed

section \<open>The invariant\<close>

fun is_sending :: "send_pc \<Rightarrow> bool" where
  "is_sending (S_sending i) = True"
| "is_sending pc = False"

text \<open>The sends that completed, and the messages that arrived.\<close>

fun sent :: "send_pc \<Rightarrow> nat" where
  "sent S_new = 0"
| "sent (S_sending i) = i"
| "sent (S_arrived i) = i"
| "sent (S_sent i) = Suc i"
| "sent S_returned = sbw_kSendCount"
| "sent (S_failed i late) = i"

fun delivered :: "send_pc \<Rightarrow> nat" where
  "delivered (S_arrived i) = Suc i"
| "delivered (S_failed i late) = (if late then Suc i else i)"
| "delivered pc = sent pc"

fun in_range :: "send_pc \<Rightarrow> bool" where
  "in_range S_new = True"
| "in_range S_returned = True"
| "in_range (S_sending i) = (i < sbw_kSendCount)"
| "in_range (S_arrived i) = (i < sbw_kSendCount)"
| "in_range (S_sent i) = (i < sbw_kSendCount)"
| "in_range (S_failed i late) = (i < sbw_kSendCount)"

text \<open>What is received and not counted yet; steps of a server worker until it waits again.\<close>

fun uncounted :: "recv_pc \<Rightarrow> nat" where
  "uncounted R_resumed = 1"
| "uncounted pc = 0"

fun unsummed :: "recv_pc \<Rightarrow> nat" where
  "unsummed R_resumed = 1"
| "unsummed R_counted = 1"
| "unsummed pc = 0"

definition total :: "('a \<Rightarrow> nat) \<Rightarrow> 'a list \<Rightarrow> nat" where
  "total f xs = sum_list (map f xs)"

text \<open>All that was counted, whether reported or not.\<close>

definition counted :: "send_bw \<Rightarrow> nat" where
  "counted s = unat (sb_total_completed s) + (case sb_reporter s of None \<Rightarrow> 0 | Some d \<Rightarrow> unat d) + total (unat \<circ> fst) (sb_reports s)"

definition summed :: "send_bw \<Rightarrow> nat" where
  "summed s = unat (sb_total_bytes s) + total (unat \<circ> snd) (sb_reports s)"

definition counts_ok :: "send_pc list \<Rightarrow> recv_pc list \<Rightarrow> nat \<Rightarrow> nat \<Rightarrow> bool" where
  "counts_ok ss rs c b \<longleftrightarrow> list_all in_range ss \<and> c + total uncounted rs = total delivered ss \<and>
     b + unat kMsgSize * total unsummed rs = unat kMsgSize * total delivered ss"

text \<open>A worker that was resumed finds the whole message in its slice, until it has counted it.\<close>

definition slots_ok :: "recv_pc list \<Rightarrow> bytes \<Rightarrow> bool" where
  "slots_ok rs pool \<longleftrightarrow> length pool = kRecvDepth * unat kMsgSize \<and>
     (\<forall>r < kRecvDepth. rs ! r \<in> {R_resumed, R_counted} \<longrightarrow> pool_part (unat kMsgSize) r pool = req_vec)"

text \<open>What has arrived of the oldest send is at the beginning of the slice of the oldest receive.\<close>

definition progress_ok :: "nat list \<Rightarrow> nat list \<Rightarrow> nat \<Rightarrow> bytes \<Rightarrow> bool" where
  "progress_ok posted receives n pool \<longleftrightarrow> n \<le> unat kMsgSize \<and>
     (0 < n \<longrightarrow> posted \<noteq> [] \<and> receives \<noteq> [] \<and> take n (pool_part (unat kMsgSize) (hd receives) pool) = take n req_vec)"

definition region_ok :: "send_bw \<Rightarrow> bool" where
  "region_ok s \<longleftrightarrow> (\<exists>mr. lmr_mr (sb_mr s) = Some mr \<and> mr_addr mr = sb_base s \<and> mr_length mr = of_nat kRecvDepth * kMsgSize)"

definition send_bw_inv :: "send_bw \<Rightarrow> bool" where
  "send_bw_inv s \<longleftrightarrow> length (sb_senders s) = kConcurrency \<and> length (sb_workers s) = kRecvDepth \<and>
     posted_for is_sending (sb_senders s) (sb_posted s) \<and> posted_for (\<lambda>pc. pc = R_waiting) (sb_workers s) (sb_receives s) \<and>
     counts_ok (sb_senders s) (sb_workers s) (counted s) (summed s) \<and> slots_ok (sb_workers s) (sb_pool s) \<and>
     progress_ok (sb_posted s) (sb_receives s) (sb_progress s) (sb_pool s) \<and> region_ok s"

text \<open>
  Steps still to come: for every send at most one for each byte, its arrival and its completion, one of the sender and two of the receiver. A receiver
  keeps one for each byte in reserve, for the message that is lost when its receive fails.
\<close>

abbreviation per_send :: nat where "per_send \<equiv> unat kMsgSize + 5"

fun send_steps :: "send_pc \<Rightarrow> nat" where
  "send_steps S_new = Suc (per_send * sbw_kSendCount)"
| "send_steps (S_sending i) = per_send * (sbw_kSendCount - i)"
| "send_steps (S_arrived i) = per_send * (sbw_kSendCount - Suc i) + 2"
| "send_steps (S_sent i) = per_send * (sbw_kSendCount - Suc i) + 1"
| "send_steps pc = 0"

fun recv_steps :: "recv_pc \<Rightarrow> nat" where
  "recv_steps R_new = unat kMsgSize + 1"
| "recv_steps R_waiting = unat kMsgSize"
| "recv_steps R_resumed = unat kMsgSize + 2"
| "recv_steps R_counted = unat kMsgSize + 1"
| "recv_steps R_failed = 0"

definition steps_left :: "send_bw \<Rightarrow> nat" where
  "steps_left s = total send_steps (sb_senders s) + total recv_steps (sb_workers s)"

lemma next_send: "i < sbw_kSendCount \<Longrightarrow> per_send * (sbw_kSendCount - i) = per_send + per_send * (sbw_kSendCount - Suc i)"
  by (simp add: Suc_diff_Suc [symmetric])

lemma sum_update:
  fixes f :: "'a \<Rightarrow> nat"
  shows "w < length xs \<Longrightarrow> total f (xs[w := x]) + f (xs ! w) = total f xs + f x"
  unfolding total_def
proof (induction xs arbitrary: w)
  case (Cons a xs)
  then show ?case by (cases w) (simp_all add: ac_simps)
qed simp

lemma total_replicate [simp]: "total f (replicate n x) = n * f x"
  by (simp add: total_def sum_list_replicate)

lemma total_append [simp]: "total f (xs @ ys) = total f xs + total f ys" and total_single [simp]: "total f [x] = f x"
  and total_Nil [simp]: "total f [] = 0"
  by (simp_all add: total_def)

text \<open>All counts stay below \<open>2 ^ 53\<close>, so no counter wraps.\<close>

lemma sent_bound: "list_all in_range xs \<Longrightarrow> total delivered xs \<le> length xs * sbw_kSendCount"
proof (induction xs)
  case (Cons x xs)
  then have "delivered x \<le> sbw_kSendCount" by (cases x) simp_all
  then show ?case using Cons by (simp add: total_def)
qed (simp add: total_def)

lemma req_vec_length [simp]: "length req_vec = unat kMsgSize"
  by (simp add: req_vec_def)

lemma pool_size: "kRecvDepth * unat kMsgSize < 2 ^ 64" "unat (of_nat kRecvDepth * kMsgSize) = unat kMsgSize * kRecvDepth"
  by (simp_all add: kRecvDepth_def kMsgSize_def)

lemma worker_slice:
  assumes "region_ok s" and "r < kRecvDepth"
  shows "\<exists>v. sbw_view s r = Inr v \<and> unat (view_length v) = unat kMsgSize \<and>
     unat (view_addr v - sb_base s) = r * unat kMsgSize"
proof -
  from assms(1) obtain mr where mr: "lmr_mr (sb_mr s) = Some mr" "mr_addr mr = sb_base s" "mr_length mr = of_nat kRecvDepth * kMsgSize"
    unfolding region_ok_def by blast
  have r: "unat (of_nat r :: u64) = r" using assms(2) by (simp add: unat_of_nat kRecvDepth_def)
  have "r * unat kMsgSize < kRecvDepth * unat kMsgSize" using assms(2) by (simp add: kMsgSize_def)
  then have "unat (of_nat r :: u64) * unat kMsgSize < 2 ^ 64" using pool_size(1) unfolding r by linarith
  then have off: "unat (of_nat r * kMsgSize) = r * unat kMsgSize" using unat_scale [of "of_nat r" "unat kMsgSize"] r by simp
  have "unat (mr_length mr) = unat kMsgSize * kRecvDepth" by (simp only: mr(3) pool_size(2))
  from slice_view [OF mr(1,2) this off assms(2), of kMsgSize]
  have "sbw_view s r = Inr \<lparr>view_addr = sb_base s + of_nat r * kMsgSize, view_length = kMsgSize, view_key = mr_lkey mr\<rparr>"
    by (simp add: sbw_view_def)
  then show ?thesis using off by simp
qed

lemma pool_slot: "length pool = kRecvDepth * unat kMsgSize \<Longrightarrow> r < kRecvDepth \<Longrightarrow> pool_within (unat kMsgSize) r pool"
  unfolding pool_within_def by (simp only:) (rule mult_le_mono1, simp)

lemma start_inv: "send_bw_start s \<Longrightarrow> send_bw_inv s"
  unfolding send_bw_start_def send_bw_inv_def counts_ok_def slots_ok_def region_ok_def posted_for_def progress_ok_def
  by (auto simp: counted_def summed_def list_all_length)

lemma in_range_update: "list_all in_range xs \<Longrightarrow> in_range x \<Longrightarrow> list_all in_range (xs[w := x])"
  unfolding list_all_iff using set_update_subset_insert [of xs w x] by blast

section \<open>Slices\<close>

text \<open>Filling the slice of one worker leaves those of the others alone.\<close>

lemma progress_more: "progress_ok p q n pool \<Longrightarrow> progress_ok (p @ p') (q @ q') n pool"
  by (auto simp: progress_ok_def)

lemma progress_none [simp]: "progress_ok p q 0 pool"
  by (simp add: progress_ok_def)

lemma pool_ok: "slots_ok rs pool \<Longrightarrow> j < kRecvDepth \<Longrightarrow> pool_within (unat kMsgSize) j pool"
  by (rule pool_slot) (simp_all add: slots_ok_def)

text \<open>Writing into the slice of a worker that has no message there leaves the others alone.\<close>

lemma slots_patch:
  assumes "slots_ok rs pool" and "r < kRecvDepth" and "length rs = kRecvDepth" and "d + length bs \<le> unat kMsgSize"
    and "pc \<notin> {R_resumed, R_counted}"
  shows "slots_ok (rs[r := pc]) (pool_patch (unat kMsgSize) r d bs pool)"
proof -
  note within = pool_ok [OF assms(1)]
  have "length (pool_patch (unat kMsgSize) r d bs pool) = kRecvDepth * unat kMsgSize"
    using within [OF assms(2)] assms(1,4) by (simp add: pool_patch_def pool_within_def slots_ok_def)
  moreover have "pool_part (unat kMsgSize) j (pool_patch (unat kMsgSize) r d bs pool) = req_vec"
    if "j < kRecvDepth" "rs[r := pc] ! j \<in> {R_resumed, R_counted}" for j
  proof -
    have "j \<noteq> r" using that assms(2,3,5) by auto
    then show ?thesis
      using that assms(1,4) pool.part_other [OF within [OF assms(2)] within [OF that(1)], of d bs] by (auto simp: slots_ok_def)
  qed
  ultimately show ?thesis unfolding slots_ok_def by blast
qed

lemma slots_next:
  assumes "slots_ok rs pool" and "r < length rs" and "pc \<in> {R_resumed, R_counted} \<Longrightarrow> pool_part (unat kMsgSize) r pool = req_vec"
  shows "slots_ok (rs[r := pc]) pool"
  using assms by (auto simp: slots_ok_def nth_list_update)

section \<open>Steps\<close>

lemma invE:
  assumes "send_bw_inv s"
  obtains "length (sb_senders s) = kConcurrency" and "length (sb_workers s) = kRecvDepth"
    and "posted_for is_sending (sb_senders s) (sb_posted s)" and "posted_for (\<lambda>pc. pc = R_waiting) (sb_workers s) (sb_receives s)"
    and "counts_ok (sb_senders s) (sb_workers s) (counted s) (summed s)" and "slots_ok (sb_workers s) (sb_pool s)"
    and "progress_ok (sb_posted s) (sb_receives s) (sb_progress s) (sb_pool s)" and "region_ok s"
  using assms unfolding send_bw_inv_def by blast

lemma sending_range:
  assumes "counts_ok ss rs c b" and "w < length ss"
  shows "in_range (ss ! w)"
  using assms by (simp add: counts_ok_def list_all_length)

lemma step_start_sender:
  assumes inv: "send_bw_inv s" and w: "w < length (sb_senders s)" "sb_senders s ! w = S_new"
  shows "send_bw_inv (send_worker_start w s) \<and> Suc (steps_left (send_worker_start w s)) = steps_left s"
  using inv
proof (rule invE)
  assume i: "length (sb_senders s) = kConcurrency" "length (sb_workers s) = kRecvDepth"
    "posted_for is_sending (sb_senders s) (sb_posted s)" "posted_for (\<lambda>pc. pc = R_waiting) (sb_workers s) (sb_receives s)"
    "counts_ok (sb_senders s) (sb_workers s) (counted s) (summed s)" "slots_ok (sb_workers s) (sb_pool s)"
    "progress_ok (sb_posted s) (sb_receives s) (sb_progress s) (sb_pool s)" "region_ok s"
  have "counts_ok ((sb_senders s)[w := S_sending 0]) (sb_workers s) (counted s) (summed s)"
    using i(5) w(2) sum_update [OF w(1), of delivered "S_sending 0"] by (simp add: counts_ok_def in_range_update sbw_kSendCount_def)
  moreover have "posted_for is_sending ((sb_senders s)[w := S_sending 0]) (sb_posted s @ [w])"
    using posted_push [OF i(3) w(1), of "S_sending 0"] w(2) by simp
  moreover have "Suc (total send_steps ((sb_senders s)[w := S_sending 0])) = total send_steps (sb_senders s)"
    using w(2) sum_update [OF w(1), of send_steps "S_sending 0"] by simp
  ultimately show ?thesis using i progress_more [OF i(7), of "[w]" "[]"]
    by (simp add: send_bw_inv_def send_worker_start_def counted_def summed_def region_ok_def steps_left_def)
qed

lemma step_start_receiver:
  assumes inv: "send_bw_inv s" and r: "r < length (sb_workers s)" "sb_workers s ! r = R_new"
  shows "send_bw_inv (server_worker_start r s) \<and> Suc (steps_left (server_worker_start r s)) = steps_left s"
  using inv
proof (rule invE)
  assume i: "length (sb_senders s) = kConcurrency" "length (sb_workers s) = kRecvDepth"
    "posted_for is_sending (sb_senders s) (sb_posted s)" "posted_for (\<lambda>pc. pc = R_waiting) (sb_workers s) (sb_receives s)"
    "counts_ok (sb_senders s) (sb_workers s) (counted s) (summed s)" "slots_ok (sb_workers s) (sb_pool s)"
    "progress_ok (sb_posted s) (sb_receives s) (sb_progress s) (sb_pool s)" "region_ok s"
  note up = sum_update [OF r(1), of uncounted R_waiting] sum_update [OF r(1), of unsummed R_waiting] sum_update [OF r(1), of recv_steps R_waiting]
  have "posted_for (\<lambda>pc. pc = R_waiting) ((sb_workers s)[r := R_waiting]) (sb_receives s @ [r])"
    using posted_push [OF i(4) r(1), of R_waiting] r(2) by simp
  moreover have "slots_ok ((sb_workers s)[r := R_waiting]) (sb_pool s)" by (rule slots_next [OF i(6) r(1)]) simp
  ultimately show ?thesis using i up r(2) progress_more [OF i(7), of "[]" "[r]"]
    by (simp add: send_bw_inv_def server_worker_start_def counted_def summed_def region_ok_def steps_left_def counts_ok_def)
qed

lemma take_written:
  assumes "p + length bs \<le> length mem" and "0 < p \<Longrightarrow> take p mem = take p x" and "bs = bytes_at p n x" and "length bs = n" and "p + n \<le> length x"
  shows "take (p + n) (write_at p bs mem) = take (p + n) x"
proof -
  have "take p mem = take p x" using assms(2) by (cases p) simp_all
  then show ?thesis using assms by (simp add: write_at_def take_add bytes_at_def)
qed

lemma step_packet:
  assumes inv: "send_bw_inv s" and q: "sb_posted s = w # ws" "sb_receives s = r # rs" and v: "sbw_view s r = Inr v"
    and n: "sb_progress s + n \<le> length req_vec"
  shows "send_bw_inv (packet_arrived n v s) \<and> steps_left (packet_arrived n v s) = steps_left s"
  using inv
proof (rule invE)
  assume i: "length (sb_senders s) = kConcurrency" "length (sb_workers s) = kRecvDepth"
    "posted_for is_sending (sb_senders s) (sb_posted s)" "posted_for (\<lambda>pc. pc = R_waiting) (sb_workers s) (sb_receives s)"
    "counts_ok (sb_senders s) (sb_workers s) (counted s) (summed s)" "slots_ok (sb_workers s) (sb_pool s)"
    "progress_ok (sb_posted s) (sb_receives s) (sb_progress s) (sb_pool s)" "region_ok s"
  have r: "r < kRecvDepth" "sb_workers s ! r = R_waiting" using posted_pop(1,2) [of "\<lambda>pc. pc = R_waiting" "sb_workers s" r rs] i(2,4) q(2) by simp_all
  let ?p = "sb_progress s" and ?bs = "bytes_at (sb_progress s) n req_vec"
  have len: "length ?bs = n" using n by (simp add: bytes_at_def)
  have pool: "sb_pool (packet_arrived n v s) = pool_patch (unat kMsgSize) r ?p ?bs (sb_pool s)"
    using worker_slice [OF i(8) r(1)] v by (auto simp: packet_arrived_def pool_patch_def)
  have fit: "?p + length ?bs \<le> unat kMsgSize" using n len by simp
  have "slots_ok (sb_workers s) (pool_patch (unat kMsgSize) r ?p ?bs (sb_pool s))"
    using slots_patch [OF i(6) r(1) i(2) fit, of R_waiting] r(2) list_update_id [of "sb_workers s" r] by simp
  moreover have "take (?p + n) (pool_part (unat kMsgSize) r (pool_patch (unat kMsgSize) r ?p ?bs (sb_pool s))) = take (?p + n) req_vec"
    unfolding pool.part_patch [OF pool_ok [OF i(6) r(1)] fit]
    by (rule take_written [OF _ _ refl len]) (use n fit i(7) q pool.part_length [OF pool_ok [OF i(6) r(1)]] in \<open>simp_all add: progress_ok_def\<close>)
  then have "progress_ok (w # ws) (r # rs) (?p + n) (pool_patch (unat kMsgSize) r ?p ?bs (sb_pool s))"
    using n by (simp add: progress_ok_def)
  ultimately show ?thesis using i q pool
    by (simp add: send_bw_inv_def packet_arrived_def counted_def summed_def region_ok_def steps_left_def)
qed

lemma step_arrive:
  assumes inv: "send_bw_inv s" and q: "sb_posted s = w # ws" "sb_receives s = r # rs" and i: "sb_senders s ! w = S_sending i"
    and all: "sb_progress s = length req_vec"
  shows "send_bw_inv (message_arrived w i r s) \<and> steps_left s = steps_left (message_arrived w i r s) + Suc (unat kMsgSize)"
  using inv
proof (rule invE)
  assume a: "length (sb_senders s) = kConcurrency" "length (sb_workers s) = kRecvDepth"
    "posted_for is_sending (sb_senders s) (sb_posted s)" "posted_for (\<lambda>pc. pc = R_waiting) (sb_workers s) (sb_receives s)"
    "counts_ok (sb_senders s) (sb_workers s) (counted s) (summed s)" "slots_ok (sb_workers s) (sb_pool s)"
    "progress_ok (sb_posted s) (sb_receives s) (sb_progress s) (sb_pool s)" "region_ok s"
  have ps: "posted_for is_sending (sb_senders s) (w # ws)" and pr: "posted_for (\<lambda>pc. pc = R_waiting) (sb_workers s) (r # rs)"
    using a(3,4) q by simp_all
  note w = posted_pop(1) [OF ps] and r = posted_pop(1,2) [OF pr]
  have i': "i < sbw_kSendCount" using sending_range [OF a(5) w] i by simp
  have "0 < unat kMsgSize" by (simp add: kMsgSize_def)
  then have "take (unat kMsgSize) (pool_part (unat kMsgSize) r (sb_pool s)) = take (unat kMsgSize) req_vec"
    using a(7) all q by (simp add: progress_ok_def)
  then have "pool_part (unat kMsgSize) r (sb_pool s) = req_vec"
    using pool.part_length [OF pool_ok [OF a(6)], of r] r(1) a(2) by simp
  then have "slots_ok ((sb_workers s)[r := R_resumed]) (sb_pool s)" by (intro slots_next [OF a(6) r(1)])
  moreover have "counts_ok ((sb_senders s)[w := S_arrived i]) ((sb_workers s)[r := R_resumed]) (counted s) (summed s)"
    using a(5) i i' sum_update [OF w, of delivered "S_arrived i"] sum_update [OF r(1), of uncounted R_resumed] sum_update [OF r(1), of unsummed R_resumed] r(2)
    by (simp add: counts_ok_def in_range_update algebra_simps)
  moreover have "total send_steps (sb_senders s) = total send_steps ((sb_senders s)[w := S_arrived i]) + (unat kMsgSize + 3)"
    using i next_send [OF i'] sum_update [OF w, of send_steps "S_arrived i"] by simp
  moreover have "total recv_steps ((sb_workers s)[r := R_resumed]) = total recv_steps (sb_workers s) + 2"
    using r(2) sum_update [OF r(1), of recv_steps R_resumed] by simp
  ultimately show ?thesis
    using a posted_pop(3) [OF ps, of "S_arrived i"] posted_pop(3) [OF pr, of R_resumed]
    by (simp add: send_bw_inv_def message_arrived_def q counted_def summed_def region_ok_def steps_left_def)
qed

text \<open>A step of one sender that is not in the queue before and after it.\<close>

lemma sender_moves:
  assumes inv: "send_bw_inv s" and w: "w < length (sb_senders s)" "\<not> is_sending (sb_senders s ! w)" and x: "\<not> is_sending x" "in_range x"
    and same: "delivered x = delivered (sb_senders s ! w)" and steps: "send_steps (sb_senders s ! w) = m + send_steps x"
  shows "send_bw_inv (s\<lparr>sb_batches := B, sb_senders := (sb_senders s)[w := x]\<rparr>) \<and>
     steps_left s = m + steps_left (s\<lparr>sb_batches := B, sb_senders := (sb_senders s)[w := x]\<rparr>)"
  using inv
proof (rule invE)
  assume a: "length (sb_senders s) = kConcurrency" "length (sb_workers s) = kRecvDepth"
    "posted_for is_sending (sb_senders s) (sb_posted s)" "posted_for (\<lambda>pc. pc = R_waiting) (sb_workers s) (sb_receives s)"
    "counts_ok (sb_senders s) (sb_workers s) (counted s) (summed s)" "slots_ok (sb_workers s) (sb_pool s)"
    "progress_ok (sb_posted s) (sb_receives s) (sb_progress s) (sb_pool s)" "region_ok s"
  have "total delivered ((sb_senders s)[w := x]) = total delivered (sb_senders s)" using same sum_update [OF w(1), of delivered x] by simp
  then have "counts_ok ((sb_senders s)[w := x]) (sb_workers s) (counted s) (summed s)"
    using a(5) x(2) by (simp add: counts_ok_def in_range_update)
  moreover have "total send_steps (sb_senders s) = m + total send_steps ((sb_senders s)[w := x])"
    using steps sum_update [OF w(1), of send_steps x] by simp
  ultimately show ?thesis using a posted_same [OF a(3) w(1), of x] w(2) x(1)
    by (simp add: send_bw_inv_def counted_def summed_def region_ok_def steps_left_def)
qed

lemma step_complete:
  assumes inv: "send_bw_inv s" and w: "w < length (sb_senders s)" and i: "sb_senders s ! w = S_arrived i"
  shows "send_bw_inv (s\<lparr>sb_senders := (sb_senders s)[w := S_sent i]\<rparr>) \<and> steps_left s = Suc (steps_left (s\<lparr>sb_senders := (sb_senders s)[w := S_sent i]\<rparr>))"
proof -
  have "in_range (sb_senders s ! w)" using inv w by (auto simp: send_bw_inv_def intro: sending_range)
  with sender_moves [OF inv w, of "S_sent i" 1 "sb_batches s"] i show ?thesis by simp
qed

lemma step_sender:
  assumes inv: "send_bw_inv s" and w: "w < length (sb_senders s)" and i: "sb_senders s ! w = S_sent i"
  shows "send_bw_inv (send_worker_next w i s) \<and> steps_left s = Suc (steps_left (send_worker_next w i s))"
proof -
  have i': "i < sbw_kSendCount" using inv w i by (auto simp: send_bw_inv_def dest: sending_range)
  show ?thesis
  proof (cases "Suc i < sbw_kSendCount")
    case False
    then have last: "Suc i = sbw_kSendCount" using i' by simp
    then show ?thesis
      using sender_moves [OF inv w, of S_returned 1 "sb_batches s @ (if 0 < i \<and> i mod sbw_kBatchSize = 0 then [(w, i)] else [])"] i
      by (cases "0 < i \<and> i mod sbw_kBatchSize = 0") (auto simp: send_worker_next_def Let_def)
  next
    case True
    have ps: "posted_for is_sending (sb_senders s) (sb_posted s)" and cs: "counts_ok (sb_senders s) (sb_workers s) (counted s) (summed s)"
      and pg: "progress_ok (sb_posted s) (sb_receives s) (sb_progress s) (sb_pool s)"
      using inv unfolding send_bw_inv_def by blast+
    have "counts_ok ((sb_senders s)[w := S_sending (Suc i)]) (sb_workers s) (counted s) (summed s)"
      using cs i True sum_update [OF w, of delivered "S_sending (Suc i)"] by (simp add: counts_ok_def in_range_update)
    moreover have "total send_steps (sb_senders s) = Suc (total send_steps ((sb_senders s)[w := S_sending (Suc i)]))"
      using i sum_update [OF w, of send_steps "S_sending (Suc i)"] by simp
    moreover have "posted_for is_sending ((sb_senders s)[w := S_sending (Suc i)]) (sb_posted s @ [w])"
      using posted_push [OF ps w, of "S_sending (Suc i)"] i by simp
    ultimately show ?thesis using inv True progress_more [OF pg, of "[w]" "[]"]
      by (simp add: send_bw_inv_def send_worker_next_def Let_def steps_left_def counted_def summed_def region_ok_def)
  qed
qed

lemma counters_fit:
  assumes "send_bw_inv s"
  shows "0 < total uncounted (sb_workers s) \<Longrightarrow> unat (sb_total_completed s + 1) = Suc (unat (sb_total_completed s))"
    and "0 < total unsummed (sb_workers s) \<Longrightarrow> unat (sb_total_bytes s + kMsgSize) = unat (sb_total_bytes s) + unat kMsgSize"
proof -
  have cs: "counts_ok (sb_senders s) (sb_workers s) (counted s) (summed s)" and len: "length (sb_senders s) = kConcurrency"
    using assms unfolding send_bw_inv_def by blast+
  then have few: "total delivered (sb_senders s) \<le> 4294967296"
    using sent_bound [of "sb_senders s"] by (simp add: counts_ok_def kConcurrency_def sbw_kSendCount_def)
  show "unat (sb_total_completed s + 1) = Suc (unat (sb_total_completed s))" if "0 < total uncounted (sb_workers s)"
    using cs few that by (simp add: counts_ok_def unat_word_ariths counted_def)
  show "unat (sb_total_bytes s + kMsgSize) = unat (sb_total_bytes s) + unat kMsgSize" if "0 < total unsummed (sb_workers s)"
  proof -
    have "unat kMsgSize \<le> unat kMsgSize * total unsummed (sb_workers s)" using that by simp
    then have "unat (sb_total_bytes s) + unat kMsgSize \<le> unat kMsgSize * total delivered (sb_senders s)"
      using cs unfolding counts_ok_def summed_def by linarith
    also have "\<dots> \<le> 2097152 * 4294967296" using few by (simp add: kMsgSize_def)
    finally show ?thesis by (simp add: unat_word_ariths)
  qed
qed

lemma step_receiver:
  assumes inv: "send_bw_inv s" and r: "r < length (sb_workers s)" "sb_workers s ! r \<in> {R_resumed, R_counted}"
  shows "send_bw_inv (server_worker_next r s) \<and> steps_left s = Suc (steps_left (server_worker_next r s))"
proof -
  define x where "x = (if sb_workers s ! r = R_resumed then R_counted else R_waiting)"
  have pr: "posted_for (\<lambda>pc. pc = R_waiting) (sb_workers s) (sb_receives s)" and cs: "counts_ok (sb_senders s) (sb_workers s) (counted s) (summed s)"
    and sl: "slots_ok (sb_workers s) (sb_pool s)" and depth: "length (sb_workers s) = kRecvDepth"
    using inv unfolding send_bw_inv_def by blast+
  note up = sum_update [OF r(1), of uncounted x] sum_update [OF r(1), of unsummed x] sum_update [OF r(1), of recv_steps x]
  have pushed: "posted_for (\<lambda>pc. pc = R_waiting) ((sb_workers s)[r := x]) (if x = R_waiting then sb_receives s @ [r] else sb_receives s)"
    by (rule posted_push [OF pr r(1)]) (use r(2) in auto)
  have pool: "slots_ok ((sb_workers s)[r := x]) (sb_pool s)"
    by (rule slots_next [OF sl r(1)]) (use sl r depth in \<open>auto simp: slots_ok_def\<close>)
  have more: "progress_ok (sb_posted s) (sb_receives s @ [r]) (sb_progress s) (sb_pool s)"
    using inv progress_more [of "sb_posted s" "sb_receives s" "sb_progress s" "sb_pool s" "[]" "[r]"] by (simp add: send_bw_inv_def)
  show ?thesis
  proof (cases "sb_workers s ! r = R_resumed")
    case True
    then show ?thesis using inv pushed pool cs up counters_fit(1) [OF inv]
      by (simp add: send_bw_inv_def server_worker_next_def steps_left_def counts_ok_def counted_def summed_def region_ok_def x_def)
  next
    case False
    then have pc: "sb_workers s ! r = R_counted" using r(2) by simp
    then have x: "x = R_waiting" by (simp add: x_def)
    have down: "total unsummed (sb_workers s) = Suc (total unsummed ((sb_workers s)[r := R_waiting]))"
      and rest: "total uncounted ((sb_workers s)[r := R_waiting]) = total uncounted (sb_workers s)"
      and left: "total recv_steps (sb_workers s) = Suc (total recv_steps ((sb_workers s)[r := R_waiting]))"
      using up pc by (simp_all add: x)
    have "unat (sb_total_bytes s + kMsgSize) = unat (sb_total_bytes s) + unat kMsgSize" using counters_fit(2) [OF inv] down by simp
    then have "counts_ok (sb_senders s) ((sb_workers s)[r := R_waiting]) (counted s) (unat kMsgSize + summed s) \<and>
        summed (server_worker_next r s) = unat kMsgSize + summed s"
      using cs rest pc unfolding counts_ok_def down by (simp add: server_worker_next_def summed_def algebra_simps)
    then show ?thesis using inv pushed pool more pc x left
      by (simp add: send_bw_inv_def server_worker_next_def steps_left_def counted_def region_ok_def)
  qed
qed

lemma step_reporter:
  assumes "send_bw_inv s"
  shows "send_bw_inv (reporter_next s)" and "steps_left (reporter_next s) = steps_left s"
proof -
  have "counted (reporter_next s) = counted s" and "summed (reporter_next s) = summed s"
    by (simp_all add: reporter_next_def counted_def summed_def split: option.split)
  then show "send_bw_inv (reporter_next s)"
    using assms unfolding send_bw_inv_def region_ok_def by (cases "sb_reporter s") (simp_all add: reporter_next_def)
  show "steps_left (reporter_next s) = steps_left s" by (simp add: steps_left_def reporter_next_def split: option.split)
qed

text \<open>Every step uses up something: a step that is still to come, or a byte of the message that is arriving.\<close>

lemma step_inv:
  assumes "send_bw_step s t" and inv: "send_bw_inv s"
  shows "send_bw_inv t \<and> steps_left t + sb_progress s < steps_left s + sb_progress t"
  using assms(1)
proof cases
  case (start_sender w)
  then show ?thesis using step_start_sender [OF inv start_sender(2,3)] by (simp add: send_worker_start_def)
next
  case (start_receiver r)
  then show ?thesis using step_start_receiver [OF inv start_receiver(2,3)] by (simp add: server_worker_start_def)
next
  case (packet w ws r rs v n)
  then show ?thesis using step_packet [OF inv packet(2-4,7)] by (simp add: packet_arrived_def)
next
  case (arrive w ws r rs i)
  then show ?thesis using step_arrive [OF inv arrive(2-5)] by simp
next
  case (complete w i)
  then show ?thesis using step_complete [OF inv complete(2,3)] by simp
next
  case (sender w i)
  have "sb_progress (send_worker_next w i s) = sb_progress s" by (simp add: send_worker_next_def Let_def)
  then show ?thesis using step_sender [OF inv sender(2,3)] sender(1) by simp
next
  case (receiver r)
  have "sb_progress (server_worker_next r s) = sb_progress s" by (simp add: server_worker_next_def)
  then show ?thesis using step_receiver [OF inv receiver(2,3)] receiver(1) by simp
qed

lemma progress_without:
  assumes "progress_ok p q n pool" and "p \<noteq> []"
  shows "progress_ok (without_request w p) q (if hd p = w then 0 else n) pool"
  using assms by (cases p) (auto simp: progress_ok_def without_request_def)

lemma sender_lost:
  assumes inv: "send_bw_inv s" and w: "w \<in> set (sb_posted s)" and i: "sb_senders s ! w = S_sending i"
    and t: "t = s\<lparr>sb_posted := without_request w (sb_posted s), sb_senders := (sb_senders s)[w := S_failed i False],
       sb_progress := (if hd (sb_posted s) = w then 0 else sb_progress s)\<rparr>"
  shows "send_bw_inv t \<and> steps_left t + sb_progress s \<le> steps_left s + sb_progress t"
  using inv
proof (rule invE)
  assume a: "length (sb_senders s) = kConcurrency" "length (sb_workers s) = kRecvDepth"
    "posted_for is_sending (sb_senders s) (sb_posted s)" "posted_for (\<lambda>pc. pc = R_waiting) (sb_workers s) (sb_receives s)"
    "counts_ok (sb_senders s) (sb_workers s) (counted s) (summed s)" "slots_ok (sb_workers s) (sb_pool s)"
    "progress_ok (sb_posted s) (sb_receives s) (sb_progress s) (sb_pool s)" "region_ok s"
  note w' = posted_remove(1) [OF a(3) w]
  have i': "i < sbw_kSendCount" using sending_range [OF a(5) w'] i by simp
  have "counts_ok ((sb_senders s)[w := S_failed i False]) (sb_workers s) (counted s) (summed s)"
    using a(5) i i' sum_update [OF w', of delivered "S_failed i False"] by (simp add: counts_ok_def in_range_update)
  moreover have "total send_steps ((sb_senders s)[w := S_failed i False]) + unat kMsgSize \<le> total send_steps (sb_senders s)"
    using i next_send [OF i'] sum_update [OF w', of send_steps "S_failed i False"] by simp
  moreover have "sb_progress s \<le> unat kMsgSize" using a(7) by (simp add: progress_ok_def)
  moreover have "progress_ok (without_request w (sb_posted s)) (sb_receives s) (if hd (sb_posted s) = w then 0 else sb_progress s) (sb_pool s)"
    by (rule progress_without [OF a(7)]) (use w in auto)
  ultimately show ?thesis using a posted_remove(3) [OF a(3) w, of "S_failed i False"]
    by (simp add: send_bw_inv_def counted_def summed_def region_ok_def steps_left_def t)
qed

lemma receiver_lost:
  assumes inv: "send_bw_inv s" and r: "r \<in> set (sb_receives s)" and junk: "length junk \<le> unat kMsgSize"
    and t: "t = s\<lparr>sb_receives := without_request r (sb_receives s), sb_workers := (sb_workers s)[r := R_failed],
       sb_progress := (if hd (sb_receives s) = r then 0 else sb_progress s),
       sb_pool := pool_patch (unat kMsgSize) r 0 junk (sb_pool s)\<rparr>"
  shows "send_bw_inv t \<and> steps_left t + sb_progress s \<le> steps_left s + sb_progress t"
  using inv
proof (rule invE)
  assume a: "length (sb_senders s) = kConcurrency" "length (sb_workers s) = kRecvDepth"
    "posted_for is_sending (sb_senders s) (sb_posted s)" "posted_for (\<lambda>pc. pc = R_waiting) (sb_workers s) (sb_receives s)"
    "counts_ok (sb_senders s) (sb_workers s) (counted s) (summed s)" "slots_ok (sb_workers s) (sb_pool s)"
    "progress_ok (sb_posted s) (sb_receives s) (sb_progress s) (sb_pool s)" "region_ok s"
  let ?pool = "pool_patch (unat kMsgSize) r 0 junk (sb_pool s)"
  note r' = posted_remove(1,2) [OF a(4) r]
  have "slots_ok ((sb_workers s)[r := R_failed]) ?pool"
    by (rule slots_patch [OF a(6)]) (use r'(1) a(2) junk in simp_all)
  moreover have "total uncounted ((sb_workers s)[r := R_failed]) = total uncounted (sb_workers s)"
    "total unsummed ((sb_workers s)[r := R_failed]) = total unsummed (sb_workers s)"
    "total recv_steps ((sb_workers s)[r := R_failed]) + unat kMsgSize = total recv_steps (sb_workers s)"
    using sum_update [OF r'(1), of uncounted R_failed] sum_update [OF r'(1), of unsummed R_failed] sum_update [OF r'(1), of recv_steps R_failed] r'(2)
    by simp_all
  moreover have "sb_progress s \<le> unat kMsgSize" using a(7) by (simp add: progress_ok_def)
  moreover have "progress_ok (sb_posted s) (without_request r (sb_receives s)) (if hd (sb_receives s) = r then 0 else sb_progress s) ?pool"
  proof (cases "hd (sb_receives s) = r")
    case False
    then obtain h q where q: "sb_receives s = h # q" "h \<noteq> r" using r by (cases "sb_receives s") auto
    have "h < kRecvDepth" using posted_pop(1) [of "\<lambda>pc. pc = R_waiting" "sb_workers s" h q] a(2,4) q(1) by simp
    then have "pool_part (unat kMsgSize) h ?pool = pool_part (unat kMsgSize) h (sb_pool s)"
      using pool.part_other [OF pool_ok [OF a(6)] pool_ok [OF a(6)], of r h 0 junk] r'(1) a(2) junk q(2) by simp
    then show ?thesis using a(7) q by (simp add: progress_ok_def without_request_def)
  qed simp
  ultimately show ?thesis using a posted_remove(3) [OF a(4) r, of R_failed]
    by (simp add: send_bw_inv_def counted_def summed_def region_ok_def steps_left_def counts_ok_def t)
qed

lemma fault_inv:
  assumes "send_bw_fault s t" and inv: "send_bw_inv s"
  shows "send_bw_inv t \<and> steps_left t + sb_progress s \<le> steps_left s + sb_progress t"
  using assms(1)
proof cases
  case (send_lost w i)
  show ?thesis by (rule sender_lost [OF inv send_lost(2,3,1)])
next
  case (send_late w i)
  have "in_range (sb_senders s ! w)" using inv send_late(2) by (auto simp: send_bw_inv_def intro: sending_range)
  with sender_moves [OF inv send_late(2), of "S_failed i True" _ "sb_batches s"] send_late show ?thesis by simp
next
  case (recv_fails r junk)
  show ?thesis by (rule receiver_lost [OF inv recv_fails(2,3,1)])
qed

definition any_step :: "send_bw \<Rightarrow> send_bw \<Rightarrow> bool" where
  "any_step s t \<longleftrightarrow> send_bw_step s t \<or> send_bw_fault s t \<or> t = reporter_next s"

interpretation sbw: transition_system send_bw_start any_step send_bw_inv
  by unfold_locales (auto simp: start_inv any_step_def step_reporter dest: step_inv fault_inv)

section \<open>Runs\<close>

lemma run_steps: "send_bw_run n f s t \<Longrightarrow> send_bw_inv s \<Longrightarrow>
    send_bw_inv t \<and> n + steps_left t + sb_progress s \<le> steps_left s + sb_progress t"
proof (induction rule: send_bw_run.induct)
  case (run_worker n f s t u)
  then show ?case using step_inv [of t u] by auto
next
  case (run_fault n f s t u)
  then show ?case using fault_inv [of t u] by auto
next
  case (run_reporter n f s t)
  have "sb_progress (reporter_next t) = sb_progress t" by (simp add: reporter_next_def split: option.split)
  then show ?case using run_reporter step_reporter [of t] by simp
qed simp

text \<open>What has arrived of a message is covered by the steps its sender still has.\<close>

lemma progress_left: "send_bw_inv s \<Longrightarrow> sb_progress s \<le> steps_left s"
proof (erule invE)
  assume a: "posted_for is_sending (sb_senders s) (sb_posted s)" "counts_ok (sb_senders s) (sb_workers s) (counted s) (summed s)"
    "progress_ok (sb_posted s) (sb_receives s) (sb_progress s) (sb_pool s)"
  show ?thesis
  proof (cases "sb_progress s = 0")
    case False
    then obtain w ws where q: "sb_posted s = w # ws" using a(3) by (cases "sb_posted s") (auto simp: progress_ok_def)
    have w: "w < length (sb_senders s)" "is_sending (sb_senders s ! w)" using posted_pop(1,2) [of is_sending "sb_senders s" w ws] a(1) q by simp_all
    then obtain i where i: "sb_senders s ! w = S_sending i" by (cases "sb_senders s ! w") simp_all
    have "i < sbw_kSendCount" using sending_range [OF a(2) w(1)] i by simp
    then have "unat kMsgSize \<le> send_steps (sb_senders s ! w)" using next_send [of i] i by simp
    also have "\<dots> \<le> total send_steps (sb_senders s)" unfolding total_def using w(1) by (intro member_le_sum_list) simp_all
    also have "\<dots> \<le> steps_left s" by (simp add: steps_left_def)
    finally show ?thesis using a(3) by (simp add: progress_ok_def)
  qed simp
qed

definition no_failure :: "send_bw \<Rightarrow> bool" where
  "no_failure s \<longleftrightarrow> (\<forall>i late. S_failed i late \<notin> set (sb_senders s)) \<and> R_failed \<notin> set (sb_workers s)"

lemma not_new: "y \<notin> set xs \<Longrightarrow> y \<noteq> x \<Longrightarrow> y \<notin> set (xs[i := x])"
  using set_update_subset_insert [of xs i x] by blast

lemma step_no_failure: "send_bw_step s t \<Longrightarrow> no_failure s \<Longrightarrow> no_failure t"
  by (induction rule: send_bw_step.induct) (auto simp: no_failure_def packet_arrived_def message_arrived_def
      send_worker_start_def server_worker_start_def send_worker_next_def server_worker_next_def Let_def not_new)

lemma run_no_failure: "send_bw_run n f s t \<Longrightarrow> f = 0 \<Longrightarrow> no_failure s \<Longrightarrow> no_failure t"
proof (induction rule: send_bw_run.induct)
  case (run_worker n f s t u)
  then show ?case using step_no_failure by blast
next
  case (run_reporter n f s t)
  then show ?case by (simp add: no_failure_def reporter_next_def split: option.split)
qed simp_all


text \<open>
  Where nothing moves but the reporter: all workers have been started, the receivers are idle, and the senders are done unless all receivers have failed.
\<close>

definition settled :: "send_pc list \<Rightarrow> bool" where
  "settled ss \<longleftrightarrow> (\<forall>pc \<in> set ss. pc = S_returned \<or> (\<exists>i late. pc = S_failed i late))"

definition at_rest :: "send_bw \<Rightarrow> bool" where
  "at_rest s \<longleftrightarrow> (\<forall>t. \<not> send_bw_step s t)"

lemma first_index: "x \<in> set xs \<Longrightarrow> \<exists>i < length xs. xs ! i = x \<and> x \<notin> set (take i xs)"
proof -
  assume "x \<in> set xs"
  then obtain ys zs where "xs = ys @ x # zs" "x \<notin> set ys" by (meson split_list_first)
  then show ?thesis by (intro exI [of _ "length ys"]) simp
qed

lemma stuck_workers:
  assumes stuck: "at_rest s" and "pc \<in> set (sb_workers s)"
  shows "pc = R_waiting \<or> pc = R_failed"
proof -
  from assms(2) obtain r where "r < length (sb_workers s)" "sb_workers s ! r = pc" by (auto simp: in_set_conv_nth)
  moreover have "R_new \<notin> set (sb_workers s)"
    using first_index [of R_new "sb_workers s"] stuck send_bw_step.start_receiver unfolding at_rest_def by blast
  ultimately show ?thesis using assms(2) stuck send_bw_step.receiver [of r s] unfolding at_rest_def by (cases pc) auto
qed

lemma stuck_senders:
  assumes stuck: "at_rest s" and "pc \<in> set (sb_senders s)"
  shows "is_sending pc \<or> pc = S_returned \<or> (\<exists>i late. pc = S_failed i late)"
proof -
  from assms(2) obtain w where "w < length (sb_senders s)" "sb_senders s ! w = pc" by (auto simp: in_set_conv_nth)
  moreover have "S_new \<notin> set (sb_senders s)"
    using first_index [of S_new "sb_senders s"] stuck send_bw_step.start_sender unfolding at_rest_def by blast
  ultimately show ?thesis using assms(2) stuck send_bw_step.complete [of w s] send_bw_step.sender [of w s]
    unfolding at_rest_def by (cases pc) auto
qed

lemma queues_meet:
  assumes inv: "send_bw_inv s" and stuck: "at_rest s"
  shows "sb_posted s = [] \<or> sb_receives s = []"
proof (rule ccontr)
  assume "\<not> (sb_posted s = [] \<or> sb_receives s = [])"
  then obtain w ws r rs where q: "sb_posted s = w # ws" "sb_receives s = r # rs" by (meson list.exhaust)
  have ps: "posted_for is_sending (sb_senders s) (w # ws)" and pr: "posted_for (\<lambda>pc. pc = R_waiting) (sb_workers s) (r # rs)"
    and len: "length (sb_workers s) = kRecvDepth" and rg: "region_ok s" and pg: "sb_progress s \<le> length req_vec"
    using inv q by (simp_all add: send_bw_inv_def progress_ok_def)
  obtain i where i: "sb_senders s ! w = S_sending i" using posted_pop(2) [OF ps] by (cases "sb_senders s ! w") simp_all
  obtain v where v: "sbw_view s r = Inr v" "unat (view_length v) = unat kMsgSize"
    using worker_slice [OF rg, of r] posted_pop(1) [OF pr] len by auto
  show False
  proof (cases "sb_progress s = length req_vec")
    case True
    from send_bw_step.arrive [OF q i True] stuck show False by (simp add: at_rest_def)
  next
    case False
    then have "send_bw_step s (packet_arrived (length req_vec - sb_progress s) v s)"
      using pg v by (intro send_bw_step.packet [OF q v(1)]) simp_all
    with stuck show False by (simp add: at_rest_def)
  qed
qed

fun failed_late :: "send_pc \<Rightarrow> bool" where
  "failed_late (S_failed i late) = late"
| "failed_late pc = False"

lemma delivered_sent:
  "(\<And>i. S_arrived i \<notin> set xs) \<Longrightarrow> total delivered xs = total sent xs + length (filter failed_late xs)"
proof (induction xs)
  case (Cons x xs)
  then have "total delivered xs = total sent xs + length (filter failed_late xs)" by auto
  moreover have "delivered x = sent x + (if failed_late x then 1 else 0)" using Cons.prems by (cases x) auto
  ultimately show ?case by (simp add: total_def)
qed simp

lemma stuck_ends:
  assumes inv: "send_bw_inv s" and stuck: "at_rest s"
  shows "(settled (sb_senders s) \<or> sb_workers s = replicate kRecvDepth R_failed) \<and>
     counted s = total sent (sb_senders s) + length (filter failed_late (sb_senders s)) \<and> summed s = unat kMsgSize * counted s"
proof -
  have len: "length (sb_workers s) = kRecvDepth" and ps: "posted_for is_sending (sb_senders s) (sb_posted s)"
    and pr: "posted_for (\<lambda>pc. pc = R_waiting) (sb_workers s) (sb_receives s)"
    and cs: "counts_ok (sb_senders s) (sb_workers s) (counted s) (summed s)"
    using inv unfolding send_bw_inv_def by blast+
  note idle = stuck_workers [OF stuck]
  have "uncounted pc = 0 \<and> unsummed pc = 0" if "pc \<in> set (sb_workers s)" for pc
    using idle [OF that] by auto
  then have zero: "total uncounted (sb_workers s) = 0" "total unsummed (sb_workers s) = 0"
    by (simp_all add: total_def)
  have arr: "S_arrived i \<notin> set (sb_senders s)" for i using stuck_senders [OF stuck] by fastforce
  have "settled (sb_senders s)" if "sb_posted s = []"
    unfolding settled_def
  proof
    fix pc assume pc: "pc \<in> set (sb_senders s)"
    then obtain w where w: "w < length (sb_senders s)" "sb_senders s ! w = pc" by (auto simp: in_set_conv_nth)
    then have "\<not> is_sending pc" using ps that by (auto simp: posted_for_def)
    then show "pc = S_returned \<or> (\<exists>i late. pc = S_failed i late)" using stuck_senders [OF stuck pc] by blast
  qed
  moreover have "sb_workers s = replicate kRecvDepth R_failed" if "sb_receives s = []"
  proof (rule replicate_eqI)
    fix pc assume pc: "pc \<in> set (sb_workers s)"
    then obtain r where "r < length (sb_workers s)" "sb_workers s ! r = pc" by (auto simp: in_set_conv_nth)
    then have "pc \<noteq> R_waiting" using pr that by (auto simp: posted_for_def)
    then show "pc = R_failed" using idle [OF pc] by simp
  qed (rule len)
  ultimately show ?thesis using queues_meet [OF inv stuck] cs zero delivered_sent [of "sb_senders s"] arr by (auto simp: counts_ok_def)
qed

lemma faultless_end:
  assumes inv: "send_bw_inv s" and stuck: "at_rest s" and ok: "no_failure s"
  shows "sb_senders s = replicate kConcurrency S_returned \<and> sb_workers s = replicate kRecvDepth R_waiting"
proof -
  have len: "length (sb_senders s) = kConcurrency" "length (sb_workers s) = kRecvDepth" using inv by (simp_all add: send_bw_inv_def)
  have w: "sb_workers s = replicate kRecvDepth R_waiting"
    using stuck_workers [OF stuck] ok len(2) by (metis no_failure_def replicate_eqI)
  then have "sb_workers s \<noteq> replicate kRecvDepth R_failed" by (simp add: kRecvDepth_def)
  then have "settled (sb_senders s)" using stuck_ends [OF inv stuck] by blast
  then have "sb_senders s = replicate kConcurrency S_returned"
    using ok len(1) by (metis no_failure_def replicate_eqI settled_def)
  with w show ?thesis by blast
qed

lemma start_steps: "send_bw_start s \<Longrightarrow>
    steps_left s = kConcurrency * Suc ((unat kMsgSize + 5) * sbw_kSendCount) + kRecvDepth * Suc (unat kMsgSize) \<and> sb_progress s = 0 \<and> no_failure s"
  by (simp add: send_bw_start_def steps_left_def no_failure_def)

text \<open>
  C32: the send bandwidth program, in whatever order its workers are started and run, the messages arrive in pieces, the
  reporter looks at the counters, and requests fail, failed sends arrived or not. The workers make a bounded number of steps and then only the reporter goes on: the
  server's workers wait for ever. A worker of the server that was resumed has the whole message in its slice. At rest what was
  reported and what is still in the counters adds up to the sends that completed and one more for every send that was reported failed although its
  message had arrived, with \<open>kMsgSize\<close> bytes for each, and all senders are done unless every receiver has failed. Without failures all
  \<open>4 * 2\<^sup>3\<^sup>0\<close> messages are counted.
\<close>

theorem send_bw_all_counted:
  assumes "send_bw_start s" and "send_bw_run n f s t"
  shows "n \<le> kConcurrency * Suc ((unat kMsgSize + 5) * sbw_kSendCount) + kRecvDepth * Suc (unat kMsgSize) \<and>
    (\<forall>r < kRecvDepth. sb_workers t ! r \<in> {R_resumed, R_counted} \<longrightarrow> pool_part (unat kMsgSize) r (sb_pool t) = req_vec) \<and>
    (at_rest t \<longrightarrow> counted t = total sent (sb_senders t) + length (filter failed_late (sb_senders t)) \<and> summed t = unat kMsgSize * counted t \<and>
       (settled (sb_senders t) \<or> sb_workers t = replicate kRecvDepth R_failed)) \<and>
    (f = 0 \<longrightarrow> at_rest t \<longrightarrow> sb_senders t = replicate kConcurrency S_returned \<and> sb_workers t = replicate kRecvDepth R_waiting \<and>
       counted t = kConcurrency * sbw_kSendCount \<and> summed t = kConcurrency * sbw_kSendCount * unat kMsgSize)"
proof -
  note start = start_steps [OF assms(1)]
  from run_steps [OF assms(2) start_inv [OF assms(1)]] start have inv: "send_bw_inv t"
    and n: "n + steps_left t \<le> steps_left s + sb_progress t" by auto
  have "n \<le> steps_left s" using n progress_left [OF inv] by linarith
  moreover have "\<forall>r < kRecvDepth. sb_workers t ! r \<in> {R_resumed, R_counted} \<longrightarrow> pool_part (unat kMsgSize) r (sb_pool t) = req_vec"
    using inv unfolding send_bw_inv_def slots_ok_def by blast
  moreover have "sb_senders t = replicate kConcurrency S_returned \<and> sb_workers t = replicate kRecvDepth R_waiting \<and>
      counted t = kConcurrency * sbw_kSendCount \<and> summed t = kConcurrency * sbw_kSendCount * unat kMsgSize"
    if "f = 0" "at_rest t"
    using faultless_end [OF inv that(2) run_no_failure [OF assms(2) that(1)]] stuck_ends [OF inv that(2)] start by simp
  ultimately show ?thesis using start stuck_ends [OF inv] by simp
qed

definition sample_bw :: send_bw where
  "sample_bw = \<lparr>sb_senders = replicate kConcurrency S_new, sb_workers = replicate kRecvDepth R_new, sb_posted = [],
     sb_receives = [], sb_progress = 0, sb_base = 4096, sb_pool = replicate (kRecvDepth * unat kMsgSize) 0,
     sb_mr = local_mr_ctor 1 \<lparr>mr_handle = 7, mr_addr = 4096, mr_length = of_nat kRecvDepth * kMsgSize, mr_lkey = 11, mr_rkey = 12\<rparr>,
     sb_total_completed = 0, sb_total_bytes = 0, sb_reporter = None, sb_reports = [], sb_batches = []\<rparr>"

lemma sample_bw_start: "send_bw_start sample_bw"
  by (simp add: send_bw_start_def sample_bw_def local_mr_ctor_def)

text \<open>The first message of a program whose first workers have been started arrives, and its receiver is resumed.\<close>

theorem send_bw_all_counted_witness:
  "\<exists>n t. send_bw_run n 0 sample_bw t \<and> sb_workers t ! 0 = R_resumed \<and> sb_senders t ! 0 = S_arrived 0 \<and>
     pool_part (unat kMsgSize) 0 (sb_pool t) = req_vec"
proof -
  let ?M = "length req_vec"
  have depth: "0 < kRecvDepth" and conc: "0 < kConcurrency" by (simp_all add: kRecvDepth_def kConcurrency_def)
  let ?s1 = "send_worker_start 0 sample_bw"
  let ?s2 = "server_worker_start 0 ?s1"
  have len: "length (sb_senders sample_bw) = kConcurrency" "length (sb_workers sample_bw) = kRecvDepth" by (simp_all add: sample_bw_def)
  have st1: "send_bw_step sample_bw ?s1" by (rule send_bw_step.start_sender) (use conc in \<open>simp_all add: sample_bw_def\<close>)
  have st2: "send_bw_step ?s1 ?s2"
    by (rule send_bw_step.start_receiver) (use depth in \<open>simp_all add: sample_bw_def send_worker_start_def\<close>)
  have q: "sb_posted ?s2 = [0]" "sb_receives ?s2 = [0]" "sb_progress ?s2 = 0" "sb_senders ?s2 ! 0 = S_sending 0"
    using conc by (simp_all add: server_worker_start_def send_worker_start_def sample_bw_def)
  have "region_ok ?s2" by (simp add: region_ok_def sample_bw_def local_mr_ctor_def server_worker_start_def send_worker_start_def)
  from worker_slice [OF this depth] obtain v where v: "sbw_view ?s2 0 = Inr v" "unat (view_length v) = unat kMsgSize" by blast
  let ?s3 = "packet_arrived ?M v ?s2"
  have "0 < ?M" by (simp add: kMsgSize_def)
  then have st3: "send_bw_step ?s2 ?s3" using q v by (intro send_bw_step.packet [OF q(1,2) v(1)]) simp_all
  have q3: "sb_posted ?s3 = [0]" "sb_receives ?s3 = [0]" "sb_progress ?s3 = ?M" "sb_senders ?s3 ! 0 = S_sending 0"
    using q by (simp_all add: packet_arrived_def)
  let ?s4 = "message_arrived 0 0 0 ?s3"
  have st4: "send_bw_step ?s3 ?s4" by (rule send_bw_step.arrive [OF q3(1,2,4,3)])
  have run: "send_bw_run (Suc (Suc (Suc (Suc 0)))) 0 sample_bw ?s4"
    by (rule run_worker, rule run_worker, rule run_worker, rule run_worker, rule run_start, rule st1, rule st2, rule st3, rule st4)
  have "0 < length (sb_workers ?s3)" "0 < length (sb_senders ?s3)"
    using depth conc len by (simp_all add: packet_arrived_def server_worker_start_def send_worker_start_def)
  then have pcs: "sb_workers ?s4 ! 0 = R_resumed" "sb_senders ?s4 ! 0 = S_arrived 0" by (simp_all add: message_arrived_def)
  with send_bw_all_counted [OF sample_bw_start run] depth have "pool_part (unat kMsgSize) 0 (sb_pool ?s4) = req_vec" by blast
  with run pcs show ?thesis by blast
qed

end
