(* ===== verification/Event_Scope.thy ===== *)
theory Event_Scope
  imports Rdmapp_Prelude
begin

text \<open>
  Functions of the examples that run an event loop in a thread of their own: \<open>std::jthread w\<close> is joined where the scope of the function is left, and the loop
  returns when it has no work left, which a work guard that is neither reset nor destroyed prevents. Locals are destroyed in the reverse order of
  their declarations. What else may keep a loop busy, pending handlers, is left out: a loop that cannot end here does not end.
\<close>

section \<open>Scopes\<close>

datatype scope_local = Io_context | Work_guard | Event_thread | Other_local

text \<open>A statement that matters: a declaration, \<open>guard.reset()\<close>, or a call that may throw.\<close>

datatype scope_stmt = Declare scope_local | Reset_guard | Call

text \<open>
  The scope is left, in order or by an exception, or for ever joins the thread of a loop that does not end. An exception that nothing above catches ends the process
  before any local is destroyed; the body of a coroutine always has a handler, its promise.
\<close>

datatype scope_end = Left | Left_by_exception | Joins_forever | Process_ends

text \<open>The locals alive, the last declared first, and whether the guard holds work; true when all can be destroyed.\<close>

fun leave_scope :: "scope_local list \<Rightarrow> bool \<Rightarrow> bool" where
  "leave_scope [] guarded = True"
| "leave_scope (Event_thread # xs) guarded = (\<not> guarded \<and> leave_scope xs guarded)"
| "leave_scope (Work_guard # xs) guarded = leave_scope xs False"
| "leave_scope (x # xs) guarded = leave_scope xs guarded"

text \<open>The list of truth values tells which of the calls throw.\<close>

fun run_scope :: "bool \<Rightarrow> scope_stmt list \<Rightarrow> bool list \<Rightarrow> scope_local list \<Rightarrow> bool \<Rightarrow> scope_end" where
  "run_scope coroutine [] throws alive guarded = (if leave_scope alive guarded then Left else Joins_forever)"
| "run_scope coroutine (Declare x # ss) throws alive guarded = run_scope coroutine ss throws (x # alive) (guarded \<or> x = Work_guard)"
| "run_scope coroutine (Reset_guard # ss) throws alive guarded = run_scope coroutine ss throws alive False"
| "run_scope coroutine (Call # ss) (True # throws) alive guarded =
     (if \<not> coroutine then Process_ends else if leave_scope alive guarded then Left_by_exception else Joins_forever)"
| "run_scope coroutine (Call # ss) throws alive guarded = run_scope coroutine ss (tl throws) alive guarded"

section \<open>The functions\<close>

text \<open>\<open>client\<close> of \<^verbatim>\<open>async_rpc.cc\<close>: four connections and \<open>run_client\<close>.\<close>

definition async_rpc_client_scope :: "scope_stmt list" where
  "async_rpc_client_scope = [Declare Io_context, Declare Other_local, Declare Work_guard, Declare Event_thread] @ replicate 4 Call @ [Call]"

text \<open>\<^verbatim>\<open>latency_raw.cc\<close>, two coroutines: the client connects, resets the guard and measures; the server accepts and serves until something throws, in one of its first \<open>n\<close> rounds.\<close>

definition latency_raw_client_scope :: "scope_stmt list" where
  "latency_raw_client_scope = [Declare Io_context, Declare Work_guard, Declare Event_thread, Call, Reset_guard, Call]"

definition latency_raw_server_scope :: "nat \<Rightarrow> scope_stmt list" where
  "latency_raw_server_scope n = [Declare Work_guard, Declare Event_thread] @ replicate (2 * n) Call"

text \<open>\<^verbatim>\<open>send_bw_raw.cc\<close>: a client without a guard, and a server that resets it once it has accepted.\<close>

definition send_bw_client_scope :: "scope_stmt list" where
  "send_bw_client_scope = [Declare Io_context, Declare Event_thread, Declare Other_local, Call, Call]"

definition send_bw_server_scope :: "scope_stmt list" where
  "send_bw_server_scope = [Declare Work_guard, Declare Event_thread, Call, Reset_guard, Declare Other_local, Call]"

abbreviation scope_outcome :: "bool \<Rightarrow> scope_stmt list \<Rightarrow> bool list \<Rightarrow> scope_end" where
  "scope_outcome coroutine ss throws \<equiv> run_scope coroutine ss throws [] False"

section \<open>How they are left\<close>

lemma calls_outcome:
  "run_scope co (replicate n Call @ ss) ts alive g =
     (if True \<in> set (take n ts)
      then if \<not> co then Process_ends else if leave_scope alive g then Left_by_exception else Joins_forever
      else run_scope co ss (drop n ts) alive g)"
proof (induction n arbitrary: ts)
  case (Suc n)
  show ?case
  proof (cases ts)
    case Nil
    then show ?thesis using Suc.IH [of "[]"] by simp
  next
    case (Cons b bs)
    then show ?thesis using Suc.IH [of bs] by (cases b) simp_all
  qed
qed simp

lemma async_rpc_client_left:
  "scope_outcome False async_rpc_client_scope ts = (if True \<in> set (take 5 ts) then Process_ends else Joins_forever)"
proof -
  have eq: "async_rpc_client_scope = [Declare Io_context, Declare Other_local, Declare Work_guard, Declare Event_thread] @ replicate 5 Call @ []"
    by (simp add: async_rpc_client_scope_def numeral_nat)
  show ?thesis unfolding eq append.simps run_scope.simps calls_outcome by simp
qed

text \<open>
  The guards of the functions that run an event loop in a thread: \<open>client\<close> of the RPC workload never resets its own, so it cannot be left in order;
  in the coroutines of \<^verbatim>\<open>latency_raw.cc\<close> a connection that fails leaves the scope before the reset, and the exception is never seen, because the thread
  is joined for ever; the functions of the send bandwidth example are always left, or end the process.
\<close>

theorem event_scopes_left:
  "scope_outcome False async_rpc_client_scope ts = (if True \<in> set (take 5 ts) then Process_ends else Joins_forever) \<and>
   scope_outcome True latency_raw_client_scope [connect_throws, worker_throws] =
     (if connect_throws then Joins_forever else if worker_throws then Left_by_exception else Left) \<and>
   (True \<in> set (take (2 * n) ts) \<longrightarrow> scope_outcome True (latency_raw_server_scope n) ts = Joins_forever) \<and>
   scope_outcome False send_bw_server_scope [accept_throws, run_throws] = (if accept_throws \<or> run_throws then Process_ends else Left) \<and>
   scope_outcome False send_bw_client_scope ts = (if True \<in> set (take 2 ts) then Process_ends else Left)"
proof (intro conjI)
  show "scope_outcome False async_rpc_client_scope ts = (if True \<in> set (take 5 ts) then Process_ends else Joins_forever)"
    by (rule async_rpc_client_left)
  show "scope_outcome True latency_raw_client_scope [connect_throws, worker_throws] =
     (if connect_throws then Joins_forever else if worker_throws then Left_by_exception else Left)"
    by (cases connect_throws; cases worker_throws) (simp_all add: latency_raw_client_scope_def)
  show "True \<in> set (take (2 * n) ts) \<longrightarrow> scope_outcome True (latency_raw_server_scope n) ts = Joins_forever"
    using calls_outcome [of True "2 * n" "[]" ts] by (simp add: latency_raw_server_scope_def)
  show "scope_outcome False send_bw_server_scope [accept_throws, run_throws] = (if accept_throws \<or> run_throws then Process_ends else Left)"
    by (cases accept_throws; cases run_throws) (simp_all add: send_bw_server_scope_def)
  have eq: "send_bw_client_scope = [Declare Io_context, Declare Event_thread, Declare Other_local] @ replicate 2 Call @ []"
    by (simp add: send_bw_client_scope_def numeral_nat)
  show "scope_outcome False send_bw_client_scope ts = (if True \<in> set (take 2 ts) then Process_ends else Left)"
    unfolding eq append.simps run_scope.simps calls_outcome by simp
qed

end
