(* ===== verification/Rpc_Run.thy ===== *)
theory Rpc_Run
  imports Rpc_Workload Rpc_Lifetime Programs Event_Scope
begin

text \<open>
  The client of \<^verbatim>\<open>examples/async_rpc.cc\<close> from its connections to its statistics: coroutines first, threads next, the two tables last. What
  the test workers end with is an argument: the time each measured, or the exception that left it.
\<close>

section \<open>The workers of one phase\<close>

text \<open>The results in the order in which the workers write to the statistics, where the last one stays. An exception is the first of them, and
  undefined behaviour ends everything.\<close>

fun phase :: "int \<Rightarrow> (exn + int) list \<Rightarrow> statistic \<Rightarrow> exn + (statistic \<times> exn option)" where
  "phase kConcurrency [] st = Inr (st, None)"
| "phase kConcurrency (Inl ex # rs) st = map_sum id (\<lambda>(st', other). (st', Some ex)) (phase kConcurrency rs st)"
| "phase kConcurrency (Inr elapsed # rs) st = (case set_statistic kConcurrency elapsed st of
     (Inl ex, st') \<Rightarrow> Inl ex
   | (Inr u, st') \<Rightarrow> phase kConcurrency rs st')"

section \<open>run_client\<close>

text \<open>\<open>Hangs\<close> is a program that does not go on after it has printed these tables.\<close>

datatype client_end = Exits int | Hangs "printed list" | Returns "printed list"

text \<open>
  The mux destroys its clients in turn. \<open>ended j\<close> tells whether all receive workers of the client \<open>j\<close> have left their loops
  (\<open>join_returns\<close>); if not, its destructor waits for them.
\<close>

fun mux_dtor :: "verbs \<Rightarrow> (nat \<Rightarrow> bool) \<Rightarrow> nat \<Rightarrow> rpc_client list \<Rightarrow> (world, bool) se" where
  "mux_dtor V ended j [] = returnS True"
| "mux_dtor V ended j (c # cs) = (if ended j then thenS (release_client V c) (mux_dtor V ended (Suc j) cs) else returnS False)"

definition leave_with :: "printed list \<Rightarrow> bool \<Rightarrow> (world, client_end) se" where
  "leave_with ps destroyed = returnS (if destroyed then Returns ps else Hangs ps)"

text \<open>\<open>print_stats\<close> of both tables; it may exit.\<close>

definition print_both :: "statistic \<Rightarrow> statistic \<Rightarrow> exn + client_end" where
  "print_both coro sync = (case print_stats coro of
     Inl ex \<Rightarrow> Inl ex
   | Inr (Exited code) \<Rightarrow> Inr (Exits code)
   | Inr p \<Rightarrow> (case print_stats sync of
       Inl ex \<Rightarrow> Inl ex
     | Inr (Exited code) \<Rightarrow> Inr (Exits code)
     | Inr p' \<Rightarrow> Inr (Returns [p, p'])))"

text \<open>An exception of a coroutine is thrown again when all have ended; one that leaves a thread ends the process.\<close>

definition run_client :: "verbs \<Rightarrow> (nat \<Rightarrow> bool) \<Rightarrow> int \<Rightarrow> (exn + int) list \<Rightarrow> (exn + int) list \<Rightarrow> (pd \<times> ptr \<times> ptr) list \<Rightarrow>
    (world, client_end) se" where
  "run_client V ended kConcurrency coro sync ps = bindS (mux_clients V 512 ps []) (\<lambda>m. case m of
     None \<Rightarrow> returnS (Hangs [])
   | Some cs \<Rightarrow> bindS (liftS (phase kConcurrency (take (nat kConcurrency) coro) statistic_init)) (\<lambda>(st_coro, ex). case ex of
       Some ex \<Rightarrow> bindS (mux_dtor V ended 0 cs) (\<lambda>destroyed. if destroyed then throwS ex else returnS (Hangs []))
     | None \<Rightarrow> bindS (liftS (phase kConcurrency (take (nat kConcurrency) sync) statistic_init)) (\<lambda>(st_sync, ex). case ex of
         Some ex \<Rightarrow> throwS (Terminated ''exception in a thread'')
       | None \<Rightarrow> bindS (liftS (print_both st_coro st_sync)) (\<lambda>e. case e of
           Returns tables \<Rightarrow> bindS (mux_dtor V ended 0 cs) (leave_with tables)
         | _ \<Rightarrow> returnS e))))"

section \<open>client\<close>

text \<open>
  What \<open>run_client\<close> ends with, and then the end of the scope, none of whose calls threw; an exception leaves \<open>main\<close> and ends the process.
  \<open>bases\<close> are the places of the buffers of each RPC client.
\<close>

definition async_rpc_client :: "verbs \<Rightarrow> endian \<Rightarrow> qp \<Rightarrow> pd \<Rightarrow> (nat \<Rightarrow> nat \<times> conn) \<Rightarrow> (nat \<Rightarrow> ptr \<times> ptr) \<Rightarrow> (nat \<Rightarrow> bool) \<Rightarrow> int \<Rightarrow>
    (exn + int) list \<Rightarrow> (exn + int) list \<Rightarrow> (server_state, client_end) se" where
  "async_rpc_client V e mem p sockets bases ended kConcurrency coro sync = thenS (async_rpc_connect V e mem p sockets) (\<lambda>s.
     case run_client V ended kConcurrency coro sync (map (\<lambda>(i, q). (qp_pd q, bases i)) (enumerate 0 (sv_spawned s))) (sv_world s) of
       (Inr (Returns tables), w) \<Rightarrow>
         (Inr (if scope_outcome False async_rpc_client_scope [] = Left then Returns tables else Hangs tables), s\<lparr>sv_world := w\<rparr>)
     | (r, w) \<Rightarrow> (r, s\<lparr>sv_world := w\<rparr>))"

section \<open>How it ends\<close>

definition measured :: "statistic \<Rightarrow> int \<Rightarrow> int list \<Rightarrow> statistic" where
  "measured st k us = (if us = [] then st else st\<lparr>st_total_duration_us := last us, st_total_operations := 1000000 * k\<rparr>)"

lemma phase_measured:
  assumes "0 \<le> k" and "k \<le> 2147"
  shows "phase k (map Inr us) st = Inr (measured st k us, None)"
proof (induction us arbitrary: st)
  case (Cons u us)
  have "fits 32 (int kSendCount * k)" using assms by (auto simp: fits_def kSendCount_def)
  then have "set_statistic k u st = (Inr (), st\<lparr>st_total_duration_us := u, st_total_operations := 1000000 * k\<rparr>)"
    by (simp add: set_statistic_def se_defs Let_def kSendCount_def)
  then show ?case using Cons by (simp add: measured_def)
qed (simp add: measured_def)

lemma print_measured:
  "0 \<le> k \<Longrightarrow> k \<le> 2147 \<Longrightarrow> us \<noteq> [] \<Longrightarrow> last us \<noteq> 0 \<Longrightarrow> print_stats (measured statistic_init k us) = Inr (Printed (1000000 * k) (last us))"
  using print_total [of k "last us"] by (simp add: measured_def)

lemma phases:
  assumes "k \<le> 2147" and "length us = nat k"
  shows "phase k (take (nat k) (map Inr us)) statistic_init = Inr (measured statistic_init k us, None)"
  using phase_measured [of k us statistic_init] assms by (cases "0 \<le> k") (simp_all add: measured_def)

lemma both_printed:
  assumes "k \<le> 2147" and "length coro = nat k" and "length sync = nat k" and "0 \<notin> set coro \<union> set sync"
  shows "print_both (measured statistic_init k coro) (measured statistic_init k sync) =
     Inr (if k \<le> 0 then Exits (- 10) else Returns [Printed (1000000 * k) (last coro), Printed (1000000 * k) (last sync)])"
proof (cases "k \<le> 0")
  case True
  then show ?thesis using assms by (simp add: print_both_def measured_def print_stats_def statistic_init_def)
next
  case False
  then have "coro \<noteq> []" "sync \<noteq> []" using assms(2,3) by auto
  moreover from this have "last coro \<noteq> 0" "last sync \<noteq> 0" using assms(4) last_in_set by fastforce+
  ultimately show ?thesis using False assms(1) by (simp add: print_both_def print_measured)
qed

lemma release_client_ok: "\<exists>w'. release_client V c w = (Inr (), w')"
  by (auto simp: se_defs release_client_def local_mr_dtor_def call_rc_apply split: option.splits)

lemma mux_destroyed: "\<exists>w'. mux_dtor V ended j cs w = (Inr (\<forall>i < length cs. ended (j + i)), w')"
proof (induction cs arbitrary: j w)
  case (Cons c cs)
  obtain w1 where w1: "release_client V c w = (Inr (), w1)" using release_client_ok by blast
  have all: "(\<forall>i < length (c # cs). ended (j + i)) \<longleftrightarrow> ended j \<and> (\<forall>i < length cs. ended (Suc j + i))"
    by (auto simp: less_Suc_eq_0_disj)
  show ?case using Cons.IH [of "Suc j" w1] w1 unfolding all by (simp add: thenS_def bindS_def returnS_def)
qed (simp add: returnS_def)

text \<open>
  C33: the client of the RPC workload never returns. With up to 2147 workers that have all measured a time \<open>run_client\<close> prints both tables,
  of \<open>10\<^sup>6\<close> operations for each worker, and then destroys its mux: it hangs there unless all receive workers of all its RPC clients have ended
  (\<open>sys j\<close> is the state of the \<open>j\<close>th). Even then \<open>client\<close> hangs, at the end of its scope, where the thread of an event loop is joined that the work guard still
  keeps busy. With no workers, as for a concurrency of \<open>0\<close> or less on the command line, the process exits with -10 and prints nothing.
\<close>

theorem rpc_client_never_returns:
  assumes "async_rpc_connect V e mem p sockets s = (Inr (), s1)"
    and "ps = map (\<lambda>(i, q). (qp_pd q, bases i)) (enumerate 0 (sv_spawned s1))"
    and "mux_clients V 512 ps [] (sv_world s1) = (Inr (Some cs), w')"
    and "k \<le> 2147" and "length coro = nat k" and "length sync = nat k" and "0 \<notin> set coro \<union> set sync"
    and "tables = [Printed (1000000 * k) (last coro), Printed (1000000 * k) (last sync)]"
  shows "fst (run_client V (\<lambda>j. join_returns (sys j)) k (map Inr coro) (map Inr sync) ps (sv_world s1)) =
       Inr (if k \<le> 0 then Exits (- 10) else if \<forall>j < length cs. join_returns (sys j) then Returns tables else Hangs tables) \<and>
     fst (async_rpc_client V e mem p sockets bases (\<lambda>j. join_returns (sys j)) k (map Inr coro) (map Inr sync) s) =
       Inr (if k \<le> 0 then Exits (- 10) else Hangs tables)"
proof -
  let ?ended = "\<lambda>j. join_returns (sys j)"
  obtain w2 where d: "mux_dtor V ?ended 0 cs w' = (Inr (\<forall>j < length cs. ?ended j), w2)"
    using mux_destroyed [of V ?ended 0 cs w'] by auto
  let ?e = "if k \<le> 0 then Exits (- 10) else if \<forall>j < length cs. ?ended j then Returns tables else Hangs tables"
  have run: "\<exists>w. run_client V ?ended k (map Inr coro) (map Inr sync) ps (sv_world s1) = (Inr ?e, w)"
    using phases [OF assms(4,5)] phases [OF assms(4,6)] both_printed [OF assms(4-7)] assms(3,8) d
    by (cases "\<forall>j < length cs. ?ended j") (auto simp: run_client_def bindS_def liftS_def leave_with_def returnS_def)
  then obtain w where w: "run_client V ?ended k (map Inr coro) (map Inr sync) ps (sv_world s1) = (Inr ?e, w)" by blast
  have scope: "scope_outcome False async_rpc_client_scope [] \<noteq> Left" by (simp add: async_rpc_client_left)
  have "fst (async_rpc_client V e mem p sockets bases ?ended k (map Inr coro) (map Inr sync) s) = Inr (if k \<le> 0 then Exits (- 10) else Hangs tables)"
    using w scope by (simp add: async_rpc_client_def thenS_def bindS_def assms(1) flip: assms(2))
  with w show ?thesis by simp
qed

text \<open>A host where every call succeeds and the handles are always the same.\<close>

definition steady_verbs :: verbs where
  "steady_verbs = quiet_verbs\<lparr>v_ptr := \<lambda>h c. 4096\<rparr>"

lemma steady [simp]: "v_rc steady_verbs h c = 0" "v_ptr steady_verbs h c = 4096" "v_keys steady_verbs h = (1, 2)"
  by (simp_all add: steady_verbs_def quiet_verbs_def)

lemma steady_mux: "\<exists>cs' w'. mux_clients steady_verbs 512 ps cs w = (Inr (Some cs'), w') \<and> length cs' = length cs + length ps"
proof (induction ps arbitrary: cs w)
  case (Cons p ps)
  obtain pd sb rb where p: "p = (pd, sb, rb)" by (cases p) auto
  have slots: "all_slots 512 = Some (mset (map of_nat [0..<512]))" by (simp add: all_slots_def)
  obtain c w1 where "rpc_client_ctor steady_verbs pd 512 sb rb w = (Inr (Some c), w1)"
    using slots by (simp add: rpc_client_ctor_def reg_mr_def se_defs Let_def call_ptr_def check_ptr_def record_call_def)
  then show ?case using Cons.IH [of "cs @ [c]" w1] p by simp
qed simp

definition steady_header :: qp_header where
  "steady_header = qp_header_of quiet_verbs qp_b"

text \<open>The peer of every connection sends the header of \<open>qp_b\<close>.\<close>

lemma steady_connect:
  "\<exists>q t. connect_next steady_verbs Little blank_qp sample_pd (1, fresh_conn (qp_header_write Big steady_header)) s = (Inr q, t) \<and>
     sv_spawned t = sv_spawned s"
proof -
  let ?dev = "pd_device sample_pd" and ?c = "Create_cq (dev_ctx (pd_device sample_pd)) (int_of_size 512)"
  let ?q = "\<lparr>cq_device = ?dev, cq_cq = 4096\<rparr>" and ?w = "record_call (Create_cq (dev_ctx (pd_device sample_pd)) (int_of_size 512)) (sv_world s)"
  let ?cf = "\<lparr>max_send_wr = 512, max_recv_wr = 512\<rparr> :: qp_config"
  define q where "q = new_qp blank_qp sample_pd ?q ?q None ?cf 4096 (next_sq_psn ?w)"
  obtain w' where k: "qp_ctor steady_verbs blank_qp sample_pd ?q ?q None ?cf ?w = (Inr q, w')"
    using qp_ctor_apply [of steady_verbs blank_qp sample_pd ?q ?q None ?cf ?w] by (auto simp: Let_def q_def)
  have ctor: "cq_ctor steady_verbs ?dev 512 (sv_world s) = (Inr ?q, ?w)"
    by (simp add: cq_ctor_def se_defs se_simps)
  have a: "qp_qp q \<noteq> nullptr" "qp_user_data q = []" by (simp_all add: q_def)
  have b: "qp_user_data qp_b = []" by (simp add: qp_b_def)
  have "\<exists>q t. connect_next steady_verbs Little blank_qp sample_pd (1, fresh_conn (qp_header_write Big steady_header)) s = (Inr q, t)"
    using a
    by (simp add: connect_next_def connect_def from_socket_def alloc_cq_def conn_world_def se_defs ctor k fresh_conn_def with_qp_def
        exchange_and_connect_def this_qp_def send_qp_def qp_serialize_eq async_write_def steady_header_def
        read_empty_header [OF _ b, where ?e1.0 = Big] on_qp_def qp_rtr_def qp_rts_def se_simps
        set_user_data_def Let_def header_not_empty)
  then show ?thesis using connect_next_spawned by (metis snd_conv)
qed

lemma steady_connects:
  "\<exists>t. connect_each steady_verbs Little blank_qp sample_pd (replicate n (1, fresh_conn (qp_header_write Big steady_header))) s = (Inr (), t) \<and>
     length (sv_spawned t) = length (sv_spawned s) + n"
proof (induction n arbitrary: s)
  case (Suc n)
  obtain q t where c: "connect_next steady_verbs Little blank_qp sample_pd (1, fresh_conn (qp_header_write Big steady_header)) s = (Inr q, t)"
    "sv_spawned t = sv_spawned s" using steady_connect by blast
  then show ?case using Suc.IH [of "t\<lparr>sv_spawned := sv_spawned t @ [q]\<rparr>"]
    by (simp add: thenS_def bindS_def spawn_def modifyS_def)
qed (simp add: returnS_def)

theorem rpc_client_never_returns_witness:
  "\<exists>s. fst (async_rpc_client steady_verbs Little blank_qp sample_pd (\<lambda>i. (1, fresh_conn (qp_header_write Big steady_header))) (\<lambda>i. (4096, 8192))
      (\<lambda>j. join_returns sample_rpc) 2 (map Inr [5, 7]) (map Inr [8, 9]) s) = Inr (Hangs [Printed 2000000 7, Printed 2000000 9])"
proof -
  let ?sockets = "\<lambda>i :: nat. (1 :: nat, fresh_conn (qp_header_write Big steady_header))"
  let ?s = "\<lparr>sv_pollers = [], sv_world = fresh_world, sv_spawned = []\<rparr>"
  have "map ?sockets [0..<4] = replicate 4 (1, fresh_conn (qp_header_write Big steady_header))" by (simp add: map_replicate_const)
  then obtain t where t: "async_rpc_connect steady_verbs Little blank_qp sample_pd ?sockets ?s = (Inr (), t)"
    using steady_connects [of 4 ?s] by (auto simp: async_rpc_connect_def)
  define ps where "ps = map (\<lambda>(i, q). (qp_pd q, (4096 :: ptr, 8192 :: ptr))) (enumerate 0 (sv_spawned t))"
  obtain cs w' where mux: "mux_clients steady_verbs 512 ps [] (sv_world t) = (Inr (Some cs), w')" using steady_mux by blast
  have hyps: "(2 :: int) \<le> 2147" "length [5, 7 :: int] = nat 2" "length [8, 9 :: int] = nat 2" "0 \<notin> set [5, 7 :: int] \<union> set [8, 9]" by simp_all
  from rpc_client_never_returns [OF t ps_def mux hyps refl, of "\<lambda>j. sample_rpc", THEN conjunct2] show ?thesis by (intro exI) simp
qed

end
