(* ===== verification/Bw_Reporter.thy ===== *)
theory Bw_Reporter
  imports Programs
begin

text \<open>
  The counters of \<^verbatim>\<open>examples/write_bw.cc\<close>: every client increments its own, and a thread reads and resets them one after the other. An
  interleaving is a list of accesses; the rates computed of the counts are left out.
\<close>

section \<open>The reporter\<close>

datatype bw_line = Iops_of nat size_t | Iops size_t

text \<open>\<open>bs_index\<close> is the counter the reporter looks at next, \<open>kQP\<close> when it is about to print the sum.\<close>

record bw_stats =
  bs_counts :: "size_t list"
  bs_index :: nat
  bs_iops :: size_t
  bs_lines :: "bw_line list"

definition bw_stats_init :: bw_stats where
  "bw_stats_init = \<lparr>bs_counts = replicate kQP 0, bs_index = 0, bs_iops = 0, bs_lines = []\<rparr>"

definition fetch_add :: "nat \<Rightarrow> bw_stats \<Rightarrow> bw_stats" where
  "fetch_add i s = s\<lparr>bs_counts := (bs_counts s)[i := bs_counts s ! i + 1]\<rparr>"

definition bw_reporter :: "bw_stats \<Rightarrow> bw_stats" where
  "bw_reporter s = (let i = bs_index s in
     if i < kQP then (let t = bs_counts s ! i in
       s\<lparr>bs_counts := (bs_counts s)[i := 0], bs_iops := bs_iops s + t, bs_lines := bs_lines s @ [Iops_of i t], bs_index := Suc i\<rparr>)
     else s\<lparr>bs_lines := bs_lines s @ [Iops (bs_iops s)], bs_iops := 0, bs_index := 0\<rparr>)"

datatype bw_access = Client_counts nat | Reporter_looks

fun bw_apply :: "bw_access \<Rightarrow> bw_stats \<Rightarrow> bw_stats" where
  "bw_apply (Client_counts i) s = fetch_add i s"
| "bw_apply Reporter_looks s = bw_reporter s"

definition bw_accesses :: "bw_access list \<Rightarrow> bw_stats" where
  "bw_accesses es = foldl (\<lambda>s a. bw_apply a s) bw_stats_init es"

section \<open>Nothing is lost\<close>

fun reported :: "nat \<Rightarrow> bw_line \<Rightarrow> size_t" where
  "reported i (Iops_of j t) = (if i = j then t else 0)"
| "reported i (Iops t) = 0"

fun line_part :: "bw_line \<Rightarrow> size_t" where
  "line_part (Iops_of j t) = t"
| "line_part (Iops t) = 0"

fun line_total :: "bw_line \<Rightarrow> size_t" where
  "line_total (Iops t) = t"
| "line_total (Iops_of j t) = 0"

definition all_reported :: "nat \<Rightarrow> bw_stats \<Rightarrow> size_t" where
  "all_reported i s = sum_list (map (reported i) (bs_lines s))"

lemma bw_accesses_snoc: "bw_accesses (es @ [a]) = bw_apply a (bw_accesses es)"
  by (simp add: bw_accesses_def)

lemma bw_counts_length: "length (bs_counts (bw_accesses es)) = kQP"
proof (induction es rule: rev_induct)
  case (snoc a es)
  then show ?case by (cases a) (simp_all add: bw_accesses_snoc fetch_add_def bw_reporter_def Let_def)
qed (simp add: bw_accesses_def bw_stats_init_def)

lemma counter_kept:
  assumes "i < kQP"
  shows "bs_counts (bw_accesses es) ! i + all_reported i (bw_accesses es) = of_nat (count_list es (Client_counts i))"
proof (induction es rule: rev_induct)
  case Nil
  show ?case using assms by (simp add: bw_accesses_def bw_stats_init_def all_reported_def)
next
  case (snoc a es)
  have "length (bs_counts (bw_accesses es)) = kQP" by (rule bw_counts_length)
  then show ?case using snoc assms
    by (cases a) (auto simp: bw_accesses_snoc fetch_add_def bw_reporter_def Let_def all_reported_def nth_list_update algebra_simps)
qed

lemma sums_kept:
  "sum_list (map line_total (bs_lines (bw_accesses es))) + bs_iops (bw_accesses es) = sum_list (map line_part (bs_lines (bw_accesses es)))"
proof (induction es rule: rev_induct)
  case Nil
  show ?case by (simp add: bw_accesses_def bw_stats_init_def)
next
  case (snoc a es)
  then show ?case by (cases a) (simp_all add: bw_accesses_snoc fetch_add_def bw_reporter_def Let_def algebra_simps)
qed

text \<open>
  In every interleaving of the clients of the bandwidth example with its reporter, every increment of a counter is reported once
  or still in the counter, and what the lines of the counters tell is told once by the sums, but for the round in progress (all
  modulo \<open>2 ^ 64\<close>).
\<close>

theorem bw_reports_complete:
  "(\<forall>i < kQP. bs_counts (bw_accesses es) ! i + all_reported i (bw_accesses es) = of_nat (count_list es (Client_counts i))) \<and>
   sum_list (map line_total (bs_lines (bw_accesses es))) + bs_iops (bw_accesses es) = sum_list (map line_part (bs_lines (bw_accesses es)))"
  using counter_kept sums_kept by blast

theorem bw_reports_complete_witness:
  "bs_counts (bw_accesses [Client_counts 0, Reporter_looks, Client_counts 0]) ! 0 +
     all_reported 0 (bw_accesses [Client_counts 0, Reporter_looks, Client_counts 0]) = 2"
proof -
  have "0 < kQP" by (simp add: kQP_def)
  with bw_reports_complete [of "[Client_counts 0, Reporter_looks, Client_counts 0]"] show ?thesis by simp
qed

end
