(* ===== verification/Completion_Token.thy ===== *)
theory Completion_Token
  imports Executor
begin

text \<open>
  \<^verbatim>\<open>completion_token.h\<close>: the token of an operation decides what its work request id is the address of, the token of a poller what it is
  taken for. The program picks both at compile time, and in different places.
\<close>

section \<open>Tokens\<close>

datatype completion_token = Use_asio_awaitable | Use_native_awaitable

text \<open>\<open>asio\<close> tells whether the build defines \<open>RDMAPP_ASIO_COROUTINE\<close>.\<close>

definition default_completion_token :: "bool \<Rightarrow> completion_token" where
  "default_completion_token asio = (if asio then Use_asio_awaitable else Use_native_awaitable)"

definition is_use_asio_awaitable :: "completion_token \<Rightarrow> bool" where
  "is_use_asio_awaitable t \<longleftrightarrow> t = Use_asio_awaitable"

definition is_use_native_awaitable :: "completion_token \<Rightarrow> bool" where
  "is_use_native_awaitable t \<longleftrightarrow> t = Use_native_awaitable"

definition valid_completion_token :: "bool \<Rightarrow> completion_token \<Rightarrow> bool" where
  "valid_completion_token asio t \<longleftrightarrow> asio \<and> is_use_asio_awaitable t \<or> is_use_native_awaitable t"

text \<open>The tokens of \<open>cq_poller\<close> and \<open>native_cq_poller\<close>.\<close>

definition cq_poller_token :: "bool \<Rightarrow> completion_token" where
  "cq_poller_token asio = (if asio then Use_asio_awaitable else Use_native_awaitable)"

definition native_cq_poller_token :: completion_token where
  "native_cq_poller_token = Use_native_awaitable"

section \<open>Completions of either kind\<close>

text \<open>One heap with callbacks and operation states.\<close>

type_synonym ('c, 's) heap = "('c, 's native) exec"

definition on_env :: "('s, 'a) se \<Rightarrow> (('c, 's) exec, 'a) se" where
  "on_env m s = (case m (ex_env s) of (r, e) \<Rightarrow> (r, s\<lparr>ex_env := e\<rparr>))"

definition execute_callback :: "completion_token \<Rightarrow> ('c \<Rightarrow> ibv_wc \<Rightarrow> (('c, 's) heap, unit) se) \<Rightarrow> (nat \<Rightarrow> ('s native, unit) se) \<Rightarrow>
    ibv_wc \<Rightarrow> (('c, 's) heap, unit) se" where
  "execute_callback t run resume wc = (case t of
     Use_asio_awaitable \<Rightarrow> execute_callback_asio run wc
   | Use_native_awaitable \<Rightarrow> on_env (execute_callback_native resume wc))"

text \<open>An operation with token \<open>t\<close> waits at address \<open>a\<close>, where nothing else lives.\<close>

definition waits_at :: "completion_token \<Rightarrow> u64 \<Rightarrow> ('c, 's) heap \<Rightarrow> bool" where
  "waits_at t a s \<longleftrightarrow> (ex_callbacks s a \<noteq> None \<longleftrightarrow> t = Use_asio_awaitable) \<and> (nt_states (ex_env s) a \<noteq> None \<longleftrightarrow> t = Use_native_awaitable)"

definition delivered :: "completion_token \<Rightarrow> ('c \<Rightarrow> ibv_wc \<Rightarrow> (('c, 's) heap, unit) se) \<Rightarrow> (nat \<Rightarrow> ('s native, unit) se) \<Rightarrow>
    ibv_wc \<Rightarrow> ('c, 's) heap \<Rightarrow> ('c, 's) heap \<Rightarrow> bool" where
  "delivered t run resume wc s s' = (case t of
     Use_asio_awaitable \<Rightarrow> (\<exists>cb s1. ex_callbacks s (wc_wr_id wc) = Some cb \<and> run cb wc s = (Inr (), s1) \<and>
       s' = s1\<lparr>ex_callbacks := (ex_callbacks s1)(wc_wr_id wc := None)\<rparr>)
   | Use_native_awaitable \<Rightarrow> (\<exists>st e. nt_states (ex_env s) (wc_wr_id wc) = Some st \<and> resume (op_coro_handle st)
       ((ex_env s)\<lparr>nt_states := (nt_states (ex_env s))(wc_wr_id wc \<mapsto> set_from_wc wc st)\<rparr>) = (Inr (), e) \<and> s' = s\<lparr>ex_env := e\<rparr>))"

text \<open>What is called returns, and a callback does not free itself.\<close>

definition code_returns :: "('c \<Rightarrow> ibv_wc \<Rightarrow> (('c, 's) heap, unit) se) \<Rightarrow> (nat \<Rightarrow> ('s native, unit) se) \<Rightarrow> bool" where
  "code_returns run resume \<longleftrightarrow> (\<forall>cb wc s. fst (run cb wc s) = Inr () \<and> keeps_callbacks s (snd (run cb wc s))) \<and> (\<forall>h e. fst (resume h e) = Inr ())"

lemma set_from_wc_handle [simp]: "op_coro_handle (set_from_wc wc st) = op_coro_handle st"
  by (simp add: set_from_wc_def Let_def split: option.split ibv_wr_opcode.split)

lemma same_token:
  assumes "waits_at t (wc_wr_id wc) s" and "wc_wr_id wc \<noteq> 0" and "code_returns run resume"
  shows "\<exists>s'. execute_callback t run resume wc s = (Inr (), s') \<and> delivered t run resume wc s s'"
proof (cases t)
  case Use_asio_awaitable
  then obtain cb where cb: "ex_callbacks s (wc_wr_id wc) = Some cb" using assms(1) by (auto simp: waits_at_def)
  obtain s1 where r: "run cb wc s = (Inr (), s1)" and k: "keeps_callbacks s s1"
    using assms(3) unfolding code_returns_def by (metis prod.collapse)
  from keepsD [OF k cb] show ?thesis using Use_asio_awaitable cb r assms(2)
    by (simp add: execute_callback_def execute_callback_asio_def destroy_callback_def delivered_def noexceptS_def se_defs)
next
  case Use_native_awaitable
  then obtain st where st: "nt_states (ex_env s) (wc_wr_id wc) = Some st" using assms(1) by (auto simp: waits_at_def)
  let ?e = "(ex_env s)\<lparr>nt_states := (nt_states (ex_env s))(wc_wr_id wc \<mapsto> set_from_wc wc st)\<rparr>"
  obtain e where "resume (op_coro_handle st) ?e = (Inr (), e)" using assms(3) unfolding code_returns_def by (metis prod.collapse)
  then show ?thesis using Use_native_awaitable st
    by (simp add: execute_callback_def execute_callback_native_def on_env_def delivered_def noexceptS_def se_defs)
qed

lemma other_token:
  assumes "waits_at t (wc_wr_id wc) s" and "t' \<noteq> t"
  shows "\<exists>m. process_wc (execute_callback t' run resume) (wc # wcs) s = (Inl (Undefined_behaviour m), s)"
  using assms by (cases t; cases t')
    (auto simp: waits_at_def process_wc_def execute_callback_def execute_callback_asio_def execute_callback_native_def on_env_def noexceptS_def se_defs)

text \<open>
  C14: a completion is delivered to the operation that waits for it exactly if the poller of the queue has the operation's token; with the other
  one the poller takes the address for something that is not there, and neither concept nor type prevents it. The defaults of operations and
  pollers agree in every build.
\<close>

theorem token_must_match:
  assumes "waits_at t (wc_wr_id wc) s" and "wc_wr_id wc \<noteq> 0" and "code_returns run resume"
  shows "(t' = t \<longrightarrow> (\<exists>s'. execute_callback t' run resume wc s = (Inr (), s') \<and> delivered t run resume wc s s')) \<and>
    (t' \<noteq> t \<longrightarrow> (\<exists>m. process_wc (execute_callback t' run resume) (wc # wcs) s = (Inl (Undefined_behaviour m), s))) \<and>
    cq_poller_token asio = default_completion_token asio \<and> valid_completion_token asio (default_completion_token asio) \<and>
    valid_completion_token asio native_cq_poller_token"
  using same_token [OF assms] other_token [OF assms(1)]
  by (simp add: cq_poller_token_def default_completion_token_def valid_completion_token_def is_use_asio_awaitable_def is_use_native_awaitable_def
      native_cq_poller_token_def)

theorem token_must_match_witness:
  "\<exists>m s. waits_at Use_native_awaitable 8 (s :: (unit, unit) heap) \<and>
     process_wc (execute_callback (cq_poller_token True) (\<lambda>cb wc. returnS ()) (\<lambda>h. returnS ()))
       [\<lparr>wc_wr_id = 8, wc_status = IBV_WC_SUCCESS, wc_byte_len = 5, wc_imm_data = 0, wc_flags = 0\<rparr>] s = (Inl (Undefined_behaviour m), s)"
proof -
  let ?s = "\<lparr>ex_callbacks = (\<lambda>a. None), ex_env = \<lparr>nt_states = [8 \<mapsto> operation_state_recv], nt_env = ()\<rparr>\<rparr> :: (unit, unit) heap"
  let ?wc = "\<lparr>wc_wr_id = 8, wc_status = IBV_WC_SUCCESS, wc_byte_len = 5, wc_imm_data = 0, wc_flags = 0\<rparr> :: ibv_wc"
  have "waits_at Use_native_awaitable (wc_wr_id ?wc) ?s" and "wc_wr_id ?wc \<noteq> 0" by (simp_all add: waits_at_def)
  moreover have "code_returns (\<lambda>(cb :: unit) wc. returnS ()) (\<lambda>h. returnS () :: (unit native, unit) se)"
    by (simp add: code_returns_def returnS_def)
  moreover have "cq_poller_token True \<noteq> Use_native_awaitable" by (simp add: cq_poller_token_def)
  ultimately have "\<exists>m. process_wc (execute_callback (cq_poller_token True) (\<lambda>cb wc. returnS ()) (\<lambda>h. returnS ())) [?wc] ?s =
      (Inl (Undefined_behaviour m), ?s)"
    using token_must_match [of Use_native_awaitable ?wc ?s "\<lambda>cb wc. returnS ()" "\<lambda>h. returnS ()" "cq_poller_token True" "[]"] by blast
  moreover have "waits_at Use_native_awaitable 8 ?s" by (simp add: waits_at_def)
  ultimately show ?thesis by blast
qed

end
