(* ===== verification/Rpc_Late.thy ===== *)
theory Rpc_Late
  imports Rpc_Steps
begin

text \<open>
  Failed sends and the receive workers of \<open>RpcClient\<close>: what a worker that spins on \<open>slot.waiter\<close> can rely on, and what a
  reply does that comes to a call whose send was reported failed. \<open>call\<close> gives its slot back then, with the identifier still in
  it; nothing tells the peer or the workers.
\<close>

section \<open>A spinning worker\<close>



section \<open>A call whose send fails too late\<close>














end
