(* ===== verification/Spec2Isabelle.thy ===== *)
theory Spec2Isabelle
  imports Recv_Race Cq_Poller Blocking_Queue Logger Mr_Ownership Handshake Rpc_System Task Simple_Rpc Bandwidth Latency Cancel_Example Hello_World Rpc_Workload Rpc_Lifetime Programs Send_Bandwidth Event_Scope Rpc_Run Bw_Reporter Completion_Token Rpc_Late
begin

text \<open>
  A verification development for rdmapp, a C++20 coroutine library over libibverbs
  (\<^verbatim>\<open>include/rdmapp\<close>, \<^verbatim>\<open>src\<close>) with its example programs (\<^verbatim>\<open>examples\<close>).

  \<^bold>\<open>The program.\<close> A \<open>device\<close> owns an ibverbs context, a \<open>pd\<close> registers memory on it
  (\<open>local_mr\<close>), a \<open>cq\<close> receives completions, a \<open>qp\<close> posts requests, whose 64-bit
  identifier is the address of what has to run when they complete. An operation of a queue
  pair builds an awaitable; suspending it posts the request. A \<open>cq_poller\<close> thread polls the
  completion queue and hands each completion to the \<open>executor\<close>, which finds the callback at the address
  in the completion and so resumes the coroutine, either directly (native awaitables) or through an asio
  composed operation, which can also be cancelled. Two peers exchange the numbers of their queue
  pairs over a TCP socket first (\<open>qp_transmission\<close>, \<open>qp_acceptor\<close>, \<open>qp_connector\<close>). On top of it,
  \<^verbatim>\<open>examples/include/coro_rpc.hpp\<close> is an RPC client and server, and \<^verbatim>\<open>task.hpp\<close>, \<^verbatim>\<open>future.hpp\<close> are a
  coroutine type and the future it is awaited through.

  \<^bold>\<open>Theories.\<close>
    \<^item> \<open>Rdmapp_Prelude\<close>: machine types, exceptions (\<open>exn\<close>), computations with state and exceptions
      (\<open>se\<close>: a function of the state that returns a value or the exception that left it, and the state), the
      locale \<open>transition_system\<close> and \<open>printf\<close> conversions.
    \<^item> \<open>Serdes\<close> (\<^verbatim>\<open>detail/serdes.h\<close>): \<open>serialize\<close>, \<open>deserialize\<close>, \<open>hton\<close> on hosts of either byte order; the locale
      \<open>codec\<close> is interpreted for every type that travels.
    \<^item> \<open>Verbs\<close>: what the code passes to libibverbs and reads from it; \<open>verbs\<close> is the library, a parameter,
      and \<open>world\<close> the record of the calls made.
    \<^item> \<open>Errors\<close> (\<^verbatim>\<open>error.h\<close>), \<open>Logger\<close> (\<^verbatim>\<open>detail/logger.h\<close>, \<^verbatim>\<open>logger.cc\<close>).
    \<^item> \<open>Mr\<close>, \<open>Mr_Ownership\<close> (\<^verbatim>\<open>mr.h\<close>, \<^verbatim>\<open>mr.cc\<close>): regions, their wire description, views; moves and
      destruction, with a multiset account of who owns which region.
    \<^item> \<open>Device\<close> (\<^verbatim>\<open>device.h\<close>, \<^verbatim>\<open>device.cc\<close>); \<open>Resources\<close> (\<^verbatim>\<open>pd.cc\<close>, \<^verbatim>\<open>cq.cc\<close>, \<^verbatim>\<open>srq.cc\<close>), with the locale \<open>owner\<close> of
      an object whose destructor gives back what its constructor took.
    \<^item> \<open>Qp\<close> (\<^verbatim>\<open>qp.h\<close>, \<^verbatim>\<open>qp.cc\<close>): construction, the state transitions, posting, destruction, the wire header;
      \<open>Awaitable\<close> (the two awaitables); \<open>Operations\<close> (every public operation, on a buffer and on a view).
    \<^item> \<open>Executor\<close> (\<^verbatim>\<open>executor.h\<close>, \<^verbatim>\<open>executor.cc\<close>): the callbacks that are alive and how a completion finds its own;
      \<open>Completion_Token\<close> (\<^verbatim>\<open>completion_token.h\<close>): what happens when poller and operation disagree on its kind;
      \<open>Asio_Op\<close> (\<^verbatim>\<open>qp.cc\<close>, the asio operators of both awaitables); \<open>Recv_Race\<close>: the same receive and its cancellation as a
      step relation.
    \<^item> \<open>Cq_Poller\<close> (\<^verbatim>\<open>cq_poller.cc\<close>), \<open>Blocking_Queue\<close> (\<^verbatim>\<open>detail/blocking_queue.h\<close>, with its threads).
    \<^item> \<open>Handshake\<close> (\<^verbatim>\<open>qp_transmission.cc\<close>, \<^verbatim>\<open>qp_acceptor.cc\<close>, \<^verbatim>\<open>qp_connector.cc\<close>).
    \<^item> \<open>Rpc_Wire\<close>, \<open>Rpc_Client\<close>, \<open>Rpc_Steps\<close>, \<open>Rpc_Server\<close>, \<open>Rpc_System\<close> (\<^verbatim>\<open>coro_rpc.hpp\<close>, \<^verbatim>\<open>async_rpc.cc\<close>): message layout and buffer
      pools (locale \<open>slice_pool\<close>); the client's operations; its callers, receive workers and the transport as a step
      relation; one request at the server; both together, and the workload that checks the responses. \<open>Rpc_Late\<close>: when the receive workers
      end their spinning, and what a send that is reported as failed although its message arrives does to the calls of others.
    \<^item> \<open>Rpc_Lifetime\<close>, \<open>Rpc_Workload\<close>, \<open>Rpc_Run\<close>: the loop of a server worker, destructors, the mux and the end of the receive workers;
      the test workers and statistics of \<^verbatim>\<open>async_rpc.cc\<close>; its client from the connections to the end. \<open>Event_Scope\<close>: functions that run an
      event loop in a thread of their own, and whether their scope can be left.
    \<^item> \<open>Spin_Future\<close>, \<open>Task\<close> (\<^verbatim>\<open>future.hpp\<close>, \<^verbatim>\<open>task.hpp\<close>): promise and future; the coroutine type, with its runner and
      its owner on two threads.
    \<^item> \<open>Fabric\<close>, \<open>Dialogue\<close>: two peers whose coroutines suspend in sends and receives, their memories, and the network cards between them;
      a run is a sequence of \<open>link_step\<close>s in any order of the two sides. \<open>meets\<close> is a rule for the next exchange of a dialogue, and
      \<open>dialogue_outcome\<close> turns it into a statement on all interleavings.
    \<^item> \<open>Hello_World\<close>, \<open>Simple_Rpc\<close>, \<open>Bandwidth\<close>, \<open>Latency\<close>, \<open>Cancel_Example\<close>: the two coroutines of each example as such
      a dialogue (\<^verbatim>\<open>helloworld_handler.cc\<close>, \<^verbatim>\<open>rpc.cc\<close>, \<^verbatim>\<open>write_bw.cc\<close>, \<^verbatim>\<open>latency.cc\<close>, \<^verbatim>\<open>latency_raw.cc\<close>, \<^verbatim>\<open>cancellation.cc\<close>).
    \<^item> \<open>Send_Bandwidth\<close> (\<^verbatim>\<open>send_bw_raw.cc\<close>): many workers over one queue pair and the thread that reports. \<open>Bw_Reporter\<close>: the counters of
      \<^verbatim>\<open>write_bw.cc\<close> with theirs.
    \<^item> \<open>Programs\<close>: \<open>main\<close> of every example, the loops that accept and connect, and the class bound to Python.

  \<^bold>\<open>How the code is read.\<close> A member function is a definition of its own name; its argument order is
  the libibverbs parameter, indices into the heap, arguments, state. An object is a record with the fields of the
  class. Assertions are enabled (the code is built without \<^verbatim>\<open>NDEBUG\<close>): a failed one is the exception
  \<open>Assert_failed\<close>, which no handler catches; what C++ leaves undefined is \<open>Undefined_behaviour\<close>. A destructor or another
  \<open>noexcept\<close> function that throws ends in \<open>Terminated\<close>. Lines that only log are left out, except
  where their arguments have an effect of their own.

  \<^bold>\<open>What is a parameter.\<close> libibverbs (\<open>verbs\<close>: every answer may depend on all calls before), the allocator of callbacks
  (\<open>alloc\<close>; \<open>operator_new\<close> only uses an answer that is not alive), the coroutine that continues after
  a completion (\<open>ends\<close>, \<open>looping\<close>), the socket (its bytes, and where they end), the network cards (\<open>cards\<close>: \<open>serves e X\<close> says that a card does what
  the peers' memory and posted receives call for, \<open>plain_cards\<close> is an instance), the clock, and the event loop and signals around
  the coroutines of an example. Hypotheses on them are the premises of
  the properties that need them; each has a witness with a concrete instance (\<open>quiet_verbs\<close>: a library where every call
  succeeds).

  \<^bold>\<open>Loops.\<close> The polling thread and the busy loop of a future are \<open>partial_function (option)\<close>s: \<open>None\<close> is a loop
  that never ends, and it is proved when they end. All other loops are bounded by the data and are structural
  recursions; \<open>dec_nat\<close> decreases its argument. No definition uses fuel. The loops of the examples run \<open>10\<^sup>6\<close> to \<open>2\<^sup>3\<^sup>0\<close> rounds, their own
  constants. A dialogue of \<open>n\<close> exchanges takes at most \<open>3 * n + 2\<close> steps, one to post on either side, one to transfer; the send bandwidth
  program takes for every send at most one step for each byte of the message that arrives, and five more.

  \<^bold>\<open>Interleaving.\<close> Five parts run on several threads: a blocking queue, a receive with its cancellation,
  the RPC client, a task with its owner, and the workers of the send bandwidth program. Each is an \<open>inductive\<close> step relation, whose steps are the code's atomic actions, and
  the locale \<open>transition_system\<close> is interpreted on it with the invariant its safety properties rest on.

  \<^bold>\<open>What the lemmas show.\<close> Of the library: the wire formats round-trip on any pair of hosts; every object gives back what it took, or where
  not; the calls of a queue pair follow its state machine; a posted request carries what was asked for; a completion reaches its operation
  once, or when it is lost. Of the RPC code: slots are exclusive, answers match requests, what overflows, what hangs. Of the examples: which end in every
  interleaving, and with what; which of them a peer or a command line can break.

  \<^bold>\<open>Not modelled.\<close> \<^verbatim>\<open>rdmapp.h\<close> and \<^verbatim>\<open>noncopyable.h\<close> hold includes and deleted copies, which values in the model do not need. Times,
  rates and other floating point numbers only appear in log lines, as do the addresses and keys the examples print. Event loops and signal
  handling are asio's; the thread pool of the RPC server changes the thread a worker runs on and nothing the model has. The registration
  with pybind11, the Python script and the build are not C++ of the program. The debug checks of \<open>RDMAPP_BUILD_DEBUG\<close> builds and their constants are left out.
  The steps of the RPC client exclude requests longer than \<open>kSendMsgSize\<close>, for which \<open>Rpc_Client\<close> shows what
  goes wrong, and assume of the transport that a message arrives at most once and unchanged. A send
  that is reported as failed may or may not arrive: both are steps. What is stated of the answers holds up to the first such failure of a
  message that arrived or still may (\<open>rs_late\<close>); \<open>Rpc_Late\<close> shows that it does not hold after it.
\<close>

section \<open>Properties that span components\<close>

text \<open>
  The posted request of a receive over a view, and its suspension when libibverbs takes it.
\<close>

definition recv_wr :: "mr_view \<Rightarrow> u64 \<Rightarrow> ibv_recv_wr" where
  "recv_wr v p = build_recv_wr (recv_awaitable_view 0 v) p"

lemma recv_suspends:
  assumes "heap i = Some q" and "v_rc V (calls w) (recv_call q (recv_wr v p)) = 0"
  shows "ra_suspend V heap p (recv_awaitable_view i v) w =
     (Inr (True, recv_awaitable_view i v), record_call (recv_call q (recv_wr v p)) w)"
proof -
  have wr: "build_recv_wr (recv_awaitable_view i v) p = recv_wr v p" "ra_qp (recv_awaitable_view i v) = i"
    by (simp_all add: recv_wr_def build_recv_wr_def recv_awaitable_view_def)
  obtain t where "qp_post_recv V q (recv_wr v p) w =
     (if v_rc V (calls w) (recv_call q (recv_wr v p)) = 0 then Inr () else Inl (failure t),
      record_call (recv_call q (recv_wr v p)) w)"
    using qp_post_recv_apply by blast
  with assms show ?thesis by (simp add: ra_suspend_def wr se_defs)
qed

text \<open>
  C9: a receive, from the call to the result, through queue pair, awaitable, executor and asio
  operation: when the post succeeds, the request in the queue carries the address of the callback, and
  when its completion is processed, the awaiting coroutine is handed exactly one
  result, without exception: the length, and the immediate value if there is one. Every
  callback allocated on the way is freed again.
\<close>

theorem recv_end_to_end:
  assumes "heap i = Some q" and "operator_new alloc (live s) = p" and "p \<noteq> 0"
    and "v_rc V (calls (as_world (ex_env s))) (recv_call q (recv_wr v p)) = 0"
    and "wc_wr_id wc = p" and "wc_status wc = IBV_WC_SUCCESS"
  shows "\<exists>s1 t r. initiate_recv V heap alloc slot (recv_awaitable_view i v) s = (Inr (next_op s), s1) \<and>
     calls (as_world (ex_env s1)) = calls (as_world (ex_env s)) @ [recv_call q (recv_wr v p)] \<and>
     process_wc (execute_callback_asio (run_closure V ends)) [wc] s1 = (Inr (), t) \<and>
     op_at t (next_op s) = Some r \<and> ao_completions r = [Received None (recv_value V wc)] \<and>
     ex_callbacks t = ex_callbacks s"
proof -
  let ?k = "next_op s" and ?a = "recv_awaitable_view i v"
  let ?w = "record_call (recv_call q (recv_wr v p)) (as_world (ex_env s))"
  let ?r = "waiting_op (Recv_aw ?a) slot p"
  let ?s1 = "add_op ?r ?w ((ex_callbacks s)(p \<mapsto> Recv_callback ?k)) s"
  have run: "initiate_recv V heap alloc slot ?a s = (Inr ?k, ?s1)"
    using initiate_recv_apply [OF recv_suspends [where heap = heap, OF assms(1,4)] assms(2), of slot] assms(3)
    by simp
  have op: "op_at ?s1 ?k = Some ?r" by (simp add: op_at_add)
  have aw: "ao_awaitable ?r = Recv_aw ?a" "op_wr_opcode (ra_state ?a) = None" "ra_exception ?a = None"
    "ao_complete_called ?r = False" "ao_completions ?r = []"
    by (simp_all add: waiting_op_def recv_awaitable_view_def operation_state_recv_def)
  let ?c = "Received None (recv_value V wc)"
  let ?t = "(completed ?k wc ?c (flagged ?k ?s1))\<lparr>ex_callbacks := ex_callbacks s\<rparr>"
  have free: "(ex_callbacks s)(p := None) = ex_callbacks s"
    using operator_new_fresh [OF assms(2,3)] by (simp add: fun_upd_idem)
  have exec: "process_wc (execute_callback_asio (run_closure V ends)) [wc] ?s1 = (Inr (), ?t)"
    using assms(3,5,6) aw free
    by (simp add: process_wc_def noexceptS_def se_defs execute_callback_asio_def run_recv [OF op aw(1,2)]
        destroy_callback_def)
  obtain r' where "op_at ?t ?k = Some r'" "ao_completions r' = [?c]"
    using op aw(5) by (simp add: completed_def flagged_def op_at_update store_wc_def)
  moreover have "calls (as_world (ex_env ?s1)) = calls (as_world (ex_env s)) @ [recv_call q (recv_wr v p)]"
    by (simp add: add_op_def)
  ultimately show ?thesis using run exec by (intro exI [of _ ?t] exI [of _ ?s1] exI [of _ r']) simp
qed

theorem recv_end_to_end_witness:
  "\<exists>s1 t r. initiate_recv quiet_verbs (\<lambda>i. Some blank_qp) (\<lambda>l. 8) True (recv_awaitable_view 0 mr_view_empty)
       empty_exec = (Inr 0, s1) \<and>
     process_wc (execute_callback_asio (run_closure quiet_verbs ends)) [sample_wc] s1 = (Inr (), t) \<and>
     op_at t 0 = Some r \<and> ao_completions r = [Received None (5, None)]"
proof -
  have zero: "next_op empty_exec = 0" and val: "recv_value quiet_verbs sample_wc = (5, None)"
    by (simp_all add: next_op_def empty_exec_def recv_value_def sample_wc_def)
  have "(\<lambda>i. Some blank_qp) 0 = Some blank_qp" and "operator_new (\<lambda>l. 8) (live empty_exec) = 8" and "(8 :: u64) \<noteq> 0"
    and "v_rc quiet_verbs (calls (as_world (ex_env empty_exec))) (recv_call blank_qp (recv_wr mr_view_empty 8)) = 0"
    and "wc_wr_id sample_wc = 8" and "wc_status sample_wc = IBV_WC_SUCCESS"
    by (simp_all add: operator_new_def live_def empty_exec_def sample_wc_def)
  from recv_end_to_end [where heap = "\<lambda>i. Some blank_qp" and i = 0, OF this, of True]
  show ?thesis unfolding zero val by blast
qed

end
